(* ===== verification/Prelude.thy ===== *)
theory Prelude
  imports Main "HOL-Library.Word" "HOL-Library.List_Lexorder" "HOL-Library.Char_ord"
begin

text \<open>
  Shared vocabulary of the development: Go byte slices and strings, Go error values, the outcome
  of a Go call (a value, an error result, or a panic), and the sequencing of calls that thread a
  state. Every Go function of the model returns a \<open>res\<close>; a function that changes state
  returns the outcome together with the state it leaves behind, also when it fails.
\<close>

section \<open>Bytes, slices, strings\<close>

type_synonym bytes = "8 word list"

text \<open>A \<open>[]byte\<close> value: \<open>None\<close> is the nil slice, which Go tells apart from an empty one.\<close>

type_synonym slice = "bytes option"

definition slice_bytes :: "slice \<Rightarrow> bytes" where
  "slice_bytes s = (case s of None \<Rightarrow> [] | Some b \<Rightarrow> b)"

definition slice_len :: "slice \<Rightarrow> nat" where
  "slice_len s = length (slice_bytes s)"

text \<open>The conversions \<open>[]byte(s)\<close> and \<open>string(b)\<close>; a HOL \<open>char\<close> is one byte.\<close>

definition bytes_of :: "string \<Rightarrow> bytes" where
  "bytes_of s = map of_char s"

definition string_of :: "bytes \<Rightarrow> string" where
  "string_of b = map (\<lambda>w. char_of (unat w)) b"

section \<open>Errors and outcomes\<close>

text \<open>
  The error values the program builds: a plain message (\<open>fmt.Errorf\<close> without \<open>%w\<close>),
  a message wrapping a cause (\<open>%w\<close>), a producer error of a Kafka adaptor with its two flags
  (\<open>RequiresRestart\<close>, \<open>TxnRequiresAbort\<close>), the \<open>encoding.Err\<close> struct and the
  \<open>async.ErrInterrupted\<close> sentinel. Source positions that the constructors append to a
  message are left out.
\<close>

datatype gerror =
    EPlain string
  | EWrap string gerror
  | EProducer bool bool string
  | EEncoding gerror
  | EInterrupted

datatype 'a res = Ok 'a | Err gerror | Panic string

definition is_ok :: "'a res \<Rightarrow> bool" where
  "is_ok r = (case r of Ok _ \<Rightarrow> True | _ \<Rightarrow> False)"

definition bind_res :: "'a res \<Rightarrow> ('a \<Rightarrow> 'b res) \<Rightarrow> 'b res" where
  "bind_res r k = (case r of Ok a \<Rightarrow> k a | Err e \<Rightarrow> Err e | Panic p \<Rightarrow> Panic p)"

definition wrap_res :: "string \<Rightarrow> 'a res \<Rightarrow> 'a res" where
  "wrap_res msg r = (case r of Err e \<Rightarrow> Err (EWrap msg e) | _ \<Rightarrow> r)"

section \<open>Sequencing calls that change state\<close>

definition bindR ::
  "('s \<Rightarrow> 'a res \<times> 's) \<Rightarrow> ('a \<Rightarrow> 's \<Rightarrow> 'b res \<times> 's) \<Rightarrow> 's \<Rightarrow> 'b res \<times> 's" where
  "bindR m k s = (case m s of
      (Ok a, s') \<Rightarrow> k a s'
    | (Err e, s') \<Rightarrow> (Err e, s')
    | (Panic p, s') \<Rightarrow> (Panic p, s'))"

definition retR :: "'a \<Rightarrow> 's \<Rightarrow> 'a res \<times> 's" where
  "retR a s = (Ok a, s)"

definition pureR :: "'a res \<Rightarrow> 's \<Rightarrow> 'a res \<times> 's" where
  "pureR r s = (r, s)"

definition wrapR :: "string \<Rightarrow> ('s \<Rightarrow> 'a res \<times> 's) \<Rightarrow> 's \<Rightarrow> 'a res \<times> 's" where
  "wrapR msg m s = (case m s of (r, s') \<Rightarrow> (wrap_res msg r, s'))"

text \<open>A \<open>for ... range\<close> loop whose body may return early with an error.\<close>

primrec forR :: "('x \<Rightarrow> 's \<Rightarrow> unit res \<times> 's) \<Rightarrow> 'x list \<Rightarrow> 's \<Rightarrow> unit res \<times> 's" where
  "forR f [] s = (Ok (), s)"
| "forR f (x # xs) s = bindR (f x) (\<lambda>_. forR f xs) s"

text \<open>
  A loop over objects held by reference whose body changes only the object at hand; it stops at the
  first error, the objects after it being left as they are.
\<close>

primrec eachR :: "('x \<Rightarrow> unit res \<times> 'x) \<Rightarrow> 'x list \<Rightarrow> unit res \<times> 'x list" where
  "eachR f [] = (Ok (), [])"
| "eachR f (x # xs) = (case f x of
      (Ok _, x') \<Rightarrow> (case eachR f xs of (r, xs') \<Rightarrow> (r, x' # xs'))
    | (Err e, x') \<Rightarrow> (Err e, x' # xs)
    | (Panic p, x') \<Rightarrow> (Panic p, x' # xs))"

section \<open>Lemmas\<close>

named_theorems seq_simps \<open>evaluation of the sequencing operators\<close>

lemma slice_bytes_simps [simp]:
  "slice_bytes None = []" "slice_bytes (Some b) = b"
  by (simp_all add: slice_bytes_def)

lemma slice_len_simps [simp]:
  "slice_len None = 0" "slice_len (Some b) = length b"
  by (simp_all add: slice_len_def)

lemma unat_of_char [simp]: "unat (of_char c :: 8 word) = of_char c"
proof -
  have "unat (of_nat (of_char c) :: 8 word) = of_char c"
    by (simp add: unat_of_nat)
  then show ?thesis by (simp only: of_nat_of_char)
qed

lemma of_char_char_of_word [simp]: "of_char (char_of (unat w)) = (w :: 8 word)"
proof -
  have "unat w < 2 ^ LENGTH(8)" by (rule unsigned_less)
  then show ?thesis by (simp only: word_unat_eq_iff unat_of_char of_char_of) simp
qed

lemma string_of_bytes_of [simp]: "string_of (bytes_of s) = s"
  by (simp add: string_of_def bytes_of_def comp_def)

lemma bytes_of_string_of [simp]: "bytes_of (string_of b) = b"
  by (simp add: string_of_def bytes_of_def comp_def)

lemma bytes_of_inject [simp]: "bytes_of s = bytes_of t \<longleftrightarrow> s = t"
  by (metis string_of_bytes_of)

lemma bytes_of_append: "bytes_of (s @ t) = bytes_of s @ bytes_of t"
  by (simp add: bytes_of_def)

lemma length_bytes_of [simp]: "length (bytes_of s) = length s"
  by (simp add: bytes_of_def)

lemma bytes_of_Nil [simp]: "bytes_of s = [] \<longleftrightarrow> s = []" "[] = bytes_of s \<longleftrightarrow> s = []"
  by (auto simp: bytes_of_def)

text \<open>A string is cut at the last occurrence of a separator in only one way.\<close>

lemma split_at_last:
  assumes "c \<notin> set d" "c \<notin> set d'" "t @ c # d = t' @ c # d'"
  shows "t = t' \<and> d = d'"
proof -
  have tw: "takeWhile (\<lambda>x. x \<noteq> c) (rev (t @ c # d)) = rev d" if "c \<notin> set d" for t d
    using that by (simp add: takeWhile_append)
  have "rev d = rev d'"
    using tw [OF assms(1), of t] tw [OF assms(2), of t'] unfolding assms(3) by (rule subst)
  then have "d = d'" by simp
  with assms(3) show ?thesis by simp
qed

lemma bind_res_simps [simp]:
  "bind_res (Ok a) k = k a" "bind_res (Err e) k = Err e" "bind_res (Panic p) k = Panic p"
  by (simp_all add: bind_res_def)

lemma wrap_res_simps [simp]:
  "wrap_res m (Ok a) = Ok a" "wrap_res m (Err e) = Err (EWrap m e)" "wrap_res m (Panic p) = Panic p"
  by (simp_all add: wrap_res_def)

lemma wrap_res_Ok_iff [simp]: "wrap_res m r = Ok a \<longleftrightarrow> r = Ok a"
  by (cases r) simp_all

lemma bind_res_Ok_iff: "bind_res r k = Ok b \<longleftrightarrow> (\<exists>a. r = Ok a \<and> k a = Ok b)"
  by (cases r) auto

lemma is_ok_simps [simp]: "is_ok (Ok a)" "\<not> is_ok (Err e)" "\<not> is_ok (Panic p)"
  by (simp_all add: is_ok_def)

lemma is_ok_iff: "is_ok r \<longleftrightarrow> (\<exists>a. r = Ok a)"
  by (cases r) auto

lemma seq_leaf [seq_simps]: "retR a s = (Ok a, s)" "pureR r s = (r, s)"
  by (simp_all add: retR_def pureR_def)

lemma bindR_Ok [seq_simps]: "m s = (Ok a, s') \<Longrightarrow> bindR m k s = k a s'"
  by (simp add: bindR_def)

lemma bindR_Err [seq_simps]: "m s = (Err e, s') \<Longrightarrow> bindR m k s = (Err e, s')"
  by (simp add: bindR_def)

lemma bindR_Panic [seq_simps]: "m s = (Panic p, s') \<Longrightarrow> bindR m k s = (Panic p, s')"
  by (simp add: bindR_def)

lemma wrapR_eq [seq_simps]: "m s = (r, s') \<Longrightarrow> wrapR msg m s = (wrap_res msg r, s')"
  by (simp add: wrapR_def)

lemma bindR_OkD:
  assumes "bindR m k s = (Ok b, t)"
  obtains a s' where "m s = (Ok a, s')" "k a s' = (Ok b, t)"
  using assms by (auto simp: bindR_def split: prod.splits res.splits)

lemma bindR_state:
  "snd (bindR m k s) = (case m s of (Ok a, s') \<Rightarrow> snd (k a s') | (_, s') \<Rightarrow> s')"
  by (auto simp: bindR_def split: prod.splits res.splits)

lemma bindR_inv: "I (snd (m s)) \<Longrightarrow> (\<And>a s'. I s' \<Longrightarrow> I (snd (k a s'))) \<Longrightarrow> I (snd (bindR m k s))"
  by (auto simp: bindR_def split: prod.splits res.splits)

lemma snd_wrapR [simp]: "snd (wrapR msg m s) = snd (m s)"
  by (simp add: wrapR_def split: prod.splits)

lemma forR_append: "forR f (xs @ ys) s = bindR (forR f xs) (\<lambda>_. forR f ys) s"
  by (induction xs arbitrary: s) (auto simp: bindR_def split: prod.splits res.splits)

text \<open>A loop whose body keeps an invariant and never fails ends normally with the invariant.\<close>

lemma forR_ok:
  assumes "\<And>x s. x \<in> set xs \<Longrightarrow> I s \<Longrightarrow> \<exists>s'. f x s = (Ok (), s') \<and> I s'" and "I s"
  shows "\<exists>s'. forR f xs s = (Ok (), s') \<and> I s'"
  using assms
proof (induction xs arbitrary: s)
  case Nil
  then show ?case by simp
next
  case (Cons x xs)
  from Cons.prems obtain s' where "f x s = (Ok (), s')" "I s'" by (meson list.set_intros(1))
  moreover from Cons.IH [of s'] Cons.prems(1) this(2)
  obtain s'' where "forR f xs s' = (Ok (), s'')" "I s''" by auto
  ultimately show ?case by (simp add: bindR_Ok)
qed

text \<open>A loop whose body keeps an invariant keeps it however it ends.\<close>

lemma forR_inv:
  assumes "\<And>x s. x \<in> set xs \<Longrightarrow> I s \<Longrightarrow> I (snd (f x s))" and "I s"
  shows "I (snd (forR f xs s))"
  using assms
proof (induction xs arbitrary: s)
  case Nil
  then show ?case by simp
next
  case (Cons x xs)
  have "I (snd (f x s))" using Cons.prems by simp
  moreover have "\<And>s'. I s' \<Longrightarrow> I (snd (forR f xs s'))"
    using Cons.IH Cons.prems(1) by simp
  ultimately show ?case
    by (auto simp: bindR_def split: prod.splits res.splits)
qed

lemma eachR_ok:
  assumes "\<And>x. x \<in> set xs \<Longrightarrow> \<exists>x'. f x = (Ok (), x') \<and> P x x'"
  shows "\<exists>xs'. eachR f xs = (Ok (), xs') \<and> list_all2 P xs xs'"
  using assms
proof (induction xs)
  case (Cons x xs)
  from Cons.prems obtain x' where x': "f x = (Ok (), x')" "P x x'" by (meson list.set_intros(1))
  from Cons obtain xs' where "eachR f xs = (Ok (), xs')" "list_all2 P xs xs'" by auto
  with x' show ?case by auto
qed simp

end
