(* ===== verification/Errors.thy ===== *)
theory Errors
  imports Prelude
begin

text \<open>
  \<open>src/pkg/errors/errors.go\<close>: constructors of error values and the walk along an error
  chain. \<open>UnWrapRecursivelyUntil\<close> is how the task and the commit buffer decide whether a
  failure came from the Kafka producer.
\<close>

definition err_New :: "string \<Rightarrow> gerror" where
  "err_New msg = EPlain msg"

definition err_NewWithFrameSkip :: "string \<Rightarrow> gerror" where
  "err_NewWithFrameSkip msg = EPlain msg"

definition err_Errorf :: "string \<Rightarrow> gerror" where
  "err_Errorf msg = EPlain msg"

definition err_Wrap :: "gerror \<Rightarrow> string \<Rightarrow> gerror" where
  "err_Wrap e msg = EWrap msg e"

definition err_Wrapf :: "gerror \<Rightarrow> string \<Rightarrow> gerror" where
  "err_Wrapf e msg = EWrap msg e"

definition err_WrapWithFrameSkip :: "gerror \<Rightarrow> string \<Rightarrow> gerror" where
  "err_WrapWithFrameSkip e msg = EWrap msg e"

text \<open>
  \<open>errors.Unwrap\<close>: only a value built with \<open>%w\<close> has a cause. \<open>encoding.Err\<close> and
  the adaptors' producer errors have no \<open>Unwrap\<close> method.
\<close>

fun go_unwrap :: "gerror \<Rightarrow> gerror option" where
  "go_unwrap (EWrap _ e) = Some e"
| "go_unwrap _ = None"

lemma go_unwrap_size [termination_simp]: "go_unwrap e = Some e' \<Longrightarrow> size e' < size e"
  by (cases e) auto

text \<open>
  A nil error is \<open>None\<close>; the asserter is called with nil when the chain is exhausted, as in the
  source.
\<close>

function unwrap_until :: "gerror option \<Rightarrow> (gerror option \<Rightarrow> bool) \<Rightarrow> gerror option" where
  "unwrap_until None asserter = None"
| "unwrap_until (Some e) asserter =
     (if asserter (Some e) then Some e
      else if asserter (go_unwrap e) then go_unwrap e
      else unwrap_until (go_unwrap e) asserter)"
  by pat_completeness auto
termination
proof (relation "measure (\<lambda>(e, _). case e of None \<Rightarrow> 0 | Some x \<Rightarrow> Suc (size x))", goal_cases)
  case 1
  show ?case by simp
next
  case (2 e asserter)
  show ?case by (auto split: option.splits dest: go_unwrap_size)
qed

text \<open>\<open>errors.Is\<close>: the target occurs in the chain.\<close>

fun err_Is :: "gerror \<Rightarrow> gerror \<Rightarrow> bool" where
  "err_Is (EWrap m e) target = (EWrap m e = target \<or> err_Is e target)"
| "err_Is e target = (e = target)"

text \<open>The type assertion \<open>_, ok := err.(kafka.ProducerErr)\<close>.\<close>

fun is_producer_err :: "gerror option \<Rightarrow> bool" where
  "is_producer_err (Some (EProducer _ _ _)) = True"
| "is_producer_err _ = False"

section \<open>Lemmas\<close>

text \<open>The chain of an error: the error itself and its causes.\<close>

fun chain :: "gerror \<Rightarrow> gerror list" where
  "chain (EWrap m e) = EWrap m e # chain e"
| "chain e = [e]"

lemma chain_unwrap: "chain e = e # (case go_unwrap e of None \<Rightarrow> [] | Some e' \<Rightarrow> chain e')"
  by (cases e) auto

lemma err_Is_chain: "err_Is e t \<longleftrightarrow> t \<in> set (chain e)"
  by (induction e t rule: err_Is.induct) auto

lemma unwrap_until_find_gen:
  "\<not> p None \<Longrightarrow>
   unwrap_until oe p =
     (case oe of None \<Rightarrow> None | Some e \<Rightarrow> find (\<lambda>x. p (Some x)) (chain e))"
proof (induction oe p rule: unwrap_until.induct)
  case (1 p)
  then show ?case by simp
next
  case (2 e p)
  show ?case
  proof (cases "go_unwrap e")
    case None
    with "2.prems" show ?thesis by (simp add: chain_unwrap [of e])
  next
    case (Some e')
    with "2" show ?thesis
      by (simp add: chain_unwrap [of e] chain_unwrap [of e'])
  qed
qed

lemmas unwrap_until_find = unwrap_until_find_gen [where oe = "Some e" for e, simplified]

abbreviation producer_err_of :: "gerror \<Rightarrow> gerror option" where
  "producer_err_of e \<equiv> unwrap_until (Some e) is_producer_err"

lemma producer_err_of_None:
  "producer_err_of e = None \<longleftrightarrow> (\<forall>x \<in> set (chain e). \<not> is_producer_err (Some x))"
  by (auto simp: unwrap_until_find find_None_iff)

lemma producer_err_of_Some:
  assumes "producer_err_of e = Some pe"
  obtains r a m where "pe = EProducer r a m"
proof -
  from assms have "is_producer_err (Some pe)"
    by (auto simp: unwrap_until_find find_Some_iff)
  with that show ?thesis by (cases pe) auto
qed

text \<open>walking the error chain. \<open>UnWrapRecursivelyUntil\<close> returns exactly the first error of
  the chain of causes that the asserter accepts, and nil when none does; the walk always ends.
  Since \<open>encoding.Err\<close> has no \<open>Unwrap\<close>, a producer error below one is never found.\<close>

theorem unwrap_until_first:
  assumes "\<not> p None"
  shows "unwrap_until (Some e) p = find (\<lambda>x. p (Some x)) (chain e) \<and>
    producer_err_of (EWrap m (EEncoding e)) = None"
  using assms by (simp add: unwrap_until_find find_None_iff)

theorem unwrap_until_first_witness:
  "unwrap_until (Some (EWrap ''a'' (EWrap ''b'' (EProducer True False ''c'')))) is_producer_err
     = Some (EProducer True False ''c'')"
proof -
  have "\<not> is_producer_err None" by simp
  then have "unwrap_until (Some (EWrap ''a'' (EWrap ''b'' (EProducer True False ''c''))))
      is_producer_err = find (\<lambda>x. is_producer_err (Some x))
        (chain (EWrap ''a'' (EWrap ''b'' (EProducer True False ''c''))))"
    using unwrap_until_first [of is_producer_err] by blast
  then show ?thesis by simp
qed

end
