(* ===== verification/Encoding.thy ===== *)
theory Encoding
  imports Prelude
begin

text \<open>
  \<open>src/streams/encoding\<close>: the \<open>Encoder\<close> interface and its string, int, byte and no-op
  implementations. A dynamically typed Go value (\<open>interface{}\<close>) is a \<open>goval\<close>: nil, a string, a
  byte slice, an \<open>int\<close> (64 bits), or a value of some other type, which the model only numbers.
  The float encoder is not modelled: it rests on the decimal printing of floating-point numbers.
\<close>

section \<open>Dynamic values\<close>

datatype goval =
    GNil
  | GStr string
  | GBytes slice
  | GInt "64 word"
  | GObj nat

text \<open>The \<open>encoding.Encoder\<close> interface.\<close>

record encoder =
  enc_encode :: "goval \<Rightarrow> slice res"
  enc_decode :: "slice \<Rightarrow> goval res"

section \<open>Decimal integers\<close>

text \<open>\<open>fmt.Sprint\<close> of an \<open>int\<close>.\<close>

fun nat_digits :: "nat \<Rightarrow> string" where
  "nat_digits n =
     (if n < 10 then [char_of (48 + n)] else nat_digits (n div 10) @ [char_of (48 + n mod 10)])"

declare nat_digits.simps [simp del]

definition show_int :: "int \<Rightarrow> string" where
  "show_int i = (if i < 0 then CHR ''-'' # nat_digits (nat (- i)) else nat_digits (nat i))"

definition sprint_int :: "64 word \<Rightarrow> string" where
  "sprint_int w = show_int (sint w)"

text \<open>
  \<open>strconv.Atoi\<close>: an optional sign, at least one digit, digits only, and a result that fits an
  \<open>int\<close>.
\<close>

definition digit_val :: "char \<Rightarrow> nat option" where
  "digit_val c = (let n = of_char c in if 48 \<le> n \<and> n \<le> 57 then Some (n - 48) else None)"

fun parse_digits :: "string \<Rightarrow> nat \<Rightarrow> nat option" where
  "parse_digits [] acc = Some acc"
| "parse_digits (c # cs) acc =
     (case digit_val c of None \<Rightarrow> None | Some d \<Rightarrow> parse_digits cs (10 * acc + d))"

definition parse_nat :: "string \<Rightarrow> nat option" where
  "parse_nat s = (if s = [] then None else parse_digits s 0)"

definition atoi :: "string \<Rightarrow> 64 word res" where
  "atoi s =
     (let neg = (s \<noteq> [] \<and> hd s = CHR ''-'');
          body = (if s \<noteq> [] \<and> (hd s = CHR ''-'' \<or> hd s = CHR ''+'') then tl s else s)
      in case parse_nat body of
           None \<Rightarrow> Err (EPlain ''invalid syntax'')
         | Some n \<Rightarrow>
             (let i = (if neg then - int n else int n)
              in if - (2 ^ 63) \<le> i \<and> i < 2 ^ 63 then Ok (word_of_int i)
                 else Err (EPlain ''value out of range'')))"

section \<open>The encoders\<close>

definition string_Encode :: "goval \<Rightarrow> slice res" where
  "string_Encode v =
     (case v of GStr s \<Rightarrow> Ok (Some (bytes_of s))
      | _ \<Rightarrow> Err (EPlain ''data is not a string''))"

definition string_Decode :: "slice \<Rightarrow> goval res" where
  "string_Decode data = Ok (GStr (string_of (slice_bytes data)))"

definition StringEncoder :: encoder where
  "StringEncoder = \<lparr>enc_encode = string_Encode, enc_decode = string_Decode\<rparr>"

definition int_Encode :: "goval \<Rightarrow> slice res" where
  "int_Encode v =
     (case v of GInt i \<Rightarrow> Ok (Some (bytes_of (sprint_int i)))
      | _ \<Rightarrow> Err (EPlain ''incorrect type expected (int)''))"

definition int_Decode :: "slice \<Rightarrow> goval res" where
  "int_Decode data =
     (case atoi (string_of (slice_bytes data)) of
        Ok i \<Rightarrow> Ok (GInt i)
      | Err e \<Rightarrow> Err (EWrap ''invalid integer'' e)
      | Panic p \<Rightarrow> Panic p)"

definition IntEncoder :: encoder where
  "IntEncoder = \<lparr>enc_encode = int_Encode, enc_decode = int_Decode\<rparr>"

text \<open>\<open>ByteEncoder\<close> asserts \<open>v.([]byte)\<close> without checking, so any other value panics.\<close>

definition byte_Encode :: "goval \<Rightarrow> slice res" where
  "byte_Encode v =
     (case v of GBytes b \<Rightarrow> Ok b | _ \<Rightarrow> Panic ''interface conversion: not []uint8'')"

definition byte_Decode :: "slice \<Rightarrow> goval res" where
  "byte_Decode data = Ok (GBytes data)"

definition ByteEncoder :: encoder where
  "ByteEncoder = \<lparr>enc_encode = byte_Encode, enc_decode = byte_Decode\<rparr>"

definition noop_Encode :: "goval \<Rightarrow> slice res" where
  "noop_Encode v = Ok None"

definition noop_Decode :: "slice \<Rightarrow> goval res" where
  "noop_Decode data = Ok GNil"

definition NoopEncoder :: encoder where
  "NoopEncoder = \<lparr>enc_encode = noop_Encode, enc_decode = noop_Decode\<rparr>"

section \<open>Lemmas on decimal integers\<close>

lemma nat_digits_neq_Nil [simp]: "nat_digits n \<noteq> []"
  by (subst nat_digits.simps) simp

lemma digit_val_digit: "d < 10 \<Longrightarrow> digit_val (char_of (48 + d)) = Some d"
  by (simp add: digit_val_def)

lemma parse_digits_snoc:
  "parse_digits (s @ [c]) acc =
     (case parse_digits s acc of None \<Rightarrow> None
      | Some n \<Rightarrow> (case digit_val c of None \<Rightarrow> None | Some d \<Rightarrow> Some (10 * n + d)))"
  by (induction s acc rule: parse_digits.induct) (auto split: option.splits)

lemma parse_nat_digits: "parse_digits (nat_digits n) 0 = Some n"
proof (induction n rule: nat_digits.induct)
  case (1 n)
  show ?case
  proof (cases "n < 10")
    case True
    then show ?thesis by (subst nat_digits.simps) (simp add: digit_val_digit)
  next
    case False
    with 1 show ?thesis
      by (subst nat_digits.simps) (simp add: parse_digits_snoc digit_val_digit)
  qed
qed

lemma hd_nat_digits: "digit_val (hd (nat_digits n)) \<noteq> None"
proof -
  obtain c cs where c: "nat_digits n = c # cs" by (meson list.exhaust nat_digits_neq_Nil)
  have "parse_digits (c # cs) 0 = Some n" by (simp add: parse_nat_digits flip: c)
  then show ?thesis by (auto simp: c split: option.splits)
qed

lemma hd_nat_digits_sign: "hd (nat_digits n) \<noteq> CHR ''-''" "hd (nat_digits n) \<noteq> CHR ''+''"
  using hd_nat_digits [of n] by (auto simp: digit_val_def)

lemma nat_digits_inject [simp]: "nat_digits m = nat_digits n \<longleftrightarrow> m = n"
  by (metis parse_nat_digits option.inject)

lemma set_nat_digits: "c \<in> set (nat_digits n) \<Longrightarrow> 48 \<le> (of_char c :: nat) \<and> of_char c \<le> (57 :: nat)"
proof (induction n rule: nat_digits.induct)
  case (1 n)
  show ?case
  proof (cases "n < 10")
    case True
    then show ?thesis using "1.prems" by (subst (asm) nat_digits.simps) auto
  next
    case False
    have "n mod 10 < 10" by simp
    with False show ?thesis using 1 by (subst (asm) nat_digits.simps) auto
  qed
qed

lemma show_int_neq_Nil [simp]: "show_int i \<noteq> []"
  by (simp add: show_int_def)

lemma atoi_show_int:
  assumes "- (2 ^ 63) \<le> i" and "i < 2 ^ 63"
  shows "atoi (show_int i) = Ok (word_of_int i)"
  using assms
  by (auto simp: atoi_def show_int_def parse_nat_def parse_nat_digits hd_nat_digits_sign Let_def)

lemma atoi_sprint_int: "atoi (sprint_int w) = Ok w"
proof -
  have "- (2 ^ 63) \<le> sint w" "sint w < 2 ^ 63"
    using sint_greater_eq [of w] sint_less [of w] by simp_all
  then show ?thesis by (simp add: sprint_int_def atoi_show_int)
qed

lemma sprint_int_neq_Nil [simp]: "sprint_int w \<noteq> []"
  by (simp add: sprint_int_def)

section \<open>The encoder contract\<close>

definition code_of :: "encoder \<Rightarrow> goval \<Rightarrow> bytes" where
  "code_of enc v = (case enc_encode enc v of Ok s \<Rightarrow> slice_bytes s | _ \<Rightarrow> [])"

text \<open>
  What a store relies on: the values of a domain encode without error to a non-empty slice, and
  decoding gives the value back.
\<close>

locale codec =
  fixes enc :: encoder and dom_v :: "goval \<Rightarrow> bool"
  assumes encode_ok: "dom_v v \<Longrightarrow> \<exists>b. enc_encode enc v = Ok (Some b) \<and> b \<noteq> []"
    and decode_encode: "dom_v v \<Longrightarrow> enc_encode enc v = Ok s \<Longrightarrow> enc_decode enc s = Ok v"
begin

lemma encode_code: "dom_v v \<Longrightarrow> enc_encode enc v = Ok (Some (code_of enc v))"
  using encode_ok by (fastforce simp: code_of_def)

lemma code_neq_Nil: "dom_v v \<Longrightarrow> code_of enc v \<noteq> []"
  using encode_ok by (fastforce simp: code_of_def)

lemma decode_code: "dom_v v \<Longrightarrow> enc_decode enc (Some (code_of enc v)) = Ok v"
  using decode_encode encode_code by blast

lemma code_inject: "dom_v v \<Longrightarrow> dom_v w \<Longrightarrow> code_of enc v = code_of enc w \<longleftrightarrow> v = w"
  by (metis decode_code res.inject(1))

end

definition is_nonempty_str :: "goval \<Rightarrow> bool" where
  "is_nonempty_str v = (case v of GStr s \<Rightarrow> s \<noteq> [] | _ \<Rightarrow> False)"

definition is_int :: "goval \<Rightarrow> bool" where
  "is_int v = (case v of GInt _ \<Rightarrow> True | _ \<Rightarrow> False)"

definition is_nonempty_bytes :: "goval \<Rightarrow> bool" where
  "is_nonempty_bytes v = (case v of GBytes (Some b) \<Rightarrow> b \<noteq> [] | _ \<Rightarrow> False)"

interpretation strc: codec StringEncoder is_nonempty_str
  by unfold_locales
    (auto simp: StringEncoder_def string_Encode_def string_Decode_def is_nonempty_str_def
      split: goval.splits)

interpretation intc: codec IntEncoder is_int
  by unfold_locales
    (auto simp: IntEncoder_def int_Encode_def int_Decode_def is_int_def atoi_sprint_int
      split: goval.splits)

interpretation bytec: codec ByteEncoder is_nonempty_bytes
  by unfold_locales
    (auto simp: ByteEncoder_def byte_Encode_def byte_Decode_def is_nonempty_bytes_def
      split: goval.splits option.splits)

text \<open>the int encoder round-trips every 64-bit value. What \<open>fmt.Sprint\<close> prints for an
  \<open>int\<close>, \<open>strconv.Atoi\<close> reads back as the same \<open>int\<close>, the smallest negative one
  included, and distinct ints have distinct, non-empty encodings.\<close>

theorem int_encoder_roundtrip:
  "(\<exists>b. enc_encode IntEncoder (GInt i) = Ok (Some b) \<and> b \<noteq> [] \<and>
        enc_decode IntEncoder (Some b) = Ok (GInt i)) \<and>
   (enc_encode IntEncoder (GInt i) = enc_encode IntEncoder (GInt j)) = (i = j)"
proof -
  have d: "is_int (GInt i)" "is_int (GInt j)" by (simp_all add: is_int_def)
  show ?thesis
    using intc.encode_code [OF d(1)] intc.encode_code [OF d(2)] intc.code_neq_Nil [OF d(1)]
      intc.decode_code [OF d(1)] intc.code_inject [OF d] by auto
qed

end
