(* ===== verification/Kafka.thy ===== *)
theory Kafka
  imports Errors Encoding
begin

text \<open>
  \<open>src/kafka\<close>: the data types of the Kafka abstraction (topic partitions, offsets, records, headers,
  consumer events, topics) and its producer interface. Adaptors to a Kafka client implement the
  interface; the model takes its operations as the record \<open>producer_ops\<close>, over a producer state \<open>'p\<close>.
\<close>

section \<open>Topic partitions and offsets\<close>

type_synonym int32 = "32 word"
type_synonym int64 = "64 word"

record topic_partition =
  tp_Topic :: string
  tp_Partition :: int32

definition tp_String :: "topic_partition \<Rightarrow> string" where
  "tp_String tp = tp_Topic tp @ ''-'' @ show_int (sint (tp_Partition tp))"

definition OffsetEarliest :: int64 where "OffsetEarliest = - 2"

definition OffsetLatest :: int64 where "OffsetLatest = - 1"

definition OffsetStored :: int64 where "OffsetStored = - 3"

definition OffsetUnknown :: int64 where "OffsetUnknown = - 4"

definition offset_String :: "int64 \<Rightarrow> string" where
  "offset_String o' =
     (if o' = - 4 then ''Unknown'' else if o' = - 3 then ''Stored'' else if o' = - 2 then ''Earliest''
      else if o' = - 1 then ''Latest'' else show_int (sint o'))"

record consumer_offset =
  co_Topic :: string
  co_Partition :: int32
  co_Offset :: int64
  co_Meta :: string

definition co_String :: "consumer_offset \<Rightarrow> string" where
  "co_String off = co_Topic off @ ''@'' @ show_int (sint (co_Partition off)) @ show_int (sint (co_Offset off))"

section \<open>Records and events\<close>

record record_header =
  rh_Key :: slice
  rh_Value :: slice

text \<open>\<open>RecordHeaders.Read\<close>; \<open>bytes.Equal\<close> takes nil and empty as equal.\<close>

fun headers_Read :: "slice \<Rightarrow> record_header list \<Rightarrow> slice" where
  "headers_Read key [] = None"
| "headers_Read key (h # hs) =
     (if slice_bytes (rh_Key h) = slice_bytes key then rh_Value h else headers_Read key hs)"

record krecord =
  kr_Key :: slice
  kr_Value :: slice
  kr_Topic :: string
  kr_Partition :: int32
  kr_Offset :: int64
  kr_Timestamp :: int
  kr_Headers :: "record_header list"

datatype kevent =
    ERecord krecord
  | EPartitionEnd "topic_partition list"
  | EError gerror

section \<open>Topics\<close>

record ktopic =
  kt_Name :: string
  kt_NumPartitions :: int32
  kt_ReplicationFactor :: int
  kt_ConfigEntries :: "string \<rightharpoonup> string"

record topic_config =
  tc_NumPartitions :: int32
  tc_ReplicationFactor :: int
  tc_ConfigEntries :: "string \<rightharpoonup> string"
  tc_Internal :: bool
  tc_AutoCreate :: bool

definition PartitionAny :: int32 where "PartitionAny = - 1"

section \<open>Required acknowledgements\<close>

definition acks_String :: "int \<Rightarrow> string" where
  "acks_String ack =
     (let a = ''NoResponse'';
          a = (if ack = 1 then ''WaitForLeader'' else a);
          a = (if ack = - 1 then ''WaitForAll'' else a)
      in a)"

section \<open>The producer interface\<close>

text \<open>\<open>pr_transactional\<close>: the result of the type assertion \<open>producer.(kafka.TransactionalProducer)\<close>.\<close>

record ('p, 'm) producer_ops =
  pr_transactional :: bool
  pr_NewRecord :: "slice \<Rightarrow> slice \<Rightarrow> string \<Rightarrow> int32 \<Rightarrow> int \<Rightarrow> record_header list \<Rightarrow> string \<Rightarrow> krecord"
  pr_ProduceSync :: "krecord \<Rightarrow> 'p \<Rightarrow> (int32 \<times> int64) res \<times> 'p"
  pr_ProduceAsync :: "krecord \<Rightarrow> 'p \<Rightarrow> unit res \<times> 'p"
  pr_InitTransactions :: "'p \<Rightarrow> unit res \<times> 'p"
  pr_BeginTransaction :: "'p \<Rightarrow> unit res \<times> 'p"
  pr_SendOffsets :: "consumer_offset list \<Rightarrow> 'm \<Rightarrow> 'p \<Rightarrow> unit res \<times> 'p"
  pr_CommitTransaction :: "'p \<Rightarrow> unit res \<times> 'p"
  pr_AbortTransaction :: "'p \<Rightarrow> unit res \<times> 'p"
  pr_Restart :: "'p \<Rightarrow> unit res \<times> 'p"
  pr_Close :: "'p \<Rightarrow> unit res \<times> 'p"

section \<open>The string form of a topic partition\<close>

lemma dash_notin_digits: "CHR ''-'' \<notin> set (nat_digits n)"
  using set_nat_digits [of "CHR ''-''" n] by auto

lemma tp_String_eq:
  assumes "0 \<le> sint (tp_Partition a)" "0 \<le> sint (tp_Partition b)"
  shows "tp_String a = tp_String b \<longleftrightarrow> a = (b :: topic_partition)"
proof
  assume e: "tp_String a = tp_String b"
  have d: "CHR ''-'' \<notin> set (show_int (sint (tp_Partition c)))" if "0 \<le> sint (tp_Partition c)" for c
    using that dash_notin_digits by (simp add: show_int_def)
  from split_at_last [OF d [OF assms(1)] d [OF assms(2)], of "tp_Topic a" "tp_Topic b"] e
  have "tp_Topic a = tp_Topic b" "show_int (sint (tp_Partition a)) = show_int (sint (tp_Partition b))"
    by (simp_all add: tp_String_def)
  moreover from this(2) have "sint (tp_Partition a) = sint (tp_Partition b)"
    using assms by (simp add: show_int_def)
  then have "tp_Partition a = tp_Partition b" by (rule signed_word_eqI)
  ultimately show "a = b" by simp
qed simp

text \<open>The string of a topic partition, which keys the offsets of the commit buffer and of the
  changelog, identifies it as long as partitions are not negative, which Kafka partitions are not; with a
  negative partition two different topic partitions can have the same string.\<close>
theorem tp_String_inject:
  assumes "0 \<le> sint (tp_Partition a)" "0 \<le> sint (tp_Partition b)"
  shows "(tp_String a = tp_String b \<longleftrightarrow> a = (b :: topic_partition)) \<and>
    tp_String \<lparr>tp_Topic = ''t-'', tp_Partition = 1\<rparr> = tp_String \<lparr>tp_Topic = ''t'', tp_Partition = - 1\<rparr>"
  using tp_String_eq [OF assms] by (simp add: tp_String_def show_int_def)

theorem tp_String_inject_witness:
  "tp_String \<lparr>tp_Topic = ''a'', tp_Partition = 1\<rparr> \<noteq> tp_String \<lparr>tp_Topic = ''a'', tp_Partition = 2\<rparr>"
  using tp_String_inject [of "\<lparr>tp_Topic = ''a'', tp_Partition = 1\<rparr>" "\<lparr>tp_Topic = ''a'', tp_Partition = 2\<rparr>"]
  by simp

end
