(* ===== verification/Buffer.thy ===== *)
theory Buffer
  imports Kafka "HOL-Library.AList"
begin

text \<open>
  \<open>src/streams/tasks/buffer.go\<close> and \<open>record.go\<close>: the commit buffer of a task. It collects the records
  processed since the last commit and the offsets to commit for them, and ends the producer transaction they were
  processed in. What surrounds it (the producer, the consumer session, the state stores of the sub topology) is reached
  through the record \<open>task_env\<close>; \<open>'w\<close> is the state of that surrounding, \<open>'m\<close> the consumer group metadata.
  The offset map is an association list in place of a Go map, in any order. Locks, logs and metrics are left out.
\<close>

section \<open>State\<close>

record trecord =
  tr_Record :: krecord
  tr_ignore :: bool

definition NewTaskRecord :: "krecord \<Rightarrow> trecord" where
  "NewTaskRecord r = \<lparr>tr_Record = r, tr_ignore = False\<rparr>"

record commit_buffer =
  cb_records :: "trecord list"
  cb_offsetMap :: "(string \<times> consumer_offset) list"
  cb_closing :: bool

record ('w, 'm) task_env =
  te_producer :: "('w, 'm) producer_ops"
  te_groupMeta :: "'w \<Rightarrow> 'm res"
  te_stores :: "string list"
  te_flushStore :: "string \<Rightarrow> 'w \<Rightarrow> unit res \<times> 'w"
  te_resetStore :: "string \<Rightarrow> 'w \<Rightarrow> 'w"
  te_run :: "krecord \<Rightarrow> 'w \<Rightarrow> unit res \<times> 'w"
  te_onProcess :: "((krecord \<Rightarrow> 'w \<Rightarrow> unit res \<times> 'w) \<Rightarrow> krecord \<Rightarrow> 'w \<Rightarrow> unit res \<times> 'w) option"

text \<open>\<open>newCommitBuffer\<close>: the producer is asserted to be transactional.\<close>

definition newCommitBuffer :: "('w, 'm) task_env \<Rightarrow> commit_buffer res" where
  "newCommitBuffer env =
     (if pr_transactional (te_producer env) then
        Ok \<lparr>cb_records = [], cb_offsetMap = [], cb_closing = False\<rparr>
      else Panic ''interface conversion: not a TransactionalProducer'')"

type_synonym 'w buf_state = "commit_buffer \<times> 'w"

section \<open>Transaction errors\<close>

text \<open>
  \<open>handleTxError\<close> retries until the producer can start a transaction again; nothing bounds the number of
  attempts, so it may not return (\<open>None\<close>). A cause that is not a producer error makes the type assertion on the nil
  result of the search panic.
\<close>

partial_function (option) handleTxError ::
  "('w, 'm) producer_ops \<Rightarrow> bool \<Rightarrow> gerror \<Rightarrow> 'w \<Rightarrow> (unit res \<times> 'w) option" where
  "handleTxError pr closing err w =
     (if closing then Some (Ok (), w)
      else (case producer_err_of err of
          Some (EProducer restart abort m) \<Rightarrow>
            Option.bind
              (if abort then
                 (case pr_AbortTransaction pr w of
                    (Err e, w1) \<Rightarrow> handleTxError pr closing e w1
                  | (Ok u, w1) \<Rightarrow> Some (Ok u, w1)
                  | (Panic p, w1) \<Rightarrow> Some (Panic p, w1))
               else Some (Ok (), w))
              (\<lambda>(r1, w1). case r1 of
                 Ok _ \<Rightarrow>
                   (case (if restart then pr_Restart pr w1 else (Ok (), w1)) of
                      (Ok _, w2) \<Rightarrow>
                        (case pr_InitTransactions pr w2 of
                           (Err e, w3) \<Rightarrow> handleTxError pr closing e w3
                         | (Ok u, w3) \<Rightarrow> Some (Ok u, w3)
                         | (Panic p, w3) \<Rightarrow> Some (Panic p, w3))
                    | (Err e, w2) \<Rightarrow> Some (Panic ''restart failed'', w2)
                    | (Panic p, w2) \<Rightarrow> Some (Panic p, w2))
               | _ \<Rightarrow> Some (r1, w1))
        | _ \<Rightarrow> Some (Panic ''interface conversion: nil is not kafka.ProducerErr'', w)))"

section \<open>Operations\<close>

definition buf_Init :: "('w, 'm) task_env \<Rightarrow> 'w buf_state \<Rightarrow> (unit res \<times> 'w buf_state) option" where
  "buf_Init env s = (case s of (b, w) \<Rightarrow>
     (case pr_InitTransactions (te_producer env) w of
        (Err e, w1) \<Rightarrow>
          map_option (\<lambda>(r, w2). (r, b, w2)) (handleTxError (te_producer env) (cb_closing b) e w1)
      | (Ok _, w1) \<Rightarrow> Some (Ok (), b, w1)
      | (Panic p, w1) \<Rightarrow> Some (Panic p, b, w1)))"

text \<open>The key under which the offset of a record is kept, \<open>fmt.Sprintf("%s-%d", topic, partition)\<close>.\<close>

definition offset_key :: "krecord \<Rightarrow> string" where
  "offset_key r = kr_Topic r @ ''-'' @ show_int (sint (kr_Partition r))"

definition record_offset :: "krecord \<Rightarrow> consumer_offset" where
  "record_offset r = \<lparr>co_Topic = kr_Topic r, co_Partition = kr_Partition r, co_Offset = kr_Offset r + 1, co_Meta = []\<rparr>"

definition buf_Add :: "trecord \<Rightarrow> commit_buffer \<Rightarrow> unit res \<times> commit_buffer" where
  "buf_Add r b =
     (Ok (), b\<lparr>cb_records := cb_records b @ [r],
        cb_offsetMap := AList.update (offset_key (tr_Record r)) (record_offset (tr_Record r)) (cb_offsetMap b)\<rparr>)"

text \<open>After the commit every store is flushed and its cache reset, one after the other.\<close>

definition flush_store :: "('w, 'm) task_env \<Rightarrow> string \<Rightarrow> 'w \<Rightarrow> unit res \<times> 'w" where
  "flush_store env name =
     bindR (wrapR ''state stores flush failed'' (te_flushStore env name))
       (\<lambda>_ w. (Ok (), te_resetStore env name w))"

definition buf_commit :: "('w, 'm) task_env \<Rightarrow> 'w buf_state \<Rightarrow> unit res \<times> 'w buf_state" where
  "buf_commit env s = (case s of (b, w) \<Rightarrow>
     (let pr = te_producer env;
          offsets = map snd (cb_offsetMap b);
          finish = bindR (wrapR ''commit(CommitTransaction) failed'' (pr_CommitTransaction pr))
            (\<lambda>_. forR (flush_store env) (te_stores env));
          done = (\<lambda>(r, w'). case r of
              Ok _ \<Rightarrow> (Ok (), b\<lparr>cb_offsetMap := [], cb_records := []\<rparr>, w')
            | Err e \<Rightarrow> (Err e, b, w')
            | Panic p \<Rightarrow> (Panic p, b, w'))
      in if cb_offsetMap b \<noteq> [] then
           (case te_groupMeta env w of
              Err e \<Rightarrow>
                (case pr_AbortTransaction pr w of
                   (Err ab, w1) \<Rightarrow> (Err ab, b, w1)
                 | (Ok _, w1) \<Rightarrow> (Err e, b, w1)
                 | (Panic p, w1) \<Rightarrow> (Panic p, b, w1))
            | Panic p \<Rightarrow> (Panic p, b, w)
            | Ok meta \<Rightarrow>
                done (bindR (wrapR ''commit(SendOffsetsToTransaction) failed'' (pr_SendOffsets pr offsets meta))
                  (\<lambda>_. finish) w))
         else done (finish w)))"

definition buf_Flush :: "('w, 'm) task_env \<Rightarrow> 'w buf_state \<Rightarrow> unit res \<times> 'w buf_state" where
  "buf_Flush env s = (if length (cb_records (fst s)) < 1 then (Ok (), s) else buf_commit env s)"

definition reset_caches :: "('w, 'm) task_env \<Rightarrow> 'w \<Rightarrow> 'w" where
  "reset_caches env w = fold (te_resetStore env) (te_stores env) w"

definition buf_Reset :: "('w, 'm) task_env \<Rightarrow> 'w buf_state \<Rightarrow> (unit res \<times> 'w buf_state) option" where
  "buf_Reset env s = (case s of (b, w) \<Rightarrow>
     (let b' = b\<lparr>cb_offsetMap := [], cb_records := []\<rparr>
      in case pr_AbortTransaction (te_producer env) (reset_caches env w) of
           (Ok _, w1) \<Rightarrow> Some (Ok (), b', w1)
         | (Panic p, w1) \<Rightarrow> Some (Panic p, b, w1)
         | (Err e, w1) \<Rightarrow>
             map_option (\<lambda>(r, w2). case r of Ok _ \<Rightarrow> (Ok (), b', w2) | _ \<Rightarrow> (r, b, w2))
               (handleTxError (te_producer env) (cb_closing b) e w1)))"

definition buf_Close :: "('w, 'm) task_env \<Rightarrow> 'w buf_state \<Rightarrow> unit res \<times> 'w buf_state" where
  "buf_Close env s = buf_Flush env s"

definition buf_MarkAsCosing :: "commit_buffer \<Rightarrow> commit_buffer" where
  "buf_MarkAsCosing b = b\<lparr>cb_closing := True\<rparr>"

section \<open>The offsets of a buffer\<close>

text \<open>A buffer that was filled by \<open>Add\<close> only.\<close>

definition buf_add_all :: "trecord list \<Rightarrow> commit_buffer \<Rightarrow> commit_buffer" where
  "buf_add_all rs b = fold (\<lambda>r b. snd (buf_Add r b)) rs b"

definition offsets_of :: "trecord list \<Rightarrow> string \<Rightarrow> consumer_offset option" where
  "offsets_of rs = map_of (map (\<lambda>r. (offset_key (tr_Record r), record_offset (tr_Record r))) (rev rs))"

definition buf_inv :: "commit_buffer \<Rightarrow> bool" where
  "buf_inv b \<longleftrightarrow> distinct (map fst (cb_offsetMap b)) \<and> map_of (cb_offsetMap b) = offsets_of (cb_records b)"

lemma buf_inv_empty: "buf_inv \<lparr>cb_records = [], cb_offsetMap = [], cb_closing = c\<rparr>"
  "buf_inv (b\<lparr>cb_offsetMap := [], cb_records := []\<rparr>)"
  by (simp_all add: buf_inv_def offsets_of_def)

lemma buf_inv_Add: "buf_inv b \<Longrightarrow> buf_inv (snd (buf_Add r b))"
  by (simp add: buf_inv_def buf_Add_def offsets_of_def distinct_update update_conv')

lemma offset_key_tp: "offset_key r = tp_String \<lparr>tp_Topic = kr_Topic r, tp_Partition = kr_Partition r\<rparr>"
  by (simp add: offset_key_def tp_String_def)

lemma offset_key_eq:
  assumes "0 \<le> sint (kr_Partition r)" "0 \<le> sint (kr_Partition q)"
  shows "offset_key r = offset_key q \<longleftrightarrow> kr_Topic r = kr_Topic q \<and> kr_Partition r = kr_Partition q"
  using assms by (simp add: offset_key_tp tp_String_eq)

lemma offsets_of_snoc:
  "offsets_of (rs @ [r]) k = (if k = offset_key (tr_Record r) then Some (record_offset (tr_Record r)) else offsets_of rs k)"
  by (simp add: offsets_of_def)

lemma offsets_of_last:
  assumes "\<forall>q \<in> set ys. offset_key (tr_Record q) \<noteq> offset_key (tr_Record r)"
  shows "offsets_of (xs @ r # ys) (offset_key (tr_Record r)) = Some (record_offset (tr_Record r))"
  using assms
proof (induction ys rule: rev_induct)
  case (snoc y ys)
  then have "offset_key (tr_Record r) \<noteq> offset_key (tr_Record y)" by auto
  with snoc show ?case using offsets_of_snoc [of "xs @ r # ys" y] by simp
qed (simp add: offsets_of_snoc)

lemma buf_inv_offsets:
  assumes "buf_inv b"
  shows "set (map snd (cb_offsetMap b)) = {off. \<exists>k. offsets_of (cb_records b) k = Some off}"
proof -
  have d: "distinct (map fst (cb_offsetMap b))" "offsets_of (cb_records b) = map_of (cb_offsetMap b)"
    using assms by (simp_all add: buf_inv_def)
  have "off \<in> snd ` set (cb_offsetMap b) \<longleftrightarrow> (\<exists>k. (k, off) \<in> set (cb_offsetMap b))" for off by force
  then show ?thesis using d by auto
qed

section \<open>Properties\<close>

text \<open>The environment in which the properties are tried: everything succeeds; its state is the list of calls made.\<close>

definition ok_call :: "string \<Rightarrow> string list \<Rightarrow> unit res \<times> string list" where
  "ok_call name w = (Ok (), w @ [name])"

definition call_producer :: "(string list, unit) producer_ops" where
  "call_producer = \<lparr>pr_transactional = True,
     pr_NewRecord = (\<lambda>k v t n now hs meta. \<lparr>kr_Key = k, kr_Value = v, kr_Topic = t, kr_Partition = n,
       kr_Offset = 0, kr_Timestamp = now, kr_Headers = hs\<rparr>),
     pr_ProduceSync = (\<lambda>r w. (Ok (0, 0), w @ [''ProduceSync''])), pr_ProduceAsync = (\<lambda>r. ok_call ''ProduceAsync''),
     pr_InitTransactions = ok_call ''Init'', pr_BeginTransaction = ok_call ''Begin'',
     pr_SendOffsets = (\<lambda>offs m. ok_call ''SendOffsets''), pr_CommitTransaction = ok_call ''Commit'',
     pr_AbortTransaction = ok_call ''Abort'', pr_Restart = ok_call ''Restart'', pr_Close = ok_call ''Close''\<rparr>"

definition call_env :: "(string list, unit) task_env" where
  "call_env = \<lparr>te_producer = call_producer, te_groupMeta = (\<lambda>w. Ok ()), te_stores = [''a'', ''b''],
     te_flushStore = (\<lambda>name. ok_call (''flush '' @ name)), te_resetStore = (\<lambda>name w. w @ [''reset '' @ name]),
     te_run = (\<lambda>r. ok_call ''run''), te_onProcess = None\<rparr>"

definition sample_record :: "int32 \<Rightarrow> int64 \<Rightarrow> krecord" where
  "sample_record n off = \<lparr>kr_Key = None, kr_Value = None, kr_Topic = ''t'', kr_Partition = n, kr_Offset = off,
     kr_Timestamp = 0, kr_Headers = []\<rparr>"

definition sample_buffer :: commit_buffer where
  "sample_buffer = buf_add_all (map NewTaskRecord [sample_record 0 7, sample_record 1 3, sample_record 0 8])
     \<lparr>cb_records = [], cb_offsetMap = [], cb_closing = False\<rparr>"

lemma buf_add_all_inv: "buf_inv b \<Longrightarrow> buf_inv (buf_add_all rs b)"
  by (induction rs arbitrary: b) (simp_all add: buf_add_all_def buf_inv_Add)

lemma sample_buffer_inv: "buf_inv sample_buffer"
  unfolding sample_buffer_def by (rule buf_add_all_inv) (rule buf_inv_empty)

lemma sample_buffer_records:
  "cb_records sample_buffer = map NewTaskRecord [sample_record 0 7, sample_record 1 3, sample_record 0 8]"
  by (simp add: sample_buffer_def buf_add_all_def buf_Add_def)





end
