(* ===== verification/Task.thy ===== *)
theory Task
  imports Buffer
begin

text \<open>
  \<open>src/streams/tasks/ktask.go\<close>: the processing of a task. The main loop selects among records from the data channel, the
  flush ticker and the stop signal; what arrives in which order is the list of inputs the loop is run on. Running a
  record through the sub topology is \<open>te_run\<close> of the environment.
\<close>

section \<open>State\<close>

record 'w task =
  tk_buffer :: commit_buffer
  tk_world :: 'w
  tk_failed :: "(gerror \<times> krecord) list"

text \<open>\<open>tk_failed\<close>: the calls made to \<open>failedMessageHandler\<close>.\<close>

datatype task_input = TRecord trecord | TTick | TStop

section \<open>Processing a record\<close>

text \<open>
  \<open>process\<close> returns the record too, since it may mark it as ignored: a failure that a producer error caused is
  returned as that producer error, any other failure goes to the failed message handler.
\<close>

definition task_process ::
  "('w, 'm) task_env \<Rightarrow> trecord \<Rightarrow> 'w task \<Rightarrow> unit res \<times> trecord \<times> 'w task" where
  "task_process env record t =
     (let (r, w) = (case te_onProcess env of
            Some onProcess \<Rightarrow> onProcess (te_run env) (tr_Record record) (tk_world t)
          | None \<Rightarrow> te_run env (tr_Record record) (tk_world t));
          t1 = t\<lparr>tk_world := w\<rparr>
      in case r of
           Ok _ \<Rightarrow> (Ok (), record, t1)
         | Panic p \<Rightarrow> (Panic p, record, t1)
         | Err err \<Rightarrow>
             (case producer_err_of err of
                Some producerErr \<Rightarrow> (Err producerErr, record, t1)
              | None \<Rightarrow> (Err err, record\<lparr>tr_ignore := True\<rparr>,
                  t1\<lparr>tk_failed := tk_failed t1 @ [(err, tr_Record record)]\<rparr>)))"

text \<open>Adding to the buffer, with the handler for an error that \<open>Add\<close> might return.\<close>

definition task_add :: "trecord \<Rightarrow> krecord \<Rightarrow> 'w task \<Rightarrow> 'w task" where
  "task_add record orig t = (case buf_Add record (tk_buffer t) of
      (Err e, b) \<Rightarrow> t\<lparr>tk_buffer := b, tk_failed := tk_failed t @ [(e, orig)]\<rparr>
    | (_, b) \<Rightarrow> t\<lparr>tk_buffer := b\<rparr>)"

section \<open>Reprocessing the commit buffer\<close>

datatype pass_result = PassDone | PassFailed gerror "trecord list" | PassPanic string

text \<open>
  One pass of \<open>reProcessCommitBuffer\<close> over the records: it ends when all are done, or at the first failure, with the list of
  all records as the pass left them (a failing record may be marked by now).
\<close>

fun reprocess_pass ::
  "('w, 'm) task_env \<Rightarrow> trecord list \<Rightarrow> trecord list \<Rightarrow> 'w task \<Rightarrow> pass_result \<times> 'w task" where
  "reprocess_pass env done [] t = (PassDone, t)"
| "reprocess_pass env done (r # rs) t =
     (if tr_ignore r then reprocess_pass env (done @ [r]) rs t
      else (case task_process env r t of
          (Ok _, r', t1) \<Rightarrow> reprocess_pass env (done @ [r']) rs (task_add r' (tr_Record r') t1)
        | (Err e, r', t1) \<Rightarrow> (PassFailed e (done @ r' # rs), t1)
        | (Panic p, r', t1) \<Rightarrow> (PassPanic p, t1)))"

definition task_reset :: "('w, 'm) task_env \<Rightarrow> 'w task \<Rightarrow> (unit res \<times> 'w task) option" where
  "task_reset env t =
     map_option (\<lambda>(r, b, w). (r, t\<lparr>tk_buffer := b, tk_world := w\<rparr>)) (buf_Reset env (tk_buffer t, tk_world t))"

text \<open>\<open>None\<close>: the reprocessing does not return.\<close>

partial_function (option) reProcessCommitBuffer ::
  "('w, 'm) task_env \<Rightarrow> trecord list \<Rightarrow> 'w task \<Rightarrow> (unit res \<times> 'w task) option" where
  "reProcessCommitBuffer env records0 t =
     (if cb_closing (tk_buffer t) then Some (Ok (), t)
      else (let records = (if length records0 < 1 then cb_records (tk_buffer t) else records0)
            in case task_reset env t of
                 None \<Rightarrow> None
               | Some (Err e, t1) \<Rightarrow> reProcessCommitBuffer env records t1
               | Some (Panic p, t1) \<Rightarrow> Some (Panic p, t1)
               | Some (Ok _, t1) \<Rightarrow>
                   (case reprocess_pass env [] records t1 of
                      (PassDone, t2) \<Rightarrow> Some (Ok (), t2)
                    | (PassFailed e rs, t2) \<Rightarrow> reProcessCommitBuffer env rs t2
                    | (PassPanic p, t2) \<Rightarrow> Some (Panic p, t2))))"

section \<open>The main loop\<close>

text \<open>
  The body of the loop for one input. For a record that fails the code asks the flag of the record received, not of the record
  it processed; the former is never set.
\<close>

definition task_step :: "('w, 'm) task_env \<Rightarrow> task_input \<Rightarrow> 'w task \<Rightarrow> (unit res \<times> 'w task) option" where
  "task_step env inp t = (case inp of
      TStop \<Rightarrow> Some (Ok (), t)
    | TTick \<Rightarrow>
        (case buf_Flush env (tk_buffer t, tk_world t) of
           (Ok _, b, w) \<Rightarrow> Some (Ok (), t\<lparr>tk_buffer := b, tk_world := w\<rparr>)
         | (Panic p, b, w) \<Rightarrow> Some (Panic p, t\<lparr>tk_buffer := b, tk_world := w\<rparr>)
         | (Err e, b, w) \<Rightarrow> reProcessCommitBuffer env [] (t\<lparr>tk_buffer := b, tk_world := w\<rparr>))
    | TRecord record \<Rightarrow>
        (case task_process env (NewTaskRecord (tr_Record record)) t of
           (Ok _, taskRecord, t1) \<Rightarrow> Some (Ok (), task_add taskRecord (tr_Record record) t1)
         | (Panic p, taskRecord, t1) \<Rightarrow> Some (Panic p, t1)
         | (Err e, taskRecord, t1) \<Rightarrow>
             reProcessCommitBuffer env []
               (if \<not> tr_ignore record then task_add taskRecord (tr_Record record) t1 else t1)))"

fun task_loop :: "('w, 'm) task_env \<Rightarrow> task_input list \<Rightarrow> 'w task \<Rightarrow> (unit res \<times> 'w task) option" where
  "task_loop env [] t = Some (Ok (), t)"
| "task_loop env (TStop # ins) t = Some (Ok (), t)"
| "task_loop env (i # ins) t =
     (case task_step env i t of
        None \<Rightarrow> None
      | Some (Ok _, t1) \<Rightarrow> task_loop env ins t1
      | Some (r, t1) \<Rightarrow> Some (r, t1))"

section \<open>Exactly-once processing\<close>

text \<open>
  What a transactional environment promises when nothing is wrong with the producer. \<open>pend w\<close> are the records whose
  effects are in the open transaction, \<open>comm w\<close> those whose effects are committed. Running a record puts its effects, also
  partial ones of a failing run, into the open transaction; whether it fails is a matter of the record.
\<close>

definition env_laws ::
  "('w, 'm) task_env \<Rightarrow> ('w \<Rightarrow> krecord list) \<Rightarrow> ('w \<Rightarrow> krecord list) \<Rightarrow> (krecord \<Rightarrow> gerror option) \<Rightarrow> bool" where
  "env_laws env pend comm fails \<longleftrightarrow>
     te_onProcess env = None \<and>
     (\<forall>r e. fails r = Some e \<longrightarrow> producer_err_of e = None) \<and>
     (\<forall>r w. \<exists>w'. te_run env r w = ((case fails r of None \<Rightarrow> Ok () | Some e \<Rightarrow> Err e), w') \<and>
        pend w' = pend w @ [r] \<and> comm w' = comm w) \<and>
     (\<forall>w. \<exists>w'. pr_AbortTransaction (te_producer env) w = (Ok (), w') \<and> pend w' = [] \<and> comm w' = comm w) \<and>
     (\<forall>w. \<exists>w'. pr_CommitTransaction (te_producer env) w = (Ok (), w') \<and> pend w' = [] \<and> comm w' = comm w @ pend w) \<and>
     (\<forall>offs m w. \<exists>w'. pr_SendOffsets (te_producer env) offs m w = (Ok (), w') \<and> pend w' = pend w \<and> comm w' = comm w) \<and>
     (\<forall>w. \<exists>m. te_groupMeta env w = Ok m) \<and>
     (\<forall>n w. \<exists>w'. te_flushStore env n w = (Ok (), w') \<and> pend w' = pend w \<and> comm w' = comm w) \<and>
     (\<forall>n w. pend (te_resetStore env n w) = pend w \<and> comm (te_resetStore env n w) = comm w)"

lemma env_lawsD:
  assumes "env_laws env pend comm fails"
  shows "te_onProcess env = None"
    and "\<And>r e. fails r = Some e \<Longrightarrow> producer_err_of e = None"
    and "\<And>r w. \<exists>w'. te_run env r w = ((case fails r of None \<Rightarrow> Ok () | Some e \<Rightarrow> Err e), w') \<and>
        pend w' = pend w @ [r] \<and> comm w' = comm w"
    and "\<And>w. \<exists>w'. pr_AbortTransaction (te_producer env) w = (Ok (), w') \<and> pend w' = [] \<and> comm w' = comm w"
    and "\<And>w. \<exists>w'. pr_CommitTransaction (te_producer env) w = (Ok (), w') \<and> pend w' = [] \<and> comm w' = comm w @ pend w"
    and "\<And>offs m w. \<exists>w'. pr_SendOffsets (te_producer env) offs m w = (Ok (), w') \<and> pend w' = pend w \<and> comm w' = comm w"
    and "\<And>w. \<exists>m. te_groupMeta env w = Ok m"
    and "\<And>n w. \<exists>w'. te_flushStore env n w = (Ok (), w') \<and> pend w' = pend w \<and> comm w' = comm w"
    and "\<And>n w. pend (te_resetStore env n w) = pend w \<and> comm (te_resetStore env n w) = comm w"
  using assms unfolding env_laws_def by blast+

text \<open>The buffer holds exactly the records of the open transaction, none of them marked.\<close>

definition task_inv :: "('w \<Rightarrow> krecord list) \<Rightarrow> (krecord \<Rightarrow> gerror option) \<Rightarrow> 'w task \<Rightarrow> bool" where
  "task_inv pend fails t \<longleftrightarrow> \<not> cb_closing (tk_buffer t) \<and>
     pend (tk_world t) = map tr_Record (cb_records (tk_buffer t)) \<and>
     (\<forall>r \<in> set (cb_records (tk_buffer t)). \<not> tr_ignore r \<and> fails (tr_Record r) = None) \<and>
     buf_inv (tk_buffer t)"

lemma process_cases:
  assumes L: "env_laws env pend comm fails"
  obtains w where "pend w = pend (tk_world t) @ [tr_Record r]" "comm w = comm (tk_world t)"
    "task_process env r t = (case fails (tr_Record r) of None \<Rightarrow> (Ok (), r, t\<lparr>tk_world := w\<rparr>)
      | Some e \<Rightarrow> (Err e, r\<lparr>tr_ignore := True\<rparr>,
          t\<lparr>tk_world := w, tk_failed := tk_failed t @ [(e, tr_Record r)]\<rparr>))"
proof -
  obtain w where w: "te_run env (tr_Record r) (tk_world t)
      = ((case fails (tr_Record r) of None \<Rightarrow> Ok () | Some e \<Rightarrow> Err e), w)"
    "pend w = pend (tk_world t) @ [tr_Record r]" "comm w = comm (tk_world t)"
    using env_lawsD(3) [OF L] by blast
  show thesis
    by (rule that [OF w(2,3)])
      (use w(1) env_lawsD(1,2) [OF L] in \<open>auto simp: task_process_def split: option.splits\<close>)
qed

lemma task_add_simps [simp]:
  "tk_world (task_add r o' t) = tk_world t" "tk_failed (task_add r o' t) = tk_failed t"
  "cb_records (tk_buffer (task_add r o' t)) = cb_records (tk_buffer t) @ [r]"
  "cb_closing (tk_buffer (task_add r o' t)) = cb_closing (tk_buffer t)"
  "buf_inv (tk_buffer t) \<Longrightarrow> buf_inv (tk_buffer (task_add r o' t))"
  using buf_inv_Add [of "tk_buffer t" r] by (simp_all add: task_add_def buf_Add_def)

lemma fold_reset_stores:
  assumes "env_laws env pend comm fails"
  shows "pend (reset_caches env w) = pend w \<and> comm (reset_caches env w) = comm w"
proof -
  have "pend (fold (te_resetStore env) ns w) = pend w \<and> comm (fold (te_resetStore env) ns w) = comm w" for ns
    using env_lawsD(9) [OF assms] by (induction ns arbitrary: w) auto
  then show ?thesis by (simp add: reset_caches_def)
qed

lemma reset_ok:
  assumes L: "env_laws env pend comm fails"
  obtains b w where "task_reset env t = Some (Ok (), t\<lparr>tk_buffer := b, tk_world := w\<rparr>)" "pend w = []"
    "comm w = comm (tk_world t)" "cb_records b = []" "cb_closing b = cb_closing (tk_buffer t)" "buf_inv b"
proof -
  let ?b = "(tk_buffer t)\<lparr>cb_offsetMap := [], cb_records := []\<rparr>"
  obtain w where w: "pr_AbortTransaction (te_producer env) (reset_caches env (tk_world t)) = (Ok (), w)"
    "pend w = []" "comm w = comm (tk_world t)"
    using env_lawsD(4) [OF L, of "reset_caches env (tk_world t)"] fold_reset_stores [OF L] by auto
  show thesis
    by (rule that [where b = ?b and w = w]) (use w in \<open>simp_all add: task_reset_def buf_Reset_def Let_def buf_inv_empty\<close>)
qed

text \<open>A pass adds the records that do not fail, and stops at the first that does, marking it.\<close>

lemma pass_result:
  assumes L: "env_laws env pend comm fails" and "task_inv pend fails t"
  shows "\<exists>p t'. reprocess_pass env done rs t = (p, t') \<and> comm (tk_world t') = comm (tk_world t) \<and>
    \<not> cb_closing (tk_buffer t') \<and>
    (p = PassDone \<and> task_inv pend fails t' \<and>
        map tr_Record (cb_records (tk_buffer t')) = map tr_Record (cb_records (tk_buffer t)) @
          map tr_Record (filter (\<lambda>r. \<not> tr_ignore r) rs) \<and>
        (\<forall>r \<in> set rs. \<not> tr_ignore r \<longrightarrow> fails (tr_Record r) = None)
     \<or> (\<exists>e xs r ys. p = PassFailed e (done @ xs @ r\<lparr>tr_ignore := True\<rparr> # ys) \<and> rs = xs @ r # ys \<and>
          \<not> tr_ignore r \<and> fails (tr_Record r) = Some e))"
  using assms(2)
proof (induction rs arbitrary: "done" t)
  case Nil
  then show ?case by (simp add: task_inv_def)
next
  case (Cons r rs)
  show ?case
  proof (cases "tr_ignore r")
    case True
    from Cons.IH [OF Cons.prems, of "done @ [r]"] obtain p t' where
      "reprocess_pass env (done @ [r]) rs t = (p, t')" "comm (tk_world t') = comm (tk_world t)"
      "\<not> cb_closing (tk_buffer t')"
      and alt: "p = PassDone \<and> task_inv pend fails t' \<and>
        map tr_Record (cb_records (tk_buffer t')) = map tr_Record (cb_records (tk_buffer t)) @
          map tr_Record (filter (\<lambda>r. \<not> tr_ignore r) rs) \<and>
        (\<forall>r \<in> set rs. \<not> tr_ignore r \<longrightarrow> fails (tr_Record r) = None)
     \<or> (\<exists>e xs q ys. p = PassFailed e ((done @ [r]) @ xs @ q\<lparr>tr_ignore := True\<rparr> # ys) \<and> rs = xs @ q # ys \<and>
          \<not> tr_ignore q \<and> fails (tr_Record q) = Some e)" by blast
    moreover from alt have "p = PassDone \<and> task_inv pend fails t' \<and>
        map tr_Record (cb_records (tk_buffer t')) = map tr_Record (cb_records (tk_buffer t)) @
          map tr_Record (filter (\<lambda>r. \<not> tr_ignore r) (r # rs)) \<and>
        (\<forall>r \<in> set (r # rs). \<not> tr_ignore r \<longrightarrow> fails (tr_Record r) = None)
     \<or> (\<exists>e xs q ys. p = PassFailed e (done @ xs @ q\<lparr>tr_ignore := True\<rparr> # ys) \<and> r # rs = xs @ q # ys \<and>
          \<not> tr_ignore q \<and> fails (tr_Record q) = Some e)"
      using True by (elim disjE) (simp, metis append.assoc append_Cons append_Nil)
    ultimately show ?thesis using True by auto
  next
    case False
    obtain w where w: "pend w = pend (tk_world t) @ [tr_Record r]" "comm w = comm (tk_world t)"
      "task_process env r t = (case fails (tr_Record r) of None \<Rightarrow> (Ok (), r, t\<lparr>tk_world := w\<rparr>)
        | Some e \<Rightarrow> (Err e, r\<lparr>tr_ignore := True\<rparr>, t\<lparr>tk_world := w, tk_failed := tk_failed t @ [(e, tr_Record r)]\<rparr>))"
      using process_cases [OF L] .
    show ?thesis
    proof (cases "fails (tr_Record r)")
      case (Some e)
      with False w Cons.prems have "reprocess_pass env done (r # rs) t = (PassFailed e (done @ [] @ r\<lparr>tr_ignore := True\<rparr> # rs),
          t\<lparr>tk_world := w, tk_failed := tk_failed t @ [(e, tr_Record r)]\<rparr>)" by simp
      with Some False w(2) Cons.prems show ?thesis
        by (auto simp: task_inv_def intro!: exI [of _ "[] :: trecord list"])
    next
      case None
      let ?t = "task_add r (tr_Record r) (t\<lparr>tk_world := w\<rparr>)"
      have inv: "task_inv pend fails ?t"
        using Cons.prems w(1) None False by (auto simp: task_inv_def)
      have step: "reprocess_pass env done (r # rs) t = reprocess_pass env (done @ [r]) rs ?t"
        using False None w(3) by simp
      from Cons.IH [OF inv, of "done @ [r]"] obtain p t' where
        p: "reprocess_pass env (done @ [r]) rs ?t = (p, t')" "comm (tk_world t') = comm (tk_world ?t)"
        "\<not> cb_closing (tk_buffer t')"
        and alt: "p = PassDone \<and> task_inv pend fails t' \<and>
          map tr_Record (cb_records (tk_buffer t')) = map tr_Record (cb_records (tk_buffer ?t)) @
            map tr_Record (filter (\<lambda>r. \<not> tr_ignore r) rs) \<and>
          (\<forall>r \<in> set rs. \<not> tr_ignore r \<longrightarrow> fails (tr_Record r) = None)
        \<or> (\<exists>e xs q ys. p = PassFailed e ((done @ [r]) @ xs @ q\<lparr>tr_ignore := True\<rparr> # ys) \<and> rs = xs @ q # ys \<and>
          \<not> tr_ignore q \<and> fails (tr_Record q) = Some e)" by blast
      from alt have "p = PassDone \<and> task_inv pend fails t' \<and>
          map tr_Record (cb_records (tk_buffer t')) = map tr_Record (cb_records (tk_buffer t)) @
            map tr_Record (filter (\<lambda>r. \<not> tr_ignore r) (r # rs)) \<and>
          (\<forall>r \<in> set (r # rs). \<not> tr_ignore r \<longrightarrow> fails (tr_Record r) = None)
        \<or> (\<exists>e xs q ys. p = PassFailed e (done @ xs @ q\<lparr>tr_ignore := True\<rparr> # ys) \<and> r # rs = xs @ q # ys \<and>
          \<not> tr_ignore q \<and> fails (tr_Record q) = Some e)"
        using False None by (elim disjE) (simp, metis append.assoc append_Cons append_Nil)
      with p step w(2) show ?thesis by auto
    qed
  qed
qed

abbreviation retryable :: "(krecord \<Rightarrow> gerror option) \<Rightarrow> trecord \<Rightarrow> bool" where
  "retryable fails r \<equiv> \<not> tr_ignore r \<and> fails (tr_Record r) = None"

text \<open>Reprocessing returns: every failing pass marks one record more.\<close>

lemma reprocess_result:
  assumes L: "env_laws env pend comm fails" and c: "\<not> cb_closing (tk_buffer t)"
    and rs: "rs = (if length rs0 < 1 then cb_records (tk_buffer t) else rs0)"
  shows "\<exists>t'. reProcessCommitBuffer env rs0 t = Some (Ok (), t') \<and> task_inv pend fails t' \<and>
    comm (tk_world t') = comm (tk_world t) \<and>
    map tr_Record (cb_records (tk_buffer t')) = map tr_Record (filter (retryable fails) rs)"
  using c rs
proof (induction "length (filter (\<lambda>r. \<not> tr_ignore r) rs)" arbitrary: rs rs0 t rule: less_induct)
  case less
  obtain b w where bw: "task_reset env t = Some (Ok (), t\<lparr>tk_buffer := b, tk_world := w\<rparr>)" "pend w = []"
    "comm w = comm (tk_world t)" "cb_records b = []" "cb_closing b = cb_closing (tk_buffer t)" "buf_inv b"
    using reset_ok [OF L] .
  let ?t1 = "t\<lparr>tk_buffer := b, tk_world := w\<rparr>"
  have inv: "task_inv pend fails ?t1" using bw less.prems(1) by (simp add: task_inv_def)
  obtain p t2 where p: "reprocess_pass env [] rs ?t1 = (p, t2)" "comm (tk_world t2) = comm (tk_world ?t1)"
    "\<not> cb_closing (tk_buffer t2)"
    and alt: "p = PassDone \<and> task_inv pend fails t2 \<and>
        map tr_Record (cb_records (tk_buffer t2)) = map tr_Record (cb_records (tk_buffer ?t1)) @
          map tr_Record (filter (\<lambda>r. \<not> tr_ignore r) rs) \<and>
        (\<forall>r \<in> set rs. \<not> tr_ignore r \<longrightarrow> fails (tr_Record r) = None)
     \<or> (\<exists>e xs r ys. p = PassFailed e ([] @ xs @ r\<lparr>tr_ignore := True\<rparr> # ys) \<and> rs = xs @ r # ys \<and>
          \<not> tr_ignore r \<and> fails (tr_Record r) = Some e)"
    using pass_result [OF L inv, of "[]" rs] by blast
  have unf: "reProcessCommitBuffer env rs0 t = (case (p, t2) of
      (PassDone, t2) \<Rightarrow> Some (Ok (), t2) | (PassFailed e rs, t2) \<Rightarrow> reProcessCommitBuffer env rs t2
    | (PassPanic q, t2) \<Rightarrow> Some (Panic q, t2))"
    using less.prems bw(1) p(1) by (subst reProcessCommitBuffer.simps) (simp add: Let_def)
  from alt show ?case
  proof (elim disjE exE conjE)
    assume d: "p = PassDone" "task_inv pend fails t2" "\<forall>r \<in> set rs. \<not> tr_ignore r \<longrightarrow> fails (tr_Record r) = None"
      "map tr_Record (cb_records (tk_buffer t2)) = map tr_Record (cb_records (tk_buffer ?t1)) @
          map tr_Record (filter (\<lambda>r. \<not> tr_ignore r) rs)"
    have "filter (\<lambda>r. \<not> tr_ignore r) rs = filter (retryable fails) rs"
      using d(3) by (intro filter_cong) auto
    with d unf p(2) bw(3,4) show ?case by simp
  next
    fix e xs r ys
    assume f: "p = PassFailed e ([] @ xs @ r\<lparr>tr_ignore := True\<rparr> # ys)" "rs = xs @ r # ys" "\<not> tr_ignore r"
      "fails (tr_Record r) = Some e"
    let ?rs = "xs @ r\<lparr>tr_ignore := True\<rparr> # ys"
    have "\<exists>t'. reProcessCommitBuffer env ?rs t2 = Some (Ok (), t') \<and> task_inv pend fails t' \<and>
      comm (tk_world t') = comm (tk_world t2) \<and>
      map tr_Record (cb_records (tk_buffer t')) = map tr_Record (filter (retryable fails) ?rs)"
      by (rule less.hyps [of ?rs]) (use f p(3) in auto)
    with f unf p(2) bw(3) show ?case by simp
  qed
qed

lemma flush_ok:
  assumes L: "env_laws env pend comm fails" and inv: "task_inv pend fails t"
  obtains b w where "buf_Flush env (tk_buffer t, tk_world t) = (Ok (), b, w)"
    "task_inv pend fails (t\<lparr>tk_buffer := b, tk_world := w\<rparr>)" "comm w @ pend w = comm (tk_world t) @ pend (tk_world t)"
    "cb_records b = []"
proof (cases "cb_records (tk_buffer t)")
  case Nil
  with inv that show thesis by (simp add: buf_Flush_def)
next
  case (Cons r rs)
  let ?b = "(tk_buffer t)\<lparr>cb_offsetMap := [], cb_records := []\<rparr>"
  let ?w = "tk_world t"
  obtain m where m: "te_groupMeta env ?w = Ok m" using env_lawsD(7) [OF L] by blast
  have stores: "\<exists>w'. forR (flush_store env) ns w = (Ok (), w') \<and> pend w' = pend w \<and> comm w' = comm w" for ns w
  proof (induction ns arbitrary: w)
    case (Cons n ns)
    obtain w1 where "te_flushStore env n w = (Ok (), w1)" "pend w1 = pend w" "comm w1 = comm w"
      using env_lawsD(8) [OF L] by blast
    then have s: "flush_store env n w = (Ok (), te_resetStore env n w1)" "pend (te_resetStore env n w1) = pend w"
      "comm (te_resetStore env n w1) = comm w"
      using env_lawsD(9) [OF L] by (simp_all add: flush_store_def bindR_def wrapR_def)
    with Cons.IH [of "te_resetStore env n w1"] show ?case by (auto simp: bindR_def)
  qed simp
  have fin: "\<exists>w3. bindR (wrapR msg (pr_CommitTransaction (te_producer env))) (\<lambda>_. forR (flush_store env) (te_stores env)) w1
      = (Ok (), w3) \<and> pend w3 = [] \<and> comm w3 = comm w1 @ pend w1" for w1 msg
  proof -
    obtain w2 where w2: "pr_CommitTransaction (te_producer env) w1 = (Ok (), w2)" "pend w2 = []" "comm w2 = comm w1 @ pend w1"
      using env_lawsD(5) [OF L] by blast
    obtain w3 where "forR (flush_store env) (te_stores env) w2 = (Ok (), w3)" "pend w3 = pend w2" "comm w3 = comm w2"
      using stores by blast
    with w2 show ?thesis by (simp add: bindR_def wrapR_def)
  qed
  obtain w1 where w1: "pr_SendOffsets (te_producer env) (map snd (cb_offsetMap (tk_buffer t))) m ?w = (Ok (), w1)"
    "pend w1 = pend ?w" "comm w1 = comm ?w" using env_lawsD(6) [OF L] by blast
  obtain w3 where w3: "buf_commit env (tk_buffer t, ?w) = (Ok (), ?b, w3)" "pend w3 = []" "comm w3 = comm ?w @ pend ?w"
  proof (cases "cb_offsetMap (tk_buffer t) = []")
    case True
    with fin [of "''commit(CommitTransaction) failed''" ?w] that show thesis
      by (auto simp: buf_commit_def Let_def)
  next
    case False
    have send: "bindR (wrapR msg (pr_SendOffsets (te_producer env) (map snd (cb_offsetMap (tk_buffer t))) m)) k ?w
        = k () w1" for msg and k :: "unit \<Rightarrow> 'a \<Rightarrow> unit res \<times> 'a"
      using w1(1) by (simp add: bindR_def wrapR_def)
    from False fin [of "''commit(CommitTransaction) failed''" w1] w1(2,3) m that show thesis
      by (auto simp: buf_commit_def Let_def send)
  qed
  show thesis
    by (rule that [where b = ?b and w = w3])
      (use w3 Cons inv in \<open>simp_all add: buf_Flush_def task_inv_def buf_inv_empty\<close>)
qed

lemma step_result:
  assumes L: "env_laws env pend comm fails" and inv: "task_inv pend fails t" and i: "i \<noteq> TStop"
  shows "\<exists>t'. task_step env i t = Some (Ok (), t') \<and> task_inv pend fails t' \<and>
    comm (tk_world t') @ pend (tk_world t') = comm (tk_world t) @ pend (tk_world t) @
      (case i of TRecord r \<Rightarrow> if fails (tr_Record r) = None then [tr_Record r] else [] | _ \<Rightarrow> [])"
proof (cases i)
  case TTick
  obtain b w where "buf_Flush env (tk_buffer t, tk_world t) = (Ok (), b, w)"
    "task_inv pend fails (t\<lparr>tk_buffer := b, tk_world := w\<rparr>)" "comm w @ pend w = comm (tk_world t) @ pend (tk_world t)"
    using flush_ok [OF L inv] .
  with TTick show ?thesis by (simp add: task_step_def)
next
  case (TRecord rec)
  let ?r = "NewTaskRecord (tr_Record rec)"
  obtain w where w: "pend w = pend (tk_world t) @ [tr_Record ?r]" "comm w = comm (tk_world t)"
    "task_process env ?r t = (case fails (tr_Record ?r) of None \<Rightarrow> (Ok (), ?r, t\<lparr>tk_world := w\<rparr>)
      | Some e \<Rightarrow> (Err e, ?r\<lparr>tr_ignore := True\<rparr>, t\<lparr>tk_world := w, tk_failed := tk_failed t @ [(e, tr_Record ?r)]\<rparr>))"
    using process_cases [OF L] .
  have r: "tr_Record ?r = tr_Record rec" "\<not> tr_ignore ?r" by (simp_all add: NewTaskRecord_def)
  show ?thesis
  proof (cases "fails (tr_Record rec)")
    case None
    then have "task_step env i t = Some (Ok (), task_add ?r (tr_Record rec) (t\<lparr>tk_world := w\<rparr>))"
      using w(3) by (simp add: TRecord task_step_def r)
    moreover have "task_inv pend fails (task_add ?r (tr_Record rec) (t\<lparr>tk_world := w\<rparr>))"
      using inv w(1) None r by (auto simp: task_inv_def)
    ultimately show ?thesis using None w(1,2) by (simp add: TRecord r)
  next
    case (Some e)
    let ?t1 = "t\<lparr>tk_world := w, tk_failed := tk_failed t @ [(e, tr_Record rec)]\<rparr>"
    let ?t2 = "if \<not> tr_ignore rec then task_add (?r\<lparr>tr_ignore := True\<rparr>) (tr_Record rec) ?t1 else ?t1"
    have step: "task_step env i t = reProcessCommitBuffer env [] ?t2"
      using w(3) Some by (simp add: TRecord task_step_def r)
    have c: "\<not> cb_closing (tk_buffer ?t2)" using inv by (simp add: task_inv_def)
    have "filter (retryable fails) (cb_records (tk_buffer t)) = cb_records (tk_buffer t)"
      using inv by (intro filter_True) (simp add: task_inv_def)
    then have f: "filter (retryable fails) (cb_records (tk_buffer ?t2)) = cb_records (tk_buffer t)" by simp
    obtain t' where t': "reProcessCommitBuffer env [] ?t2 = Some (Ok (), t')" "task_inv pend fails t'"
      "comm (tk_world t') = comm (tk_world ?t2)"
      "map tr_Record (cb_records (tk_buffer t')) = map tr_Record (filter (retryable fails) (cb_records (tk_buffer ?t2)))"
      using reprocess_result [OF L c, of "cb_records (tk_buffer ?t2)" "[]"] by auto
    have "pend (tk_world t') = pend (tk_world t)"
      using t'(2,4) inv unfolding f by (simp add: task_inv_def)
    with t' step Some w(2) show ?thesis by (simp add: TRecord)
  qed
qed (use i in simp)

text \<open>The records that arrive before the stop signal.\<close>

fun arrived :: "task_input list \<Rightarrow> krecord list" where
  "arrived [] = []"
| "arrived (TStop # ins) = []"
| "arrived (TTick # ins) = arrived ins"
| "arrived (TRecord r # ins) = tr_Record r # arrived ins"

lemma loop_result:
  assumes L: "env_laws env pend comm fails" and "task_inv pend fails t"
  shows "\<exists>t'. task_loop env ins t = Some (Ok (), t') \<and> task_inv pend fails t' \<and>
    comm (tk_world t') @ pend (tk_world t') =
      comm (tk_world t) @ pend (tk_world t) @ filter (\<lambda>r. fails r = None) (arrived ins)"
  using assms(2)
proof (induction ins arbitrary: t)
  case (Cons i ins)
  show ?case
  proof (cases "i = TStop")
    case False
    obtain t1 where t1: "task_step env i t = Some (Ok (), t1)" "task_inv pend fails t1"
      "comm (tk_world t1) @ pend (tk_world t1) = comm (tk_world t) @ pend (tk_world t) @
        (case i of TRecord r \<Rightarrow> if fails (tr_Record r) = None then [tr_Record r] else [] | _ \<Rightarrow> [])"
      using step_result [OF L Cons.prems False] by blast
    from Cons.IH [OF t1(2)] obtain t' where "task_loop env ins t1 = Some (Ok (), t')" "task_inv pend fails t'"
      "comm (tk_world t') @ pend (tk_world t') =
        (comm (tk_world t1) @ pend (tk_world t1)) @ filter (\<lambda>r. fails r = None) (arrived ins)" by auto
    with t1 False show ?thesis by (cases i) auto
  qed (use Cons.prems in simp)
qed simp

lemma handleTxError_leaf:
  "handleTxError pr True err w = Some (Ok (), w)"
  "producer_err_of err = None \<Longrightarrow>
     handleTxError pr False err w = Some (Panic ''interface conversion: nil is not kafka.ProducerErr'', w)"
  by (subst handleTxError.simps, simp)+

text \<open>A producer that recovers: the number of failures still to come goes down with every one.\<close>

definition recovers :: "('w, 'm) producer_ops \<Rightarrow> ('w \<Rightarrow> nat) \<Rightarrow> bool" where
  "recovers pr left \<longleftrightarrow>
     (\<forall>w. case pr_AbortTransaction pr w of (Ok _, w') \<Rightarrow> left w' \<le> left w
        | (Err e, w') \<Rightarrow> left w' < left w \<and> producer_err_of e \<noteq> None | (Panic _, _) \<Rightarrow> False) \<and>
     (\<forall>w. case pr_InitTransactions pr w of (Ok _, w') \<Rightarrow> left w' \<le> left w
        | (Err e, w') \<Rightarrow> left w' < left w \<and> producer_err_of e \<noteq> None | (Panic _, _) \<Rightarrow> False) \<and>
     (\<forall>w. \<exists>w'. pr_Restart pr w = (Ok (), w') \<and> left w' \<le> left w)"

lemma handleTxError_returns:
  assumes R: "recovers pr left" and "producer_err_of err \<noteq> None"
  shows "\<exists>w'. handleTxError pr closing err w = Some (Ok (), w') \<and> left w' \<le> left w"
  using assms(2)
proof (induction "left w" arbitrary: w err rule: less_induct)
  case less
  have ab: "case pr_AbortTransaction pr w of (Ok _, w') \<Rightarrow> left w' \<le> left w
        | (Err e, w') \<Rightarrow> left w' < left w \<and> producer_err_of e \<noteq> None | (Panic _, _) \<Rightarrow> False" for w
    by (rule R [unfolded recovers_def, THEN conjunct1, THEN spec])
  have ini: "case pr_InitTransactions pr w of (Ok _, w') \<Rightarrow> left w' \<le> left w
        | (Err e, w') \<Rightarrow> left w' < left w \<and> producer_err_of e \<noteq> None | (Panic _, _) \<Rightarrow> False" for w
    by (rule R [unfolded recovers_def, THEN conjunct2, THEN conjunct1, THEN spec])
  have res: "\<exists>w'. pr_Restart pr w = (Ok (), w') \<and> left w' \<le> left w" for w
    by (rule R [unfolded recovers_def, THEN conjunct2, THEN conjunct2, THEN spec])
  show ?case
  proof (cases closing)
    case True
    then show ?thesis by (simp add: handleTxError_leaf)
  next
    case False
    obtain restart abort m where pe: "producer_err_of err = Some (EProducer restart abort m)"
      using less.prems producer_err_of_Some by (metis not_None_eq)
    have one: "\<exists>w1. (if abort then
          (case pr_AbortTransaction pr w of
             (Err e, w1) \<Rightarrow> handleTxError pr closing e w1
           | (Ok u, w1) \<Rightarrow> Some (Ok u, w1) | (Panic p, w1) \<Rightarrow> Some (Panic p, w1))
        else Some (Ok (), w)) = Some (Ok (), w1) \<and> left w1 \<le> left w"
    proof (cases abort)
      case True
      obtain r w1 where r: "pr_AbortTransaction pr w = (r, w1)" by force
      show ?thesis
      proof (cases r)
        case (Err e)
        with ab [of w] r have "left w1 < left w" "producer_err_of e \<noteq> None" by auto
        with less.hyps [of w1 e] True r Err show ?thesis by (auto intro: order_trans less_imp_le)
      qed (use ab [of w] r True in auto)
    qed simp
    then obtain w1 where w1: "(if abort then
          (case pr_AbortTransaction pr w of
             (Err e, w1) \<Rightarrow> handleTxError pr closing e w1
           | (Ok u, w1) \<Rightarrow> Some (Ok u, w1) | (Panic p, w1) \<Rightarrow> Some (Panic p, w1))
        else Some (Ok (), w)) = Some (Ok (), w1)" "left w1 \<le> left w" by blast
    obtain w2 where w2: "(if restart then pr_Restart pr w1 else (Ok (), w1)) = (Ok (), w2)" "left w2 \<le> left w1"
      using res [of w1] by (cases restart) auto
    obtain r w3 where r: "pr_InitTransactions pr w2 = (r, w3)" by force
    have eq: "handleTxError pr closing err w = (case (r, w3) of
        (Err e, w3) \<Rightarrow> handleTxError pr closing e w3 | (Ok u, w3) \<Rightarrow> Some (Ok u, w3) | (Panic p, w3) \<Rightarrow> Some (Panic p, w3))"
    proof -
      have c: "closing = False" using False by simp
      show ?thesis
        by (subst handleTxError.simps)
          (simp only: c if_False pe option.case gerror.case w1(1) [unfolded c] bind.simps prod.case res.case w2(1) r)
    qed
    show ?thesis
    proof (cases r)
      case (Err e)
      with ini [of w2] r have "left w3 < left w2" "producer_err_of e \<noteq> None" by auto
      then have "\<exists>w'. handleTxError pr closing e w3 = Some (Ok (), w') \<and> left w' \<le> left w3"
        using less.hyps [of w3 e] w1(2) w2(2) by simp
      with eq Err \<open>left w3 < left w2\<close> w1(2) w2(2) show ?thesis by (auto intro: order_trans less_imp_le)
    next
      case (Ok u)
      with ini [of w2] r eq w1(2) w2(2) show ?thesis by auto
    next
      case (Panic q)
      with ini [of w2] r show ?thesis by simp
    qed
  qed
qed

section \<open>Properties\<close>

text \<open>An environment that keeps the laws: transactions as two lists of records, and records with an odd offset fail.\<close>

record tx_world =
  tx_pending :: "krecord list"
  tx_committed :: "krecord list"

definition tx_fails :: "krecord \<Rightarrow> gerror option" where
  "tx_fails r = (if odd (unat (kr_Offset r)) then Some (EPlain ''odd'') else None)"

definition tx_producer :: "(tx_world, unit) producer_ops" where
  "tx_producer = \<lparr>pr_transactional = True,
     pr_NewRecord = (\<lambda>k v t n now hs meta. \<lparr>kr_Key = k, kr_Value = v, kr_Topic = t, kr_Partition = n,
       kr_Offset = 0, kr_Timestamp = now, kr_Headers = hs\<rparr>),
     pr_ProduceSync = (\<lambda>r w. (Ok (0, 0), w)), pr_ProduceAsync = (\<lambda>r w. (Ok (), w)),
     pr_InitTransactions = (\<lambda>w. (Ok (), w)), pr_BeginTransaction = (\<lambda>w. (Ok (), w)),
     pr_SendOffsets = (\<lambda>offs m w. (Ok (), w)),
     pr_CommitTransaction = (\<lambda>w. (Ok (), w\<lparr>tx_pending := [], tx_committed := tx_committed w @ tx_pending w\<rparr>)),
     pr_AbortTransaction = (\<lambda>w. (Ok (), w\<lparr>tx_pending := []\<rparr>)),
     pr_Restart = (\<lambda>w. (Ok (), w)), pr_Close = (\<lambda>w. (Ok (), w))\<rparr>"

definition tx_env :: "(tx_world, unit) task_env" where
  "tx_env = \<lparr>te_producer = tx_producer, te_groupMeta = (\<lambda>w. Ok ()), te_stores = [''a''],
     te_flushStore = (\<lambda>name w. (Ok (), w)), te_resetStore = (\<lambda>name w. w),
     te_run = (\<lambda>r w. (case tx_fails r of None \<Rightarrow> Ok () | Some e \<Rightarrow> Err e, w\<lparr>tx_pending := tx_pending w @ [r]\<rparr>)),
     te_onProcess = None\<rparr>"

lemma tx_env_laws: "env_laws tx_env tx_pending tx_committed tx_fails"
  by (simp add: env_laws_def tx_env_def tx_producer_def tx_fails_def unwrap_until.simps)

definition new_task :: "tx_world task" where
  "new_task = \<lparr>tk_buffer = \<lparr>cb_records = [], cb_offsetMap = [], cb_closing = False\<rparr>,
     tk_world = \<lparr>tx_pending = [], tx_committed = []\<rparr>, tk_failed = []\<rparr>"

lemma new_task_inv: "task_inv tx_pending tx_fails new_task"
  by (simp add: task_inv_def new_task_def buf_inv_empty)

text \<open>C1: Exactly-once processing. Whatever sequence of records, flush ticks and failures arrives, a task whose producer
  works keeps running (the main loop gets through, every reprocessing returns), and what is committed followed by what is in
  the open transaction is exactly the sequence of the records that can be processed, each once and in the order of
  arrival; no effect of a failing record is in either. The buffer holds the records of the open transaction.\<close>
theorem exactly_once:
  assumes "env_laws env pend comm fails" "task_inv pend fails t"
    and "comm (tk_world t) = []" "pend (tk_world t) = []"
  shows "\<exists>t'. task_loop env ins t = Some (Ok (), t') \<and>
    comm (tk_world t') @ pend (tk_world t') = filter (\<lambda>r. fails r = None) (arrived ins) \<and>
    pend (tk_world t') = map tr_Record (cb_records (tk_buffer t')) \<and>
    (\<forall>r \<in> set (cb_records (tk_buffer t')). \<not> tr_ignore r) \<and> buf_inv (tk_buffer t')"
  using loop_result [OF assms(1,2), of ins] assms(3,4) by (auto simp: task_inv_def)

theorem exactly_once_witness:
  "\<exists>t'. task_loop tx_env [TRecord (NewTaskRecord (sample_record 0 2)), TRecord (NewTaskRecord (sample_record 0 3)), TTick,
       TRecord (NewTaskRecord (sample_record 0 4))] new_task = Some (Ok (), t') \<and>
     tx_committed (tk_world t') @ tx_pending (tk_world t') = [sample_record 0 2, sample_record 0 4]"
proof -
  have f: "tx_fails (sample_record 0 2) = None" "tx_fails (sample_record 0 3) \<noteq> None" "tx_fails (sample_record 0 4) = None"
    by (simp_all add: tx_fails_def sample_record_def)
  have "tx_committed (tk_world new_task) = []" "tx_pending (tk_world new_task) = []" by (simp_all add: new_task_def)
  from exactly_once [OF tx_env_laws new_task_inv this] show ?thesis
    using f by (fastforce simp: NewTaskRecord_def)
qed

text \<open>C10: What \<open>process\<close> does with a failure. A failure with a Kafka producer error anywhere in its chain of causes is
  returned as that producer error and the record stays eligible for reprocessing, so it is retried; any other failure is
  handed to the failed message handler, exactly once, and the record is excluded from reprocessing.\<close>
theorem process_classifies:
  assumes "te_onProcess env = None" "te_run env (tr_Record r) (tk_world t) = (Err e, w)"
  shows "(\<forall>pe. producer_err_of e = Some pe \<longrightarrow>
      task_process env r t = (Err pe, r, t\<lparr>tk_world := w\<rparr>) \<and> (\<exists>rs ab m. pe = EProducer rs ab m)) \<and>
    (producer_err_of e = None \<longrightarrow>
      task_process env r t = (Err e, r\<lparr>tr_ignore := True\<rparr>,
        t\<lparr>tk_world := w, tk_failed := tk_failed t @ [(e, tr_Record r)]\<rparr>))"
  using assms by (auto simp: task_process_def simp del: unwrap_until.simps elim: producer_err_of_Some)

theorem process_classifies_witness:
  "task_process tx_env (NewTaskRecord (sample_record 0 3)) new_task =
     (Err (EPlain ''odd''), (NewTaskRecord (sample_record 0 3))\<lparr>tr_ignore := True\<rparr>,
      new_task\<lparr>tk_world := \<lparr>tx_pending = [sample_record 0 3], tx_committed = []\<rparr>,
        tk_failed := [(EPlain ''odd'', sample_record 0 3)]\<rparr>)"
proof -
  have "te_onProcess tx_env = None" by (simp add: tx_env_def)
  moreover have "te_run tx_env (tr_Record (NewTaskRecord (sample_record 0 3))) (tk_world new_task)
      = (Err (EPlain ''odd''), \<lparr>tx_pending = [sample_record 0 3], tx_committed = []\<rparr>)"
    by (simp add: tx_env_def NewTaskRecord_def new_task_def tx_fails_def sample_record_def)
  ultimately show ?thesis
    using process_classifies [of tx_env "NewTaskRecord (sample_record 0 3)" new_task "EPlain ''odd''"]
    by (simp add: NewTaskRecord_def new_task_def unwrap_until.simps)
qed


text \<open>A producer whose state is the number of times it will still fail.\<close>

definition flaky :: "string \<Rightarrow> nat \<Rightarrow> unit res \<times> nat" where
  "flaky name n = (if n = 0 then (Ok (), 0) else (Err (EProducer False True name), n - 1))"

definition flaky_producer :: "(nat, unit) producer_ops" where
  "flaky_producer = \<lparr>pr_transactional = True,
     pr_NewRecord = (\<lambda>k v t n now hs meta. \<lparr>kr_Key = k, kr_Value = v, kr_Topic = t, kr_Partition = n,
       kr_Offset = 0, kr_Timestamp = now, kr_Headers = hs\<rparr>),
     pr_ProduceSync = (\<lambda>r w. (Ok (0, 0), w)), pr_ProduceAsync = (\<lambda>r w. (Ok (), w)),
     pr_InitTransactions = flaky ''init'', pr_BeginTransaction = (\<lambda>w. (Ok (), w)),
     pr_SendOffsets = (\<lambda>offs m w. (Ok (), w)), pr_CommitTransaction = (\<lambda>w. (Ok (), w)),
     pr_AbortTransaction = flaky ''abort'', pr_Restart = (\<lambda>w. (Ok (), w)), pr_Close = (\<lambda>w. (Ok (), w))\<rparr>"

lemma flaky_recovers: "recovers flaky_producer (\<lambda>n. n)"
  by (auto simp: recovers_def flaky_producer_def flaky_def unwrap_until.simps)


end
