(* ===== verification/Node.thy ===== *)
theory Node
  imports Kafka
begin

text \<open>
  \<open>src/streams/topology/default_node.go\<close>, \<open>node.go\<close>, \<open>src/streams/processors\<close>, and the \<open>Run\<close> methods of \<open>ksource.go\<close>,
  \<open>ksink.go\<close> and \<open>global_table_node.go\<close>: the nodes of a built sub topology and how a record runs through them. A node has a
  processor and edges, pointers to other nodes in Go, here positions in the list of all nodes. Functions the user supplies
  (mappers, predicates) are part of the processor; they may change the surrounding state \<open>'w\<close> and may fail or panic.
  What the nodes reach outside of themselves, stores and the producer, is the record \<open>node_env\<close>.
\<close>

section \<open>Nodes\<close>

record node_id =
  ni_id :: int
  ni_path :: string
  ni_subTopologyID :: string

definition NewNodeId :: "int \<Rightarrow> string \<Rightarrow> string \<Rightarrow> node_id" where
  "NewNodeId i path sub = \<lparr>ni_id = i, ni_path = path, ni_subTopologyID = sub\<rparr>"

definition node_id_String :: "node_id \<Rightarrow> string" where
  "node_id_String n = show_int (ni_id n + 1)"

text \<open>The record context: the consumed record and the parameters bound by the source, the latest first.\<close>

record rec_ctx =
  rx_record :: krecord
  rx_params :: "(string \<times> goval) list"

definition NewRecordContext :: "krecord \<Rightarrow> rec_ctx" where
  "NewRecordContext r = \<lparr>rx_record = r, rx_params = []\<rparr>"

definition RecordFromContext :: "rec_ctx \<Rightarrow> krecord" where
  "RecordFromContext ctx = rx_record ctx"

text \<open>Stores are reached through the sub topology or, for global tables, through the store registry.\<close>

datatype store_ref = SubStore string | RegStore string

record ('w, 'm) node_env =
  ne_Get :: "store_ref \<Rightarrow> goval \<Rightarrow> 'w \<Rightarrow> goval res"
  ne_Set :: "store_ref \<Rightarrow> goval \<Rightarrow> goval \<Rightarrow> int \<Rightarrow> 'w \<Rightarrow> unit res \<times> 'w"
  ne_Delete :: "store_ref \<Rightarrow> goval \<Rightarrow> 'w \<Rightarrow> unit res \<times> 'w"
  ne_producer :: "('w, 'm) producer_ops"
  ne_now :: "'w \<Rightarrow> int"

text \<open>User functions. \<open>EachFunc\<close> has no result.\<close>

type_synonym ('w, 'a) user_fun = "rec_ctx \<Rightarrow> goval \<Rightarrow> goval \<Rightarrow> 'w \<Rightarrow> 'a res \<times> 'w"
type_synonym 'w lookup_fun = "rec_ctx \<Rightarrow> store_ref \<Rightarrow> goval \<Rightarrow> goval \<Rightarrow> 'w \<Rightarrow> goval res \<times> 'w"

datatype joiner_type = LeftJoin | RightJoin | InnerJoin | OuterJoin

definition joiner_type_String :: "joiner_type \<Rightarrow> string" where
  "joiner_type_String jt = (case jt of LeftJoin \<Rightarrow> ''LeftJoin'' | RightJoin \<Rightarrow> ''RightJoin''
    | InnerJoin \<Rightarrow> ''InnerJoin'' | OuterJoin \<Rightarrow> ''OuterJoin'')"

datatype join_side = LeftSide | RightSide

definition side_String :: "join_side \<Rightarrow> string" where
  "side_String s = (case s of LeftSide \<Rightarrow> ''Left'' | RightSide \<Rightarrow> ''Right'')"

record 'w stream_joiner =
  sj_OtherSideRequired :: bool
  sj_CurrentSide :: join_side
  sj_OtherStoreName :: string
  sj_ValueMapper :: "('w, goval) user_fun"
  sj_OtherSideLookupFunc :: "'w lookup_fun option"
  sj_OtherSideFilters :: "('w, bool) user_fun list"

record 'w window_joiner =
  wj_OtherSideRequired :: bool
  wj_CurrentSide :: join_side
  wj_Duration :: int
  wj_StoreName :: string
  wj_OtherStoreName :: string
  wj_ValueMapper :: "('w, goval) user_fun"

record 'w global_table_joiner =
  gj_Store :: string
  gj_KeyMapper :: "('w, goval) user_fun"
  gj_ValueMapper :: "('w, goval) user_fun"
  gj_JoinType :: joiner_type
  gj_RightKeyLookupFunc :: "'w lookup_fun option"

text \<open>
  \<open>AutoTopicOpts\<close> and the source. Other sources are referred to by their address in the builder. A topic name formatter
  is given the topic, the application id of the builder context and the node id.
\<close>

type_synonym topic_formatter = "string \<Rightarrow> string \<Rightarrow> node_id \<Rightarrow> string"

record auto_topic_opts =
  ao_nameFormatter :: "topic_formatter option"
  ao_partitionAs :: "nat option"
  ao_partitionCount :: int32
  ao_replicaCount :: int
  ao_configEntries :: "string \<rightharpoonup> string"

record ksource =
  src_Key :: "encoder option"
  src_Value :: "encoder option"
  src_topic :: string
  src_offsetReset :: int64
  src_coPartitionedWith :: "nat option"
  src_binders :: "(krecord \<Rightarrow> string \<times> goval) list"
  src_configs_name :: string
  src_configs :: topic_config
  src_autoCreate :: bool
  src_autoOpts :: auto_topic_opts
  src_internal :: bool
  src_global :: bool
  src_formatter :: "topic_formatter option"

record ksink =
  snk_Key :: "encoder option"
  snk_Value :: "encoder option"
  snk_topic :: string
  snk_numOfPartitions :: int32
  snk_partitioner :: "(rec_ctx \<Rightarrow> goval \<Rightarrow> goval \<Rightarrow> int32 \<Rightarrow> int32 res) option"
  snk_tombstoner :: "rec_ctx \<Rightarrow> goval \<Rightarrow> goval \<Rightarrow> bool"
  snk_headerExtractor :: "rec_ctx \<Rightarrow> goval \<Rightarrow> goval \<Rightarrow> record_header list"

datatype 'w processor =
    PMap "('w, goval \<times> goval) user_fun"
  | PValueMapper "('w, goval) user_fun"
  | PKeySelector "('w, goval) user_fun"
  | PFilter "('w, bool) user_fun"
  | PEach "rec_ctx \<Rightarrow> goval \<Rightarrow> goval \<Rightarrow> 'w \<Rightarrow> 'w"
  | PFlatMap "('w, (goval \<times> goval) list) user_fun"
  | PFlatMapValues "('w, goval list) user_fun"
  | PMerger
  | PBranch
  | PBranchChild string "('w, bool) user_fun"
  | PStreamConverter
  | PTableConverter string
  | PAggregator "rec_ctx \<Rightarrow> goval \<Rightarrow> goval \<Rightarrow> goval \<Rightarrow> 'w \<Rightarrow> goval res \<times> 'w" string
  | PStreamJoiner "'w stream_joiner"
  | PWindowJoiner "'w window_joiner"
  | PGlobalTableJoiner "'w global_table_joiner"
  | PGlobalTable string
  | PSource ksource
  | PSink ksink

record 'w node =
  nd_id :: node_id
  nd_name :: string
  nd_edges :: "nat list"
  nd_proc :: "'w processor"

section \<open>The default node\<close>

type_synonym run_result = "(goval \<times> goval \<times> bool) res"
type_synonym 'w run_fun = "rec_ctx \<Rightarrow> goval \<Rightarrow> goval \<Rightarrow> 'w \<Rightarrow> run_result \<times> 'w"

definition node_loc :: "'w node \<Rightarrow> string" where
  "node_loc n = '' at ['' @ ni_subTopologyID (nd_id n) @ ''.'' @ node_id_String (nd_id n) @ ''('' @ nd_name n @ '')]''"

definition node_WrapErr :: "'w node \<Rightarrow> gerror \<Rightarrow> gerror" where
  "node_WrapErr n err = EWrap (''node error'' @ node_loc n) err"

definition node_Err :: "'w node \<Rightarrow> string \<Rightarrow> gerror" where
  "node_Err n message = EPlain (message @ node_loc n)"

definition node_WrapErrWith :: "'w node \<Rightarrow> gerror \<Rightarrow> string \<Rightarrow> gerror" where
  "node_WrapErrWith n err message = EWrap (message @ node_loc n) err"

text \<open>The error results: an early return with the error of a call, changed by \<open>f\<close>.\<close>

definition onErr :: "(gerror \<Rightarrow> gerror) \<Rightarrow> ('w \<Rightarrow> 'a res \<times> 'w) \<Rightarrow> 'w \<Rightarrow> 'a res \<times> 'w" where
  "onErr f m w = (case m w of (Err e, w') \<Rightarrow> (Err (f e), w') | r \<Rightarrow> r)"

definition orWrap :: "'w node \<Rightarrow> string \<Rightarrow> ('w \<Rightarrow> 'a res \<times> 'w) \<Rightarrow> 'w \<Rightarrow> 'a res \<times> 'w" where
  "orWrap n message = onErr (\<lambda>e. node_WrapErrWith n e message)"

definition node_Ignore :: "'w \<Rightarrow> run_result \<times> 'w" where
  "node_Ignore = retR (GNil, GNil, False)"

definition node_Forward :: "(nat \<Rightarrow> 'w run_fun) \<Rightarrow> 'w node \<Rightarrow> rec_ctx \<Rightarrow> goval \<Rightarrow> goval \<Rightarrow> bool \<Rightarrow> 'w \<Rightarrow> run_result \<times> 'w" where
  "node_Forward run n ctx kIn vIn cont =
     bindR (forR (\<lambda>child. bindR (run child ctx kIn vIn) (\<lambda>_. retR ())) (nd_edges n))
       (\<lambda>_. retR (kIn, vIn, cont))"

fun node_ForwardAll :: "(nat \<Rightarrow> 'w run_fun) \<Rightarrow> 'w node \<Rightarrow> rec_ctx \<Rightarrow> (goval \<times> goval) list \<Rightarrow> bool
    \<Rightarrow> goval \<times> goval \<Rightarrow> 'w \<Rightarrow> run_result \<times> 'w" where
  "node_ForwardAll run n ctx [] cont out = retR (fst out, snd out, False)"
| "node_ForwardAll run n ctx ((k, v) # kvs) cont out =
     bindR (node_Forward run n ctx k v cont) (\<lambda>(k', v', _). node_ForwardAll run n ctx kvs cont (k', v'))"

section \<open>Stateless processors\<close>

definition map_Run :: "('w, goval \<times> goval) user_fun \<Rightarrow> (nat \<Rightarrow> 'w run_fun) \<Rightarrow> 'w node \<Rightarrow> 'w run_fun" where
  "map_Run f run n ctx kIn vIn =
     bindR (orWrap n ''transformer error'' (f ctx kIn vIn)) (\<lambda>(k, v). node_Forward run n ctx k v True)"

definition value_mapper_Run :: "('w, goval) user_fun \<Rightarrow> (nat \<Rightarrow> 'w run_fun) \<Rightarrow> 'w node \<Rightarrow> 'w run_fun" where
  "value_mapper_Run f run n ctx kIn vIn =
     bindR (orWrap n ''error in value transform function'' (f ctx kIn vIn)) (\<lambda>v. node_Forward run n ctx kIn v True)"

definition key_selector_Run :: "('w, goval) user_fun \<Rightarrow> (nat \<Rightarrow> 'w run_fun) \<Rightarrow> 'w node \<Rightarrow> 'w run_fun" where
  "key_selector_Run f run n ctx kIn vIn =
     bindR (orWrap n ''error in select key function'' (f ctx kIn vIn)) (\<lambda>k. node_Forward run n ctx k vIn True)"

definition filter_Run :: "('w, bool) user_fun \<Rightarrow> (nat \<Rightarrow> 'w run_fun) \<Rightarrow> 'w node \<Rightarrow> 'w run_fun" where
  "filter_Run f run n ctx kIn vIn =
     bindR (orWrap n ''filter error'' (f ctx kIn vIn))
       (\<lambda>ok. if \<not> ok then node_Ignore else node_Forward run n ctx kIn vIn True)"

definition each_Run :: "(rec_ctx \<Rightarrow> goval \<Rightarrow> goval \<Rightarrow> 'w \<Rightarrow> 'w) \<Rightarrow> (nat \<Rightarrow> 'w run_fun) \<Rightarrow> 'w node \<Rightarrow> 'w run_fun" where
  "each_Run f run n ctx kIn vIn w = node_Forward run n ctx kIn vIn True (f ctx kIn vIn w)"

text \<open>The flat maps return the continue flag of the last forward, and false when there is none.\<close>

fun flat_loop :: "(gerror \<Rightarrow> gerror) \<Rightarrow> (nat \<Rightarrow> 'w run_fun) \<Rightarrow> 'w node \<Rightarrow> rec_ctx \<Rightarrow> (goval \<times> goval) list \<Rightarrow> bool
    \<Rightarrow> 'w \<Rightarrow> run_result \<times> 'w" where
  "flat_loop err run n ctx [] nxt = retR (GNil, GNil, nxt)"
| "flat_loop err run n ctx ((k, v) # kvs) nxt =
     bindR (onErr err (node_Forward run n ctx k v True)) (\<lambda>(_, _, nxt'). flat_loop err run n ctx kvs nxt')"

definition flat_map_Run :: "('w, (goval \<times> goval) list) user_fun \<Rightarrow> (nat \<Rightarrow> 'w run_fun) \<Rightarrow> 'w node \<Rightarrow> 'w run_fun" where
  "flat_map_Run f run n ctx kIn vIn =
     bindR (orWrap n ''FlatMapFunc error'' (f ctx kIn vIn)) (\<lambda>kvs. flat_loop (node_WrapErr n) run n ctx kvs False)"

definition flat_map_values_Run :: "('w, goval list) user_fun \<Rightarrow> (nat \<Rightarrow> 'w run_fun) \<Rightarrow> 'w node \<Rightarrow> 'w run_fun" where
  "flat_map_values_Run f run n ctx kIn vIn =
     bindR (orWrap n ''FlatMapValues error'' (f ctx kIn vIn))
       (\<lambda>vs. flat_loop (\<lambda>e. node_WrapErrWith n e ''FlatMapValues error'') run n ctx (map (Pair kIn) vs) False)"

definition merger_Run :: "(nat \<Rightarrow> 'w run_fun) \<Rightarrow> 'w node \<Rightarrow> 'w run_fun" where
  "merger_Run run n ctx kIn vIn = node_Forward run n ctx kIn vIn True"

definition stream_converter_Run :: "(nat \<Rightarrow> 'w run_fun) \<Rightarrow> 'w node \<Rightarrow> 'w run_fun" where
  "stream_converter_Run run n ctx kIn vIn = node_Forward run n ctx kIn vIn True"

definition branch_child_Run :: "(nat \<Rightarrow> 'w run_fun) \<Rightarrow> 'w node \<Rightarrow> 'w run_fun" where
  "branch_child_Run run n ctx kIn vIn = node_Forward run n ctx kIn vIn True"

text \<open>
  The branch asks the predicates of its children in order and runs the first that accepts the record. A child that is
  not a \<open>BranchChild\<close> gives a nil pointer. The value it returns is the unset result variable \<open>kOut\<close>.
\<close>

fun branch_loop :: "'w node list \<Rightarrow> (nat \<Rightarrow> 'w run_fun) \<Rightarrow> 'w node \<Rightarrow> rec_ctx \<Rightarrow> goval \<Rightarrow> goval \<Rightarrow> nat list
    \<Rightarrow> 'w \<Rightarrow> unit res \<times> 'w" where
  "branch_loop g run n ctx kIn vIn [] = retR ()"
| "branch_loop g run n ctx kIn vIn (br # brs) =
     (case nd_proc (g ! br) of
        PBranchChild name predicate \<Rightarrow>
          bindR (orWrap n ''predicate error'' (predicate ctx kIn vIn)) (\<lambda>ok.
            if ok then onErr (node_WrapErr n) (bindR (run br ctx kIn vIn) (\<lambda>_. retR ()))
            else branch_loop g run n ctx kIn vIn brs)
      | _ \<Rightarrow> pureR (Panic ''nil pointer dereference''))"

definition branch_Run :: "'w node list \<Rightarrow> (nat \<Rightarrow> 'w run_fun) \<Rightarrow> 'w node \<Rightarrow> 'w run_fun" where
  "branch_Run g run n ctx kIn vIn =
     bindR (branch_loop g run n ctx kIn vIn (nd_edges n)) (\<lambda>_. retR (kIn, GNil, True))"

section \<open>Processors with a store\<close>

definition pureW :: "('w \<Rightarrow> 'a res) \<Rightarrow> 'w \<Rightarrow> 'a res \<times> 'w" where
  "pureW f w = (f w, w)"

definition table_converter_Run :: "('w, 'm) node_env \<Rightarrow> string \<Rightarrow> (nat \<Rightarrow> 'w run_fun) \<Rightarrow> 'w node \<Rightarrow> 'w run_fun" where
  "table_converter_Run env st run n ctx kIn vIn =
     bindR (orWrap n ''state-store write failed'' (ne_Set env (SubStore st) kIn vIn 0))
       (\<lambda>_. node_Forward run n ctx kIn vIn True)"

definition aggregator_Run :: "('w, 'm) node_env \<Rightarrow> (rec_ctx \<Rightarrow> goval \<Rightarrow> goval \<Rightarrow> goval \<Rightarrow> 'w \<Rightarrow> goval res \<times> 'w) \<Rightarrow> string
    \<Rightarrow> (nat \<Rightarrow> 'w run_fun) \<Rightarrow> 'w node \<Rightarrow> 'w run_fun" where
  "aggregator_Run env agg st run n ctx kIn vIn =
     bindR (orWrap n ''old value fetch failed'' (pureW (ne_Get env (SubStore st) kIn))) (\<lambda>oldAgg.
       bindR (orWrap n ''aggregator error'' (agg ctx kIn vIn oldAgg)) (\<lambda>newAgg.
         if newAgg = GNil then
           bindR (orWrap n ''aggregator delete failed'' (ne_Delete env (SubStore st) kIn))
             (\<lambda>_. node_Forward run n ctx kIn newAgg True)
         else
           bindR (orWrap n ''aggregator new value set failed'' (ne_Set env (SubStore st) kIn newAgg 0))
             (\<lambda>_. node_Forward run n ctx kIn newAgg True)))"

text \<open>The stream joiner: the value of the other side, turned to nil by the first filter that rejects it.\<close>

definition defaultLookupFunc :: "('w, 'm) node_env \<Rightarrow> 'w lookup_fun" where
  "defaultLookupFunc env ctx st key val = wrapR ''value lockup failed'' (pureW (ne_Get env st key))"

fun joiner_filters :: "'w node \<Rightarrow> rec_ctx \<Rightarrow> goval \<Rightarrow> goval \<Rightarrow> ('w, bool) user_fun list \<Rightarrow> 'w \<Rightarrow> goval res \<times> 'w" where
  "joiner_filters n ctx kIn val [] = retR val"
| "joiner_filters n ctx kIn val (f # fs) =
     bindR (orWrap n ''OtherSideFilters filter func failed'' (f ctx kIn val))
       (\<lambda>ok. if \<not> ok then retR GNil else joiner_filters n ctx kIn val fs)"

definition join_sides :: "join_side \<Rightarrow> goval \<Rightarrow> goval \<Rightarrow> goval \<times> goval" where
  "join_sides side vIn other = (case side of LeftSide \<Rightarrow> (vIn, other) | RightSide \<Rightarrow> (other, vIn))"

definition stream_joiner_Run :: "'w stream_joiner \<Rightarrow> (nat \<Rightarrow> 'w run_fun) \<Rightarrow> 'w node \<Rightarrow> 'w run_fun" where
  "stream_joiner_Run sj run n ctx kIn vIn =
     (case sj_OtherSideLookupFunc sj of
        None \<Rightarrow> pureR (Panic ''nil pointer dereference'')
      | Some lookup \<Rightarrow>
          bindR (orWrap n ''RightTable read failed'' (lookup ctx (SubStore (sj_OtherStoreName sj)) kIn vIn)) (\<lambda>val.
            bindR (if val = GNil then retR val else joiner_filters n ctx kIn val (sj_OtherSideFilters sj)) (\<lambda>val.
              if val = GNil \<and> sj_OtherSideRequired sj then node_Ignore
              else (case join_sides (sj_CurrentSide sj) vIn val of (l, r) \<Rightarrow>
                bindR (orWrap n ''value mapper failed'' (sj_ValueMapper sj ctx l r))
                  (\<lambda>joined. node_Forward run n ctx kIn joined True)))))"

definition window_joiner_Run :: "('w, 'm) node_env \<Rightarrow> 'w window_joiner \<Rightarrow> (nat \<Rightarrow> 'w run_fun) \<Rightarrow> 'w node \<Rightarrow> 'w run_fun" where
  "window_joiner_Run env wj run n ctx kIn vIn =
     bindR (orWrap n ''RightWindow read failed'' (pureW (ne_Get env (SubStore (wj_OtherStoreName wj)) kIn))) (\<lambda>other.
       if other = GNil \<and> wj_OtherSideRequired wj then
         bindR (orWrap n ''LeftWindow write failed'' (ne_Set env (SubStore (wj_StoreName wj)) kIn vIn (wj_Duration wj)))
           (\<lambda>_. node_Ignore)
       else (case join_sides (wj_CurrentSide wj) vIn other of (l, r) \<Rightarrow>
         bindR (orWrap n ''value mapper failed'' (wj_ValueMapper wj ctx l r))
           (\<lambda>joined. node_Forward run n ctx kIn joined True)))"

definition global_join :: "'w global_table_joiner \<Rightarrow> 'w node \<Rightarrow> rec_ctx \<Rightarrow> goval \<Rightarrow> goval \<Rightarrow> 'w \<Rightarrow> goval res \<times> 'w" where
  "global_join gj n ctx key leftVal =
     bindR (orWrap n ''KeyMapper error'' (gj_KeyMapper gj ctx key leftVal)) (\<lambda>k.
       (case gj_RightKeyLookupFunc gj of
          None \<Rightarrow> pureR (Panic ''nil pointer dereference'')
        | Some lookup \<Rightarrow>
            bindR (orWrap n (''cannot get value from ['' @ gj_Store gj @ ''] store'')
              (lookup ctx (RegStore (gj_Store gj)) k leftVal)) (\<lambda>rightValue.
                if gj_JoinType gj = InnerJoin \<and> rightValue = GNil then
                  pureR (Err (node_WrapErr n (EPlain (''right value lookup failed due to key dose not exist in ''
                    @ gj_Store gj @ '' store]''))))
                else orWrap n ''value mapper failed'' (gj_ValueMapper gj ctx leftVal rightValue))))"

definition global_table_joiner_Run :: "'w global_table_joiner \<Rightarrow> (nat \<Rightarrow> 'w run_fun) \<Rightarrow> 'w node \<Rightarrow> 'w run_fun" where
  "global_table_joiner_Run gj run n ctx kIn vIn =
     bindR (onErr (node_WrapErr n) (global_join gj n ctx kIn vIn)) (\<lambda>joined. node_Forward run n ctx kIn joined True)"

text \<open>A global table is fed by its changelog, not by this node.\<close>

definition global_table_Run :: "'w run_fun" where
  "global_table_Run ctx kIn vIn = retR (GNil, GNil, False)"

section \<open>Sources and sinks\<close>

definition bind_params :: "(krecord \<Rightarrow> string \<times> goval) list \<Rightarrow> rec_ctx \<Rightarrow> rec_ctx" where
  "bind_params binders ctx =
     fold (\<lambda>bind c. c\<lparr>rx_params := bind (RecordFromContext c) # rx_params c\<rparr>) binders ctx"

definition decode_with :: "encoder option \<Rightarrow> slice \<Rightarrow> goval res" where
  "decode_with enc b = (case enc of None \<Rightarrow> Panic ''nil pointer dereference'' | Some e \<Rightarrow> enc_decode e b)"

definition encode_with :: "encoder option \<Rightarrow> goval \<Rightarrow> slice res" where
  "encode_with enc v = (case enc of None \<Rightarrow> Panic ''nil pointer dereference'' | Some e \<Rightarrow> enc_encode e v)"

definition orEncodingErr :: "'w node \<Rightarrow> string \<Rightarrow> 'a res \<Rightarrow> 'w \<Rightarrow> 'a res \<times> 'w" where
  "orEncodingErr n message r = onErr (\<lambda>e. EEncoding (node_WrapErrWith n e message)) (pureR r)"

definition as_bytes :: "goval \<Rightarrow> slice res" where
  "as_bytes v = (case v of GBytes b \<Rightarrow> Ok b | _ \<Rightarrow> Panic ''interface conversion: not []uint8'')"

definition source_Run :: "ksource \<Rightarrow> (nat \<Rightarrow> 'w run_fun) \<Rightarrow> 'w node \<Rightarrow> 'w run_fun" where
  "source_Run s run n ctx kIn vIn =
     bindR (pureR (as_bytes kIn)) (\<lambda>kb.
       bindR (orEncodingErr n ''key decode error'' (decode_with (src_Key s) kb)) (\<lambda>k.
         (let ctx' = bind_params (src_binders s) ctx
          in bindR (pureR (as_bytes vIn)) (\<lambda>vb.
               if slice_len vb < 1 then node_Forward run n ctx' k GNil True
               else bindR (orEncodingErr n ''value decode error'' (decode_with (src_Value s) vb))
                 (\<lambda>v. node_Forward run n ctx' k v True)))))"

definition sink_Run :: "('w, 'm) node_env \<Rightarrow> ksink \<Rightarrow> 'w node \<Rightarrow> 'w run_fun" where
  "sink_Run env s n ctx kIn vIn w =
     (let recordTimestamp = ne_now env w;
          headers = snk_headerExtractor s ctx kIn vIn;
          pr = ne_producer env
      in bindR (case snk_partitioner s of
             None \<Rightarrow> retR PartitionAny
           | Some f \<Rightarrow> orWrap n ''record partitioner error'' (pureR (f ctx kIn vIn (snk_numOfPartitions s)))) (\<lambda>recordPartition.
           bindR (orEncodingErr n ''sink key encode error'' (encode_with (snk_Key s) kIn)) (\<lambda>keyByt.
             bindR (if vIn = GNil \<or> snk_tombstoner s ctx kIn vIn then retR None
                 else orEncodingErr n ''sink value encode error'' (encode_with (snk_Value s) vIn)) (\<lambda>recordValue.
               (let record = pr_NewRecord pr keyByt recordValue (snk_topic s) recordPartition recordTimestamp headers []
                in if pr_transactional pr then
                     bindR (orWrap n ''record produce failed'' (pr_ProduceAsync pr record)) (\<lambda>_. node_Ignore)
                   else
                     bindR (orWrap n ''record produce failed'' (pr_ProduceSync pr record)) (\<lambda>_. node_Ignore))))) w)"

section \<open>Running a node\<close>

definition processor_Run :: "('w, 'm) node_env \<Rightarrow> 'w node list \<Rightarrow> (nat \<Rightarrow> 'w run_fun) \<Rightarrow> 'w node \<Rightarrow> 'w run_fun" where
  "processor_Run env g run n = (case nd_proc n of
      PMap f \<Rightarrow> map_Run f run n
    | PValueMapper f \<Rightarrow> value_mapper_Run f run n
    | PKeySelector f \<Rightarrow> key_selector_Run f run n
    | PFilter f \<Rightarrow> filter_Run f run n
    | PEach f \<Rightarrow> each_Run f run n
    | PFlatMap f \<Rightarrow> flat_map_Run f run n
    | PFlatMapValues f \<Rightarrow> flat_map_values_Run f run n
    | PMerger \<Rightarrow> merger_Run run n
    | PBranch \<Rightarrow> branch_Run g run n
    | PBranchChild name predicate \<Rightarrow> branch_child_Run run n
    | PStreamConverter \<Rightarrow> stream_converter_Run run n
    | PTableConverter st \<Rightarrow> table_converter_Run env st run n
    | PAggregator agg st \<Rightarrow> aggregator_Run env agg st run n
    | PStreamJoiner sj \<Rightarrow> stream_joiner_Run sj run n
    | PWindowJoiner wj \<Rightarrow> window_joiner_Run env wj run n
    | PGlobalTableJoiner gj \<Rightarrow> global_table_joiner_Run gj run n
    | PGlobalTable st \<Rightarrow> global_table_Run
    | PSource s \<Rightarrow> source_Run s run n
    | PSink s \<Rightarrow> sink_Run env s n)"

text \<open>
  \<open>Run\<close> of the node at position \<open>i\<close>. A node calls its children on its own stack; the number is the depth of the stack, and a
  run that exceeds it ends as a Go program with an exhausted stack does.
\<close>

fun node_Run :: "('w, 'm) node_env \<Rightarrow> 'w node list \<Rightarrow> nat \<Rightarrow> nat \<Rightarrow> 'w run_fun" where
  "node_Run env g 0 i ctx k v = pureR (Panic ''stack overflow'')"
| "node_Run env g (Suc depth) i ctx k v = processor_Run env g (node_Run env g depth) (g ! i) ctx k v"

section \<open>Building nodes\<close>

text \<open>
  \<open>Build\<close> of a processor makes a copy with the user functions and the default node; the joiners fill in the default
  lookup. A source needs both encoders, and its copy is without the topic configuration and the global mark. The copy of a global
  table node has a new default node.
\<close>

definition source_Build :: "node_id \<Rightarrow> string \<Rightarrow> ksource \<Rightarrow> 'w node res" where
  "source_Build nid name s =
     (let n = \<lparr>nd_id = nid, nd_name = name, nd_edges = [], nd_proc = PSource s\<rparr>
      in if src_Key s = None then Err (node_Err n ''key encoder not provided'')
         else if src_Value s = None then Err (node_Err n ''val encoder not provided'')
         else Ok (n\<lparr>nd_proc := PSource (s\<lparr>src_configs_name := [], src_configs := \<lparr>tc_NumPartitions = 0,
           tc_ReplicationFactor = 0, tc_ConfigEntries = Map.empty, tc_Internal = False, tc_AutoCreate = False\<rparr>,
           src_global := False\<rparr>)\<rparr>))"

definition global_lookup :: "('w, 'm) node_env \<Rightarrow> 'w lookup_fun" where
  "global_lookup env ctx st key val = wrapR ''value loocup failed'' (pureW (ne_Get env st key))"

definition processor_Build :: "('w, 'm) node_env \<Rightarrow> node_id \<Rightarrow> string \<Rightarrow> 'w processor \<Rightarrow> 'w node res" where
  "processor_Build env nid name p =
     (let n = \<lparr>nd_id = nid, nd_name = name, nd_edges = [], nd_proc = p\<rparr>
      in case p of
           PSource s \<Rightarrow> source_Build nid name s
         | PStreamJoiner sj \<Rightarrow> Ok (n\<lparr>nd_proc := PStreamJoiner (sj\<lparr>sj_OtherSideLookupFunc :=
             Some (case sj_OtherSideLookupFunc sj of Some f \<Rightarrow> f | None \<Rightarrow> defaultLookupFunc env)\<rparr>)\<rparr>)
         | PGlobalTableJoiner gj \<Rightarrow> Ok (n\<lparr>nd_proc := PGlobalTableJoiner (gj\<lparr>gj_RightKeyLookupFunc :=
             Some (case gj_RightKeyLookupFunc gj of Some f \<Rightarrow> f | None \<Rightarrow> global_lookup env)\<rparr>)\<rparr>)
         | PGlobalTable st \<Rightarrow> Ok (n\<lparr>nd_id := NewNodeId 0 [] [], nd_name := []\<rparr>)
         | _ \<Rightarrow> Ok n)"

end
