(* ===== verification/Backend.thy ===== *)
theory Backend
  imports Prelude "HOL-Library.Sublist"
begin

text \<open>
  \<open>src/backend/backend.go\<close> and \<open>src/backend/iterator.go\<close>: the storage interfaces as records of
  operations, so that stores can be written against any backend as the Go code is, and the
  contracts of these interfaces as locales. \<open>'b\<close> is the state of a backend, \<open>'c\<close> of a cache over it,
  \<open>'i\<close> of an iterator (which holds a snapshot and needs no backend).
\<close>

section \<open>Interfaces\<close>

record 'i iter_ops =
  it_first :: "'i \<Rightarrow> 'i"
  it_last :: "'i \<Rightarrow> 'i"
  it_seek :: "bytes \<Rightarrow> 'i \<Rightarrow> 'i"
  it_next :: "'i \<Rightarrow> 'i"
  it_prev :: "'i \<Rightarrow> 'i"
  it_close :: "'i \<Rightarrow> 'i"
  it_key :: "'i \<Rightarrow> slice res"
  it_value :: "'i \<Rightarrow> slice res"
  it_valid :: "'i \<Rightarrow> bool"
  it_error :: "'i \<Rightarrow> gerror option"

record ('b, 'i) backend_ops =
  bk_name :: "'b \<Rightarrow> string"
  bk_persistent :: bool
  bk_close :: "'b \<Rightarrow> unit res \<times> 'b"
  bk_get :: "bytes \<Rightarrow> 'b \<Rightarrow> slice res"
  bk_prefixed :: "bytes \<Rightarrow> 'b \<Rightarrow> 'i res"
  bk_iterator :: "'b \<Rightarrow> 'i res"
  bk_set :: "bytes \<Rightarrow> slice \<Rightarrow> int \<Rightarrow> 'b \<Rightarrow> unit res \<times> 'b"
  bk_delete :: "bytes \<Rightarrow> 'b \<Rightarrow> unit res \<times> 'b"
  bk_deleteAll :: "'b \<Rightarrow> unit res \<times> 'b"
  bk_flush :: "'b \<Rightarrow> unit res \<times> 'b"
  bk_setAll :: "(bytes \<times> slice) list \<Rightarrow> int \<Rightarrow> 'b \<Rightarrow> unit res \<times> 'b"

text \<open>The \<open>Cache\<close> interface: reads fall through to the backend, \<open>Flush\<close> writes to it.\<close>

record ('c, 'b, 'i) cache_ops =
  ch_new :: "'b \<Rightarrow> 'c"
  ch_get :: "bytes \<Rightarrow> 'c \<Rightarrow> 'b \<Rightarrow> slice res"
  ch_prefixed :: "bytes \<Rightarrow> 'c \<Rightarrow> 'b \<Rightarrow> 'i res"
  ch_iterator :: "'c \<Rightarrow> 'b \<Rightarrow> 'i res"
  ch_set :: "bytes \<Rightarrow> slice \<Rightarrow> int \<Rightarrow> 'c \<Rightarrow> unit res \<times> 'c"
  ch_delete :: "bytes \<Rightarrow> 'c \<Rightarrow> unit res \<times> 'c"
  ch_deleteAll :: "'c \<Rightarrow> unit res \<times> 'c"
  ch_flush :: "'c \<times> 'b \<Rightarrow> unit res \<times> ('c \<times> 'b)"
  ch_close :: "'c \<Rightarrow> unit res \<times> 'c"
  ch_reset :: "'c \<Rightarrow> 'c"

section \<open>Iterating\<close>

text \<open>
  The loop \<open>for itr.SeekToFirst(); itr.Valid(); itr.Next() { ... }\<close> from the position after
  \<open>SeekToFirst\<close>, with a body that may return early. \<open>None\<close>: the loop does not end.
\<close>

partial_function (option) iter_loop ::
  "'i iter_ops \<Rightarrow> ('i \<Rightarrow> 's \<Rightarrow> unit res \<times> 's) \<Rightarrow> 'i \<Rightarrow> 's \<Rightarrow> (unit res \<times> 's) option" where
  "iter_loop io body i s =
     (if it_valid io i then
        (case body i s of
           (Ok u, s') \<Rightarrow> iter_loop io body (it_next io i) s'
         | (Err e, s') \<Rightarrow> Some (Err e, s')
         | (Panic p, s') \<Rightarrow> Some (Panic p, s'))
      else Some (Ok (), s))"

text \<open>
  The contract of an iterator: \<open>left i\<close> is what it still has to deliver. An iterator that keeps it
  ends, and its loop visits exactly these entries in order.
\<close>

locale iterator =
  fixes io :: "'i iter_ops" and left :: "'i \<Rightarrow> (bytes \<times> slice) list" and ok :: "'i \<Rightarrow> bool"
  assumes valid_left: "ok i \<Longrightarrow> it_valid io i \<longleftrightarrow> left i \<noteq> []"
    and key_left: "ok i \<Longrightarrow> left i = (k, v) # r \<Longrightarrow> it_key io i = Ok (Some k)"
    and value_left: "ok i \<Longrightarrow> left i = (k, v) # r \<Longrightarrow> it_value io i = Ok v"
    and next_left: "ok i \<Longrightarrow> left i = (k, v) # r \<Longrightarrow> left (it_next io i) = r \<and> ok (it_next io i)"
    and first_again: "ok (it_first io i) \<Longrightarrow>
      left (it_first io (it_first io i)) = left (it_first io i) \<and> ok (it_first io (it_first io i))"
begin

lemma iter_loop_forR:
  assumes "ok i"
    and "\<And>j s k v r. ok j \<Longrightarrow> left j = (k, v) # r \<Longrightarrow> body j s = f (k, v) s"
  shows "iter_loop io body i s = Some (forR f (left i) s)"
  using assms(1)
proof (induction "left i" arbitrary: i s)
  case Nil
  then show ?case using valid_left [of i] by (subst iter_loop.simps) (simp flip: Nil.hyps)
next
  case (Cons x r)
  obtain k v where x: "x = (k, v)" by force
  with Cons.hyps(2) have l: "left i = (k, v) # r" by simp
  from next_left [OF Cons.prems l] have n: "left (it_next io i) = r" "ok (it_next io i)"
    by simp_all
  show ?case
    using valid_left [OF Cons.prems] l n assms(2) [OF Cons.prems l]
      Cons.hyps(1) [of "it_next io i"]
    by (subst iter_loop.simps)
      (auto simp: bindR_def split: prod.splits res.splits)
qed

end

section \<open>The contract of a backend\<close>

text \<open>
  \<open>view b k\<close> is the value a reader finds under \<open>k\<close>. Reading returns it, writing a non-nil value and
  deleting change exactly that key.
\<close>

locale backend =
  fixes bk :: "('b, 'i) backend_ops" and view :: "'b \<Rightarrow> bytes \<Rightarrow> slice" and inv :: "'b \<Rightarrow> bool"
  assumes get_view: "inv b \<Longrightarrow> bk_get bk k b = Ok (view b k)"
    and set_view: "inv b \<Longrightarrow>
      \<exists>b'. bk_set bk k (Some v) x b = (Ok (), b') \<and> inv b' \<and> view b' = (view b)(k := Some v)"
    and delete_view: "inv b \<Longrightarrow>
      \<exists>b'. bk_delete bk k b = (Ok (), b') \<and> inv b' \<and> view b' = (view b)(k := None)"
begin

lemma setE:
  assumes "inv b"
  obtains b' where "bk_set bk k (Some v) x b = (Ok (), b')" "inv b'"
    "view b' = (view b)(k := Some v)"
  using set_view [OF assms] by blast

lemma deleteE:
  assumes "inv b"
  obtains b' where "bk_delete bk k b = (Ok (), b')" "inv b'" "view b' = (view b)(k := None)"
  using delete_view [OF assms] by blast

lemma set_all_view:
  assumes "inv b"
  shows "\<exists>b'. forR (\<lambda>(k, v). bk_set bk k (Some v) x) kvs b = (Ok (), b') \<and> inv b' \<and>
    view b' = (\<lambda>k. case map_of (rev kvs) k of None \<Rightarrow> view b k | Some v \<Rightarrow> Some v)"
  using assms
proof (induction kvs arbitrary: b)
  case Nil
  then show ?case by simp
next
  case (Cons kv kvs)
  obtain k v where kv: "kv = (k, v)" by force
  obtain b1 where b1: "bk_set bk k (Some v) x b = (Ok (), b1)" "inv b1"
    "view b1 = (view b)(k := Some v)" using setE [OF Cons.prems] by blast
  from Cons.IH [OF b1(2)] obtain b2 where
    "forR (\<lambda>(k, v). bk_set bk k (Some v) x) kvs b1 = (Ok (), b2)" "inv b2"
    "view b2 = (\<lambda>k. case map_of (rev kvs) k of None \<Rightarrow> view b1 k | Some v \<Rightarrow> Some v)"
    by blast
  then show ?case
    by (auto simp: kv b1 bindR_def map_add_def fun_eq_iff split: option.splits)
qed

end

text \<open>
  A backend whose full iterator delivers every stored key once with its value, in some order.
\<close>

locale scan_backend = backend bk view inv + iterator io left ok
  for bk :: "('b, 'i) backend_ops" and view inv and io :: "'i iter_ops" and left ok +
  fixes entries :: "'b \<Rightarrow> (bytes \<times> slice) list"
  assumes entries_distinct: "inv b \<Longrightarrow> distinct (map fst (entries b))"
    and entries_view: "inv b \<Longrightarrow> view b k = (case map_of (entries b) k of None \<Rightarrow> None | Some v \<Rightarrow> v)"
    and iterator_entries: "inv b \<Longrightarrow>
      \<exists>i. bk_iterator bk b = Ok i \<and> ok (it_first io i) \<and> left (it_first io i) = entries b"
begin

lemma scan_all:
  assumes "inv b" and "\<And>j s k v r. ok j \<Longrightarrow> left j = (k, v) # r \<Longrightarrow> body j s = f (k, v) s"
  obtains i where "bk_iterator bk b = Ok i"
    "iter_loop io body (it_first io i) s = Some (forR f (entries b) s)"
  using iterator_entries [OF assms(1)] iter_loop_forR assms(2) by metis

end

text \<open>A backend that also iterates over the keys with a given prefix.\<close>

locale prefix_backend = scan_backend bk view inv io left ok entries
  for bk :: "('b, 'i) backend_ops" and view inv and io :: "'i iter_ops" and left ok entries +
  assumes prefixed_entries: "inv b \<Longrightarrow>
      \<exists>i. bk_prefixed bk p b = Ok i \<and> ok (it_first io i) \<and>
        left (it_first io i) = filter (\<lambda>(k, _). prefix p k) (entries b)"
begin

lemma scan_prefix:
  assumes "inv b" and "\<And>j s k v r. ok j \<Longrightarrow> left j = (k, v) # r \<Longrightarrow> body j s = f (k, v) s"
  obtains i where "bk_prefixed bk p b = Ok i"
    "iter_loop io body (it_first io i) s
      = Some (forR f (filter (\<lambda>(k, _). prefix p k) (entries b)) s)"
  using prefixed_entries [OF assms(1)] iter_loop_forR assms(2) by metis

end

section \<open>The contract of a cache\<close>

text \<open>
  \<open>over c b k\<close> is what a reader finds under \<open>k\<close> through the cache \<open>c\<close> of backend \<open>b\<close>: the pending writes
  shadow the backend. \<open>Flush\<close> moves them into the backend, \<open>Reset\<close> forgets them.
\<close>

locale cache =
  fixes ch :: "('c, 'b, 'i) cache_ops" and view :: "'b \<Rightarrow> bytes \<Rightarrow> slice" and inv :: "'b \<Rightarrow> bool"
    and over :: "'c \<Rightarrow> 'b \<Rightarrow> bytes \<Rightarrow> slice"
  assumes get_over: "inv b \<Longrightarrow> ch_get ch k c b = Ok (over c b k)"
    and new_over: "over (ch_new ch b) b = view b"
    and set_over: "\<exists>c'. ch_set ch k v x c = (Ok (), c') \<and>
      (\<forall>b. over c' b = (over c b)(k := Some (slice_bytes v)))"
    and delete_over: "\<exists>c'. ch_delete ch k c = (Ok (), c') \<and> (\<forall>b. over c' b = (over c b)(k := None))"
    and flush_over: "inv b \<Longrightarrow>
      \<exists>c' b'. ch_flush ch (c, b) = (Ok (), c', b') \<and> inv b' \<and> view b' = over c b"
    and reset_over: "over (ch_reset ch c) b = view b"
begin

lemma setE:
  obtains c' where "ch_set ch k v x c = (Ok (), c')"
    "\<And>b. over c' b = (over c b)(k := Some (slice_bytes v))"
  using set_over by blast

lemma deleteE:
  obtains c' where "ch_delete ch k c = (Ok (), c')" "\<And>b. over c' b = (over c b)(k := None)"
  using delete_over by blast

lemma flushE:
  assumes "inv b"
  obtains c' b' where "ch_flush ch (c, b) = (Ok (), c', b')" "inv b'" "view b' = over c b"
  using flush_over [OF assms] by blast

end

end
