(* ===== verification/Memory.thy ===== *)
theory Memory
  imports Backend "HOL-Library.AList"
begin

text \<open>
  \<open>src/backend/memory\<close>: the in-memory backend. The \<open>sync.Map\<close> of records is an association list
  with distinct keys; the order in which Go ranges over it is not specified, the list stands for
  one such order and no theorem depends on which. \<open>mem_now\<close> is the wall clock the operations
  read. Durations and times are nanoseconds. Metrics are left out.
\<close>

section \<open>State\<close>

record byte_record =
  br_key :: bytes
  br_value :: slice
  br_createdAt :: int
  br_expiry :: int

record memory =
  mem_name :: string
  mem_globalRecordExpiry :: int
  mem_recordExpiryEnabled :: bool
  mem_cleanupInterval :: int
  mem_records :: "(bytes \<times> byte_record) list option"
  mem_now :: int

record mem_config =
  cf_RecordExpiryEnabled :: bool
  cf_RecordExpiry :: int
  cf_ExpiredRecordCleanupInterval :: int

definition mem_config_parse :: "mem_config \<Rightarrow> mem_config" where
  "mem_config_parse c =
     (if cf_ExpiredRecordCleanupInterval c = 0
      then c\<lparr>cf_ExpiredRecordCleanupInterval := 10 * 1000000000\<rparr> else c)"

definition mem_NewConfig :: mem_config where
  "mem_NewConfig = mem_config_parse
     \<lparr>cf_RecordExpiryEnabled = False, cf_RecordExpiry = 0, cf_ExpiredRecordCleanupInterval = 0\<rparr>"

definition NewMemoryBackend :: "string \<Rightarrow> mem_config \<Rightarrow> int \<Rightarrow> memory" where
  "NewMemoryBackend name config now =
     \<lparr>mem_name = name, mem_globalRecordExpiry = cf_RecordExpiry config,
      mem_recordExpiryEnabled = cf_RecordExpiryEnabled config,
      mem_cleanupInterval = cf_ExpiredRecordCleanupInterval config,
      mem_records = Some [], mem_now = now\<rparr>"

section \<open>Operations\<close>

definition nil_map :: string where
  "nil_map = ''nil pointer dereference''"

text \<open>\<open>snapshot\<close>; \<open>records\<close> is nil after \<open>Close\<close>, and any access then panics.\<close>

definition mem_snapshot :: "memory \<Rightarrow> byte_record list res" where
  "mem_snapshot m =
     (case mem_records m of None \<Rightarrow> Panic nil_map | Some rs \<Rightarrow> Ok (map snd rs))"

definition mem_Set :: "bytes \<Rightarrow> slice \<Rightarrow> int \<Rightarrow> memory \<Rightarrow> unit res \<times> memory" where
  "mem_Set key value expiry m =
     (case mem_records m of
        None \<Rightarrow> (Panic nil_map, m)
      | Some rs \<Rightarrow>
          (let r = \<lparr>br_key = key, br_value = value, br_createdAt = mem_now m, br_expiry = expiry\<rparr>
           in (Ok (), m\<lparr>mem_records := Some (AList.update key r rs)\<rparr>)))"

definition mem_Get :: "bytes \<Rightarrow> memory \<Rightarrow> slice res" where
  "mem_Get key m =
     (case mem_records m of
        None \<Rightarrow> Panic nil_map
      | Some rs \<Rightarrow> (case map_of rs key of None \<Rightarrow> Ok None | Some r \<Rightarrow> Ok (br_value r)))"

definition mem_Delete :: "bytes \<Rightarrow> memory \<Rightarrow> unit res \<times> memory" where
  "mem_Delete key m =
     (case mem_records m of
        None \<Rightarrow> (Panic nil_map, m)
      | Some rs \<Rightarrow> (Ok (), m\<lparr>mem_records := Some (AList.delete key rs)\<rparr>))"

definition mem_DeleteAll :: "memory \<Rightarrow> unit res \<times> memory" where
  "mem_DeleteAll m = (Ok (), m)"

definition mem_Flush :: "memory \<Rightarrow> unit res \<times> memory" where
  "mem_Flush m = (Panic ''not yet supported'', m)"

definition mem_SetAll :: "(bytes \<times> slice) list \<Rightarrow> int \<Rightarrow> memory \<Rightarrow> unit res \<times> memory" where
  "mem_SetAll kvs expiry m = (Panic ''not yet supported'', m)"

definition mem_Close :: "memory \<Rightarrow> unit res \<times> memory" where
  "mem_Close m = (Ok (), m\<lparr>mem_records := None\<rparr>)"

subsection \<open>Expiry\<close>

text \<open>The condition of \<open>runCleaner\<close>; \<open>&&\<close> binds tighter than \<open>||\<close>.\<close>

definition mem_expired :: "memory \<Rightarrow> int \<Rightarrow> byte_record \<Rightarrow> bool" where
  "mem_expired m now r =
     (let age = now - br_createdAt r
      in (br_expiry r > 0 \<and> age > br_expiry r) \<or>
         mem_globalRecordExpiry m > 0 \<and> age > mem_globalRecordExpiry m)"

text \<open>
  One tick of \<open>runCleaner\<close>: take a snapshot, then go through it deleting by key. The two parts are
  separate, since other goroutines may run in between.
\<close>

definition mem_cleanLoop :: "byte_record list \<Rightarrow> memory \<Rightarrow> unit res \<times> memory" where
  "mem_cleanLoop records =
     forR (\<lambda>r m. if mem_expired m (mem_now m) r then mem_Delete (br_key r) m else (Ok (), m)) records"

definition mem_runCleaner :: "memory \<Rightarrow> unit res \<times> memory" where
  "mem_runCleaner m =
     (case mem_snapshot m of
        Ok records \<Rightarrow> mem_cleanLoop records m
      | Err e \<Rightarrow> (Err e, m)
      | Panic p \<Rightarrow> (Panic p, m))"

subsection \<open>The iterator\<close>

record mem_iter =
  mi_records :: "byte_record list"
  mi_currentKey :: int
  mi_valid :: bool

definition NewMemoryIterator :: "byte_record list \<Rightarrow> mem_iter" where
  "NewMemoryIterator records =
     \<lparr>mi_records = records, mi_currentKey = 0, mi_valid = (length records > 0)\<rparr>"

definition mi_SeekToFirst :: "mem_iter \<Rightarrow> mem_iter" where
  "mi_SeekToFirst i = i\<lparr>mi_currentKey := 0\<rparr>"

definition mi_SeekToLast :: "mem_iter \<Rightarrow> mem_iter" where
  "mi_SeekToLast i = i\<lparr>mi_currentKey := int (length (mi_records i)) - 1\<rparr>"

definition mi_Seek :: "bytes \<Rightarrow> mem_iter \<Rightarrow> mem_iter" where
  "mi_Seek key i =
     fold (\<lambda>(idx, r) i. if br_key r = key then i\<lparr>mi_currentKey := int idx\<rparr> else i)
       (enumerate 0 (mi_records i)) i"

definition mi_Next :: "mem_iter \<Rightarrow> mem_iter" where
  "mi_Next i =
     (if mi_currentKey i = int (length (mi_records i)) - 1 then i\<lparr>mi_valid := False\<rparr>
      else i\<lparr>mi_currentKey := mi_currentKey i + 1\<rparr>)"

definition mi_Prev :: "mem_iter \<Rightarrow> mem_iter" where
  "mi_Prev i =
     (if mi_currentKey i \<le> 0 then i\<lparr>mi_valid := False\<rparr>
      else i\<lparr>mi_currentKey := mi_currentKey i - 1\<rparr>)"

definition mi_Close :: "mem_iter \<Rightarrow> mem_iter" where
  "mi_Close i = i\<lparr>mi_records := []\<rparr>"

definition mi_current :: "mem_iter \<Rightarrow> byte_record res" where
  "mi_current i =
     (if 0 \<le> mi_currentKey i \<and> mi_currentKey i < int (length (mi_records i))
      then Ok (mi_records i ! nat (mi_currentKey i)) else Panic ''index out of range'')"

definition mi_Key :: "mem_iter \<Rightarrow> slice res" where
  "mi_Key i = bind_res (mi_current i) (\<lambda>r. Ok (Some (br_key r)))"

definition mi_Value :: "mem_iter \<Rightarrow> slice res" where
  "mi_Value i = bind_res (mi_current i) (\<lambda>r. Ok (br_value r))"

definition mi_Valid :: "mem_iter \<Rightarrow> bool" where
  "mi_Valid i = mi_valid i"

definition mi_Error :: "mem_iter \<Rightarrow> gerror option" where
  "mi_Error i = None"

definition mem_iter_ops :: "mem_iter iter_ops" where
  "mem_iter_ops = \<lparr>it_first = mi_SeekToFirst, it_last = mi_SeekToLast, it_seek = mi_Seek,
     it_next = mi_Next, it_prev = mi_Prev, it_close = mi_Close, it_key = mi_Key,
     it_value = mi_Value, it_valid = mi_Valid, it_error = mi_Error\<rparr>"

definition mem_Iterator :: "memory \<Rightarrow> mem_iter res" where
  "mem_Iterator m = bind_res (mem_snapshot m) (\<lambda>rs. Ok (NewMemoryIterator rs))"

definition mem_PrefixedIterator :: "bytes \<Rightarrow> memory \<Rightarrow> mem_iter res" where
  "mem_PrefixedIterator keyPrefix m = Panic ''memory backend does not support PrefixedIterator''"

text \<open>The memory backend as a value of the \<open>Backend\<close> interface.\<close>

definition memory_backend :: "(memory, mem_iter) backend_ops" where
  "memory_backend = \<lparr>bk_name = mem_name, bk_persistent = False, bk_close = mem_Close,
     bk_get = mem_Get, bk_prefixed = mem_PrefixedIterator, bk_iterator = mem_Iterator,
     bk_set = mem_Set, bk_delete = mem_Delete, bk_deleteAll = mem_DeleteAll,
     bk_flush = mem_Flush, bk_setAll = mem_SetAll\<rparr>"

section \<open>The backend keeps the contract\<close>

definition mem_view :: "memory \<Rightarrow> bytes \<Rightarrow> slice" where
  "mem_view m k =
     (case mem_records m of None \<Rightarrow> None
      | Some rs \<Rightarrow> (case map_of rs k of None \<Rightarrow> None | Some r \<Rightarrow> br_value r))"

definition mem_inv :: "memory \<Rightarrow> bool" where
  "mem_inv m = (case mem_records m of None \<Rightarrow> False
     | Some rs \<Rightarrow> distinct (map fst rs) \<and> (\<forall>(k, r) \<in> set rs. br_key r = k))"

definition mem_entries :: "memory \<Rightarrow> (bytes \<times> slice) list" where
  "mem_entries m = (case mem_records m of None \<Rightarrow> [] | Some rs \<Rightarrow> map (\<lambda>(k, r). (k, br_value r)) rs)"

definition mi_left :: "mem_iter \<Rightarrow> (bytes \<times> slice) list" where
  "mi_left i = (if mi_valid i then map (\<lambda>r. (br_key r, br_value r)) (drop (nat (mi_currentKey i)) (mi_records i))
     else [])"

definition mi_ok :: "mem_iter \<Rightarrow> bool" where
  "mi_ok i = (mi_valid i \<longrightarrow> 0 \<le> mi_currentKey i \<and> mi_currentKey i < int (length (mi_records i)))"

lemma mem_inv_new [simp]: "mem_inv (NewMemoryBackend n c t)"
  by (simp add: mem_inv_def NewMemoryBackend_def)

lemma in_set_update: "(k, v) \<in> set (AList.update k' v' al) \<Longrightarrow> (k, v) = (k', v') \<or> (k, v) \<in> set al"
  by (induction al) (auto split: if_splits)

lemma mem_Set_spec:
  assumes "mem_inv m"
  shows "\<exists>m'. mem_Set k v x m = (Ok (), m') \<and> mem_inv m' \<and> mem_view m' = (mem_view m)(k := v)"
  using assms
  by (auto simp: mem_inv_def mem_Set_def mem_view_def fun_eq_iff distinct_update update_conv'
      split: option.splits dest!: in_set_update)

lemma in_set_delete: "(k, v) \<in> set (AList.delete k' al) \<Longrightarrow> (k, v) \<in> set al"
  by (induction al) (auto split: if_splits)

lemma mem_Delete_spec:
  assumes "mem_inv m"
  shows "\<exists>m'. mem_Delete k m = (Ok (), m') \<and> mem_inv m' \<and> mem_view m' = (mem_view m)(k := None)"
  using assms
  by (auto simp: mem_inv_def mem_Delete_def mem_view_def fun_eq_iff distinct_delete delete_conv'
      split: option.splits dest!: in_set_delete)

lemma mem_next_left:
  assumes "mi_ok i" "mi_left i = (k, v) # r"
  shows "mi_left (mi_Next i) = r \<and> mi_ok (mi_Next i)"
proof -
  let ?n = "nat (mi_currentKey i)"
  from assms have v: "mi_valid i" and b: "0 \<le> mi_currentKey i" "?n < length (mi_records i)"
    by (auto simp: mi_left_def mi_ok_def split: if_splits)
  then have "drop ?n (mi_records i) = mi_records i ! ?n # drop (Suc ?n) (mi_records i)"
    by (simp add: Cons_nth_drop_Suc)
  then have r: "r = map (\<lambda>r. (br_key r, br_value r)) (drop (Suc ?n) (mi_records i))"
    using assms(2) v by (simp add: mi_left_def)
  show ?thesis
  proof (cases "mi_currentKey i = int (length (mi_records i)) - 1")
    case True
    then show ?thesis using r by (simp add: mi_Next_def mi_left_def mi_ok_def)
  next
    case False
    have "nat (mi_currentKey i + 1) = Suc ?n" using b by simp
    then show ?thesis using False v b r by (auto simp: mi_Next_def mi_left_def mi_ok_def)
  qed
qed

lemma mem_left_current:
  assumes "mi_ok i" "mi_left i = (k, v) # r"
  shows "mi_Key i = Ok (Some k)" "mi_Value i = Ok v"
proof -
  let ?n = "nat (mi_currentKey i)"
  from assms have val: "mi_valid i" and b: "0 \<le> mi_currentKey i" "?n < length (mi_records i)"
    by (auto simp: mi_left_def mi_ok_def split: if_splits)
  then have "drop ?n (mi_records i) = mi_records i ! ?n # drop (Suc ?n) (mi_records i)"
    by (simp add: Cons_nth_drop_Suc)
  then have "br_key (mi_records i ! ?n) = k" "br_value (mi_records i ! ?n) = v"
    using assms(2) val by (simp_all add: mi_left_def)
  moreover have "mi_currentKey i < int (length (mi_records i))" using b by linarith
  ultimately show "mi_Key i = Ok (Some k)" "mi_Value i = Ok v"
    using b by (simp_all add: mi_Key_def mi_Value_def mi_current_def)
qed

lemma mem_iterator_left:
  assumes "mem_inv m"
  obtains i where "mem_Iterator m = Ok i" "mi_ok (mi_SeekToFirst i)"
    "mi_left (mi_SeekToFirst i) = mem_entries m"
proof -
  from assms obtain rs where rs: "mem_records m = Some rs" "\<forall>(k, r) \<in> set rs. br_key r = k"
    by (auto simp: mem_inv_def split: option.splits)
  let ?i = "NewMemoryIterator (map snd rs)"
  have "mem_Iterator m = Ok ?i" by (simp add: rs mem_Iterator_def mem_snapshot_def)
  moreover have "mi_ok (mi_SeekToFirst ?i)"
    by (simp add: mi_ok_def mi_SeekToFirst_def NewMemoryIterator_def)
  moreover have "mi_left (mi_SeekToFirst ?i) = mem_entries m"
    using rs(2) by (auto simp: rs(1) mi_left_def mi_SeekToFirst_def NewMemoryIterator_def mem_entries_def)
  ultimately show thesis by (rule that)
qed

lemma mem_entries_keys:
  "mem_inv m \<Longrightarrow> map fst (mem_entries m) = map fst (the (mem_records m))"
  by (auto simp: mem_inv_def mem_entries_def split: option.splits)

lemma mem_view_entries:
  "mem_view m k = (case map_of (mem_entries m) k of None \<Rightarrow> None | Some v \<Rightarrow> v)"
proof (cases "mem_records m")
  case (Some rs)
  have "map_of (map (\<lambda>(k, r). (k, br_value r)) rs) k = map_option br_value (map_of rs k)"
    by (induction rs) auto
  with Some show ?thesis by (simp add: mem_view_def mem_entries_def split: option.splits)
qed (simp add: mem_view_def mem_entries_def)

interpretation memb: scan_backend memory_backend mem_view mem_inv mem_iter_ops mi_left mi_ok mem_entries
proof (unfold_locales, goal_cases)
  case (1 b k)
  then show ?case
    by (auto simp: memory_backend_def mem_Get_def mem_view_def mem_inv_def split: option.splits)
next
  case (2 b k v x)
  then show ?case using mem_Set_spec by (simp add: memory_backend_def)
next
  case (3 b k)
  then show ?case using mem_Delete_spec by (simp add: memory_backend_def)
next
  case (4 i)
  then show ?case by (auto simp: mem_iter_ops_def mi_Valid_def mi_left_def mi_ok_def)
next
  case (5 i k v r)
  then show ?case using mem_left_current by (simp add: mem_iter_ops_def)
next
  case (6 i k v r)
  then show ?case using mem_left_current by (simp add: mem_iter_ops_def)
next
  case (7 i k v r)
  then show ?case using mem_next_left by (simp add: mem_iter_ops_def)
next
  case (8 i)
  then show ?case by (simp add: mem_iter_ops_def mi_SeekToFirst_def mi_left_def mi_ok_def)
next
  case (9 b)
  then show ?case
    by (simp add: mem_entries_keys) (auto simp: mem_inv_def split: option.splits)
next
  case (10 b k)
  then show ?case using mem_view_entries by blast
next
  case (11 b)
  then show ?case
    by (auto simp: memory_backend_def mem_iter_ops_def elim!: mem_iterator_left [of b])
qed

section \<open>Properties\<close>

lemma clean_loop:
  assumes "mem_inv m" "mem_records m = Some rs" "\<forall>r \<in> set snap. mem_expired m (mem_now m) r \<longrightarrow> P (br_key r)"
    "\<forall>k. P k \<longrightarrow> (\<exists>r \<in> set snap. br_key r = k \<and> mem_expired m (mem_now m) r)"
  shows "\<exists>rs'. mem_cleanLoop snap m = (Ok (), m\<lparr>mem_records := Some rs'\<rparr>) \<and>
    mem_inv (m\<lparr>mem_records := Some rs'\<rparr>) \<and>
    (\<forall>k. map_of rs' k = (if P k then None else map_of rs k))"
  using assms
proof (induction snap arbitrary: m rs P)
  case Nil
  have e: "m\<lparr>mem_records := Some rs\<rparr> = m" using Nil.prems(2) by (cases m) simp
  have "mem_cleanLoop [] m = (Ok (), m\<lparr>mem_records := Some rs\<rparr>) \<and>
    mem_inv (m\<lparr>mem_records := Some rs\<rparr>) \<and> (\<forall>k. map_of rs k = (if P k then None else map_of rs k))"
    unfolding e using Nil by (auto simp: mem_cleanLoop_def)
  then show ?case by blast
next
  case (Cons r snap)
  let ?f = "\<lambda>r m. if mem_expired m (mem_now m) r then mem_Delete (br_key r) m else (Ok (), m)"
  let ?rs = "if mem_expired m (mem_now m) r then AList.delete (br_key r) rs else rs"
  let ?m = "m\<lparr>mem_records := Some ?rs\<rparr>"
  let ?P = "\<lambda>k. \<exists>r \<in> set snap. br_key r = k \<and> mem_expired m (mem_now m) r"
  have step: "?f r m = (Ok (), ?m)"
    using Cons.prems(2) by (cases m) (simp add: mem_Delete_def)
  have exp: "mem_expired ?m = mem_expired m" "mem_now ?m = mem_now m"
    by (simp_all add: mem_expired_def fun_eq_iff)
  have inv: "mem_inv ?m"
    using Cons.prems(1,2) by (auto simp: mem_inv_def distinct_delete dest!: in_set_delete)
  have "\<exists>rs'. mem_cleanLoop snap ?m = (Ok (), ?m\<lparr>mem_records := Some rs'\<rparr>) \<and>
      mem_inv (?m\<lparr>mem_records := Some rs'\<rparr>) \<and>
      (\<forall>k. map_of rs' k = (if ?P k then None else map_of ?rs k))"
    by (rule Cons.IH [OF inv]) (simp_all only: exp, auto)
  then obtain rs' where rs': "mem_cleanLoop snap ?m = (Ok (), m\<lparr>mem_records := Some rs'\<rparr>)"
    "mem_inv (m\<lparr>mem_records := Some rs'\<rparr>)"
    "\<forall>k. map_of rs' k = (if ?P k then None else map_of ?rs k)" by auto
  have "mem_cleanLoop (r # snap) m = mem_cleanLoop snap ?m"
    using step by (simp add: mem_cleanLoop_def bindR_Ok)
  moreover have "P k \<longleftrightarrow> ?P k \<or> (br_key r = k \<and> mem_expired m (mem_now m) r)" for k
    using Cons.prems(3,4) by auto
  ultimately show ?case
    using rs' by (auto simp: delete_conv' split: if_splits intro!: exI [of _ rs'])
qed


definition sample_memory :: memory where
  "sample_memory = (snd (mem_Set [2] (Some [20]) 100 (snd (mem_Set [1] (Some [10]) 5
     (NewMemoryBackend ''m'' mem_NewConfig 0)))))\<lparr>mem_now := 50\<rparr>"

lemma sample_memory_eq:
  "sample_memory = \<lparr>mem_name = ''m'', mem_globalRecordExpiry = 0, mem_recordExpiryEnabled = False,
     mem_cleanupInterval = 10000000000,
     mem_records = Some [([1], \<lparr>br_key = [1], br_value = Some [10], br_createdAt = 0, br_expiry = 5\<rparr>),
       ([2], \<lparr>br_key = [2], br_value = Some [20], br_createdAt = 0, br_expiry = 100\<rparr>)],
     mem_now = 50\<rparr>"
  by (simp add: sample_memory_def mem_Set_def NewMemoryBackend_def mem_NewConfig_def
      mem_config_parse_def)

lemma sample_memory_inv: "mem_inv sample_memory"
  by (simp add: sample_memory_eq mem_inv_def)


text \<open>The cleaner works on a snapshot and deletes by key: if a record in the snapshot is expired
  and another goroutine stores a fresh value under its key before the cleaner reaches it, the fresh
  value is deleted, although it is not expired.\<close>
theorem mem_cleaner_race:
  assumes "mem_inv m" "mem_snapshot m = Ok snap" "r \<in> set snap" "mem_expired m (mem_now m) r"
    and "mem_Set (br_key r) (Some v) x m = (Ok (), m1)"
  shows "mem_Get (br_key r) m1 = Ok (Some v) \<and>
    (\<exists>m2. mem_cleanLoop snap m1 = (Ok (), m2) \<and> mem_Get (br_key r) m2 = Ok None)"
proof -
  obtain m1' where m1': "mem_Set (br_key r) (Some v) x m = (Ok (), m1')" "mem_inv m1'"
    "mem_view m1' = (mem_view m)(br_key r := Some v)"
    using mem_Set_spec [OF assms(1)] by blast
  with assms(5) have eq: "m1' = m1" by simp
  have same: "mem_expired m1 = mem_expired m" "mem_now m1 = mem_now m"
    using assms(5) by (auto simp: mem_Set_def mem_expired_def fun_eq_iff split: option.splits)
  obtain rs where rs: "mem_records m1 = Some rs"
    using m1'(2) eq by (auto simp: mem_inv_def split: option.splits)
  let ?P = "\<lambda>k. \<exists>r \<in> set snap. br_key r = k \<and> mem_expired m1 (mem_now m1) r"
  have inv1: "mem_inv m1" using m1'(2) eq by simp
  have "\<exists>rs'. mem_cleanLoop snap m1 = (Ok (), m1\<lparr>mem_records := Some rs'\<rparr>) \<and>
      mem_inv (m1\<lparr>mem_records := Some rs'\<rparr>) \<and> (\<forall>k. map_of rs' k = (if ?P k then None else map_of rs k))"
    by (rule clean_loop [OF inv1 rs]) auto
  moreover have "?P (br_key r)" using assms(3,4) by (auto simp: same)
  moreover have "mem_Get (br_key r) m1 = Ok (mem_view m1 (br_key r))"
    using memb.get_view [OF inv1] by (simp add: memory_backend_def)
  ultimately show ?thesis
    using m1'(3) by (auto simp: eq mem_Get_def)
qed

theorem mem_cleaner_race_witness:
  "\<exists>snap m1 m2. mem_snapshot sample_memory = Ok snap \<and>
     mem_Set [1] (Some [11]) 5 sample_memory = (Ok (), m1) \<and>
     mem_cleanLoop snap m1 = (Ok (), m2) \<and> mem_Get [1] m1 = Ok (Some [11]) \<and> mem_Get [1] m2 = Ok None"
proof -
  let ?r = "\<lparr>br_key = [1], br_value = Some [10], br_createdAt = 0, br_expiry = 5\<rparr> :: byte_record"
  obtain snap where snap: "mem_snapshot sample_memory = Ok snap" "?r \<in> set snap"
    by (simp add: sample_memory_eq mem_snapshot_def)
  have e: "mem_expired sample_memory (mem_now sample_memory) ?r"
    by (simp add: sample_memory_eq mem_expired_def Let_def)
  obtain m1 where m1: "mem_Set (br_key ?r) (Some [11]) 5 sample_memory = (Ok (), m1)"
    by (simp add: sample_memory_eq mem_Set_def)
  show ?thesis
    using mem_cleaner_race [OF sample_memory_inv snap e m1] snap(1) m1 by auto
qed



end
