(* ===== verification/Pebble.thy ===== *)
theory Pebble
  imports Backend Errors "HOL-Library.AList"
begin

text \<open>
  \<open>src/backend/pebble\<close>: the backend over the Pebble key-value engine. Pebble itself is a library the
  repository only calls: it is the parameter \<open>db\<close>, a record of the calls the code makes, with
  \<open>'p\<close> the state of a database, \<open>'a\<close> of a batch, \<open>'i\<close> of an iterator. What its documentation
  promises is the predicate \<open>pebble_laws\<close>. Metrics are left out.
\<close>

section \<open>The upper bound of a prefix\<close>

text \<open>
  \<open>keyUpperBound\<close>: \<open>end\<close> is a copy of the prefix, the loop index \<open>i\<close> runs downwards (the argument
  is \<open>i + 1\<close>), \<open>end[i] + 1\<close> wraps around at 256.
\<close>

fun keyUpperBound_loop :: "nat \<Rightarrow> bytes \<Rightarrow> slice" where
  "keyUpperBound_loop 0 en = None"
| "keyUpperBound_loop (Suc i) en =
     (let en' = en[i := en ! i + 1]
      in if en' ! i \<noteq> 0 then Some (take (i + 1) en') else keyUpperBound_loop i en')"

definition keyUpperBound :: "bytes \<Rightarrow> slice" where
  "keyUpperBound b = keyUpperBound_loop (length b) b"

definition in_bounds :: "slice \<Rightarrow> slice \<Rightarrow> bytes \<Rightarrow> bool" where
  "in_bounds lo hi k =
     ((case lo of None \<Rightarrow> True | Some l \<Rightarrow> l \<le> k) \<and> (case hi of None \<Rightarrow> True | Some u \<Rightarrow> k < u))"

lemma keyUpperBound_loop_take:
  "n \<le> length xs \<Longrightarrow> keyUpperBound_loop n xs = keyUpperBound_loop n (take n xs)"
proof (induction n arbitrary: xs)
  case (Suc n)
  have "keyUpperBound_loop n (xs[n := x]) = keyUpperBound_loop n (take n xs)" for x
    using Suc.IH [of "xs[n := x]"] Suc.prems by simp
  moreover have "keyUpperBound_loop n ((take (Suc n) xs)[n := x]) = keyUpperBound_loop n (take n xs)" for x
    using Suc.IH [of "(take (Suc n) xs)[n := x]"] Suc.prems by (simp add: min_def)
  ultimately show ?case using Suc.prems by (simp add: Let_def take_update_swap)
qed simp

lemma keyUpperBound_Nil [simp]: "keyUpperBound [] = None"
  by (simp add: keyUpperBound_def)

lemma keyUpperBound_snoc:
  "keyUpperBound (p @ [b]) = (if b + 1 \<noteq> 0 then Some (p @ [b + 1]) else keyUpperBound p)"
proof -
  have "keyUpperBound_loop (length p) (p @ [x]) = keyUpperBound_loop (length p) p" for x
    using keyUpperBound_loop_take [of "length p" "p @ [x]"] by simp
  then show ?thesis by (simp add: keyUpperBound_def Let_def list_update_append)
qed

lemma append_le_cancel [simp]: "(p @ xs \<le> p @ ys) = (xs \<le> (ys :: 'a::linorder list))"
  by (induction p) auto

lemma append_less_cancel [simp]: "(p @ xs < p @ ys) = (xs < (ys :: 'a::linorder list))"
  by (induction p) auto

lemma le_append: "p \<le> p @ (xs :: 'a::linorder list)"
  by (induction p) auto

lemma bounds_prefix:
  fixes p :: "'a::linorder list"
  shows "p @ xs \<le> k \<Longrightarrow> k < p @ ys \<Longrightarrow> \<exists>k'. k = p @ k'"
proof (induction p arbitrary: k)
  case (Cons a p)
  then obtain c k1 where k: "k = c # k1" by (cases k) auto
  with Cons.prems have "c = a" "p @ xs \<le> k1" "k1 < p @ ys" by auto
  with Cons.IH [of k1] k show ?case by auto
qed simp

lemma word_less_Suc: "b + 1 \<noteq> 0 \<Longrightarrow> c < b + 1 \<longleftrightarrow> c \<le> (b :: 8 word)"
proof -
  assume "b + 1 \<noteq> 0"
  then have "unat (b + 1) = Suc (unat b)" using unatSuc [of b] by (simp add: add.commute)
  then show ?thesis by (simp add: word_less_nat_alt word_le_nat_alt less_Suc_eq_le)
qed

lemma single_le_Cons: "[b] \<le> c # r \<longleftrightarrow> b \<le> (c :: 'a::linorder)"
  by (cases r) (auto simp: order_le_less)

lemma singleton_bounds:
  assumes "b + 1 \<noteq> (0 :: 8 word)"
  shows "[b] \<le> k \<and> k < [b + 1] \<longleftrightarrow> (\<exists>r. k = b # r)"
proof (cases k)
  case (Cons c r)
  have "c # r < [b + 1] \<longleftrightarrow> c \<le> b" by (simp add: word_less_Suc [OF assms])
  then show ?thesis using Cons by (auto simp: single_le_Cons)
qed simp

lemma upper_bound_iff:
  "(p \<le> k \<and> (case keyUpperBound p of None \<Rightarrow> True | Some u \<Rightarrow> k < u)) \<longleftrightarrow> (\<exists>k'. k = p @ k')"
proof (induction p rule: rev_induct)
  case (snoc b p)
  show ?case
  proof (cases "b + 1 = 0")
    case False
    have "(p @ [b] \<le> k \<and> k < p @ [b + 1]) \<longleftrightarrow> (\<exists>k'. k = p @ k' \<and> [b] \<le> k' \<and> k' < [b + 1])"
      using bounds_prefix [of p "[b]" k "[b + 1]"] by (auto simp del: Cons_le_Cons Cons_less_Cons)
    then have "(p @ [b] \<le> k \<and> k < p @ [b + 1]) \<longleftrightarrow> (\<exists>k'. k = (p @ [b]) @ k')"
      unfolding singleton_bounds [OF False] by auto
    with False show ?thesis by (simp add: keyUpperBound_snoc)
  next
    case True
    then have max: "c \<le> b" for c :: "8 word"
      by (metis add_diff_cancel diff_0 word_order.extremum)
    have "p \<le> k" if "p @ [b] \<le> k" using that le_append [of p "[b]"] by (rule order_trans[rotated])
    then have "(p @ [b] \<le> k \<and> (case keyUpperBound p of None \<Rightarrow> True | Some u \<Rightarrow> k < u)) \<longleftrightarrow>
        (\<exists>k'. k = p @ k' \<and> p @ [b] \<le> k)"
      using snoc by auto
    also have "\<dots> \<longleftrightarrow> (\<exists>k'. k = p @ k' \<and> [b] \<le> k')" by auto
    also have "\<dots> \<longleftrightarrow> (\<exists>k'. k = (p @ [b]) @ k')"
    proof -
      have "[b] \<le> k' \<longleftrightarrow> (\<exists>r. k' = b # r)" for k'
        using max by (cases k') (auto simp: single_le_Cons intro: antisym)
      then show ?thesis by auto
    qed
    finally show ?thesis using True by (simp add: keyUpperBound_snoc)
  qed
qed simp

text \<open>C5: The bounds of \<open>PrefixedIterator\<close> are exact: under the lexicographic order of Pebble's
  default comparer, a key lies between the prefix and \<open>keyUpperBound\<close> of it if and only if it starts with
  the prefix; also when the prefix ends in bytes 255, or is empty, and the bound is nil.\<close>
theorem prefix_bounds_exact:
  "in_bounds (Some p) (keyUpperBound p) k \<longleftrightarrow> prefix p k"
  using upper_bound_iff [of p k] by (simp add: in_bounds_def prefix_def)

section \<open>The engine\<close>

record ('p, 'a, 'i) pebble_db =
  db_Get :: "bytes \<Rightarrow> 'p \<Rightarrow> (bytes \<times> gerror option) res"
  db_Set :: "bytes \<Rightarrow> slice \<Rightarrow> 'p \<Rightarrow> unit res \<times> 'p"
  db_Delete :: "bytes \<Rightarrow> 'p \<Rightarrow> unit res \<times> 'p"
  db_DeleteRange :: "slice \<Rightarrow> slice \<Rightarrow> 'p \<Rightarrow> unit res \<times> 'p"
  db_Flush :: "'p \<Rightarrow> unit res \<times> 'p"
  db_Close :: "'p \<Rightarrow> unit res \<times> 'p"
  db_NewIter :: "slice \<Rightarrow> slice \<Rightarrow> 'p \<Rightarrow> 'i res"
  db_NewBatch :: "'p \<Rightarrow> 'a"
  db_NewIndexedBatch :: "'p \<Rightarrow> 'a"
  db_Apply :: "'a \<Rightarrow> 'p \<Rightarrow> unit res \<times> 'p"
  bt_Get :: "bytes \<Rightarrow> 'a \<Rightarrow> 'p \<Rightarrow> (bytes \<times> gerror option) res"
  bt_Set :: "bytes \<Rightarrow> slice \<Rightarrow> 'a \<Rightarrow> unit res \<times> 'a"
  bt_Delete :: "bytes \<Rightarrow> 'a \<Rightarrow> unit res \<times> 'a"
  bt_DeleteRange :: "slice \<Rightarrow> slice \<Rightarrow> 'a \<Rightarrow> unit res \<times> 'a"
  bt_NewIter :: "slice \<Rightarrow> slice \<Rightarrow> 'a \<Rightarrow> 'p \<Rightarrow> 'i res"
  bt_Commit :: "'a \<times> 'p \<Rightarrow> unit res \<times> ('a \<times> 'p)"
  bt_Reset :: "'a \<Rightarrow> 'a"
  bt_Close :: "'a \<Rightarrow> unit res \<times> 'a"
  di_First :: "'i \<Rightarrow> 'i"
  di_Last :: "'i \<Rightarrow> 'i"
  di_SeekGE :: "bytes \<Rightarrow> 'i \<Rightarrow> 'i"
  di_Next :: "'i \<Rightarrow> 'i"
  di_Prev :: "'i \<Rightarrow> 'i"
  di_Close :: "'i \<Rightarrow> 'i"
  di_Key :: "'i \<Rightarrow> slice"
  di_Value :: "'i \<Rightarrow> slice"
  di_Valid :: "'i \<Rightarrow> bool"
  di_Error :: "'i \<Rightarrow> gerror option"

definition ErrNotFound :: gerror where
  "ErrNotFound = EPlain ''pebble: not found''"

section \<open>The backend\<close>

record 'p pebble =
  pb_dbName :: string
  pb_pebble :: 'p

text \<open>\<open>NewPebbleBackend\<close>; \<open>open_db\<close> stands for \<open>pebble.Open\<close> with the configured options.\<close>

definition NewPebbleBackend :: "(string \<Rightarrow> 'p res) \<Rightarrow> string \<Rightarrow> string \<Rightarrow> 'p pebble res" where
  "NewPebbleBackend open_db dir name =
     (let dbName = dir @ ''/pebble/'' @ name
      in bind_res (wrap_res (''db open error, backend:'' @ dbName) (open_db dbName))
           (\<lambda>pb. Ok \<lparr>pb_dbName = dbName, pb_pebble = pb\<rparr>))"

definition pb_Name :: "'p pebble \<Rightarrow> string" where
  "pb_Name b = ''pebble''"

definition pb_Persistent :: bool where
  "pb_Persistent = False"

definition on_db :: "('p \<Rightarrow> unit res \<times> 'p) \<Rightarrow> 'p pebble \<Rightarrow> unit res \<times> 'p pebble" where
  "on_db f b = (case f (pb_pebble b) of (r, p) \<Rightarrow> (r, b\<lparr>pb_pebble := p\<rparr>))"

text \<open>
  The end of \<open>Get\<close>, the same in \<open>Reader\<close> and \<open>Cache\<close>: a missing key is a nil value, a found
  value is copied before its buffer is closed.
\<close>

definition pb_got :: "(bytes \<times> gerror option) res \<Rightarrow> slice res" where
  "pb_got r = (case r of
      Err e \<Rightarrow> if err_Is e ErrNotFound then Ok None else Err e
    | Panic p \<Rightarrow> Panic p
    | Ok (valP, closed) \<Rightarrow> (case closed of Some e \<Rightarrow> Err e | None \<Rightarrow> Ok (Some valP)))"

definition rd_Get :: "('p, 'a, 'i) pebble_db \<Rightarrow> bytes \<Rightarrow> 'p pebble \<Rightarrow> slice res" where
  "rd_Get db key b = pb_got (db_Get db key (pb_pebble b))"

definition pb_newIter :: "'i res \<Rightarrow> 'i res" where
  "pb_newIter r = (case r of Err e \<Rightarrow> Panic ''NewIter'' | _ \<Rightarrow> r)"

definition rd_PrefixedIterator :: "('p, 'a, 'i) pebble_db \<Rightarrow> bytes \<Rightarrow> 'p pebble \<Rightarrow> 'i res" where
  "rd_PrefixedIterator db keyPrefix b =
     pb_newIter (db_NewIter db (Some keyPrefix) (keyUpperBound keyPrefix) (pb_pebble b))"

definition rd_Iterator :: "('p, 'a, 'i) pebble_db \<Rightarrow> 'p pebble \<Rightarrow> 'i res" where
  "rd_Iterator db b = pb_newIter (db_NewIter db None None (pb_pebble b))"

definition rd_Close :: "('p, 'a, 'i) pebble_db \<Rightarrow> 'p pebble \<Rightarrow> unit res \<times> 'p pebble" where
  "rd_Close db = on_db (db_Close db)"

definition wr_Set :: "('p, 'a, 'i) pebble_db \<Rightarrow> bytes \<Rightarrow> slice \<Rightarrow> int \<Rightarrow> 'p pebble \<Rightarrow> unit res \<times> 'p pebble" where
  "wr_Set db key value expiry = on_db (db_Set db key value)"

definition wr_SetAll ::
  "('p, 'a, 'i) pebble_db \<Rightarrow> (bytes \<times> slice) list \<Rightarrow> int \<Rightarrow> 'p pebble \<Rightarrow> unit res \<times> 'p pebble" where
  "wr_SetAll db keyVals expiry b =
     (case forR (\<lambda>(k, v). bt_Set db k v) keyVals (db_NewBatch db (pb_pebble b)) of
        (Ok _, batch) \<Rightarrow> on_db (db_Apply db batch) b
      | (Err e, _) \<Rightarrow> (Err e, b)
      | (Panic p, _) \<Rightarrow> (Panic p, b))"

definition wr_Delete :: "('p, 'a, 'i) pebble_db \<Rightarrow> bytes \<Rightarrow> 'p pebble \<Rightarrow> unit res \<times> 'p pebble" where
  "wr_Delete db key = on_db (db_Delete db key)"

definition wr_DeleteAll :: "('p, 'a, 'i) pebble_db \<Rightarrow> 'p pebble \<Rightarrow> unit res \<times> 'p pebble" where
  "wr_DeleteAll db = on_db (db_DeleteRange db None None)"

definition wr_Flush :: "('p, 'a, 'i) pebble_db \<Rightarrow> 'p pebble \<Rightarrow> unit res \<times> 'p pebble" where
  "wr_Flush db = on_db (db_Flush db)"

subsection \<open>Iterators\<close>

definition pi_SeekToFirst :: "('p, 'a, 'i) pebble_db \<Rightarrow> 'i \<Rightarrow> 'i" where
  "pi_SeekToFirst db i = di_First db i"

definition pi_SeekToLast :: "('p, 'a, 'i) pebble_db \<Rightarrow> 'i \<Rightarrow> 'i" where
  "pi_SeekToLast db i = di_Last db i"

definition pi_Seek :: "('p, 'a, 'i) pebble_db \<Rightarrow> bytes \<Rightarrow> 'i \<Rightarrow> 'i" where
  "pi_Seek db key i = di_SeekGE db key i"

definition pi_Next :: "('p, 'a, 'i) pebble_db \<Rightarrow> 'i \<Rightarrow> 'i" where
  "pi_Next db i = di_Next db i"

definition pi_Prev :: "('p, 'a, 'i) pebble_db \<Rightarrow> 'i \<Rightarrow> 'i" where
  "pi_Prev db i = di_Prev db i"

definition pi_Close :: "('p, 'a, 'i) pebble_db \<Rightarrow> 'i \<Rightarrow> 'i" where
  "pi_Close db i = di_Close db i"

definition pi_Key :: "('p, 'a, 'i) pebble_db \<Rightarrow> 'i \<Rightarrow> slice res" where
  "pi_Key db i = Ok (di_Key db i)"

definition pi_Value :: "('p, 'a, 'i) pebble_db \<Rightarrow> 'i \<Rightarrow> slice res" where
  "pi_Value db i = Ok (di_Value db i)"

definition pi_Valid :: "('p, 'a, 'i) pebble_db \<Rightarrow> 'i \<Rightarrow> bool" where
  "pi_Valid db i = di_Valid db i"

definition pi_Error :: "('p, 'a, 'i) pebble_db \<Rightarrow> 'i \<Rightarrow> gerror option" where
  "pi_Error db i = di_Error db i"

definition pebble_iter_ops :: "('p, 'a, 'i) pebble_db \<Rightarrow> 'i iter_ops" where
  "pebble_iter_ops db = \<lparr>it_first = pi_SeekToFirst db, it_last = pi_SeekToLast db, it_seek = pi_Seek db,
     it_next = pi_Next db, it_prev = pi_Prev db, it_close = pi_Close db, it_key = pi_Key db,
     it_value = pi_Value db, it_valid = pi_Valid db, it_error = pi_Error db\<rparr>"

definition pebble_backend :: "('p, 'a, 'i) pebble_db \<Rightarrow> ('p pebble, 'i) backend_ops" where
  "pebble_backend db = \<lparr>bk_name = pb_Name, bk_persistent = pb_Persistent, bk_close = rd_Close db,
     bk_get = rd_Get db, bk_prefixed = rd_PrefixedIterator db, bk_iterator = rd_Iterator db,
     bk_set = wr_Set db, bk_delete = wr_Delete db, bk_deleteAll = wr_DeleteAll db,
     bk_flush = wr_Flush db, bk_setAll = wr_SetAll db\<rparr>"

subsection \<open>The cache: an indexed batch\<close>

definition pc_new :: "('p, 'a, 'i) pebble_db \<Rightarrow> 'p pebble \<Rightarrow> 'a" where
  "pc_new db b = db_NewIndexedBatch db (pb_pebble b)"

definition pc_Set :: "('p, 'a, 'i) pebble_db \<Rightarrow> bytes \<Rightarrow> slice \<Rightarrow> int \<Rightarrow> 'a \<Rightarrow> unit res \<times> 'a" where
  "pc_Set db key value expiry = bt_Set db key value"

definition pc_Get :: "('p, 'a, 'i) pebble_db \<Rightarrow> bytes \<Rightarrow> 'a \<Rightarrow> 'p pebble \<Rightarrow> slice res" where
  "pc_Get db key c b = pb_got (bt_Get db key c (pb_pebble b))"

definition pc_PrefixedIterator :: "('p, 'a, 'i) pebble_db \<Rightarrow> bytes \<Rightarrow> 'a \<Rightarrow> 'p pebble \<Rightarrow> 'i res" where
  "pc_PrefixedIterator db keyPrefix c b =
     pb_newIter (bt_NewIter db (Some keyPrefix) (keyUpperBound keyPrefix) c (pb_pebble b))"

definition pc_Iterator :: "('p, 'a, 'i) pebble_db \<Rightarrow> 'a \<Rightarrow> 'p pebble \<Rightarrow> 'i res" where
  "pc_Iterator db c b = pb_newIter (bt_NewIter db None None c (pb_pebble b))"

definition pc_Delete :: "('p, 'a, 'i) pebble_db \<Rightarrow> bytes \<Rightarrow> 'a \<Rightarrow> unit res \<times> 'a" where
  "pc_Delete db key = bt_Delete db key"

definition pc_Flush :: "('p, 'a, 'i) pebble_db \<Rightarrow> 'a \<times> 'p pebble \<Rightarrow> unit res \<times> ('a \<times> 'p pebble)" where
  "pc_Flush db cb = (case cb of (c, b) \<Rightarrow>
     (case bt_Commit db (c, pb_pebble b) of (r, c', p) \<Rightarrow> (r, c', b\<lparr>pb_pebble := p\<rparr>)))"

definition pc_DeleteAll :: "('p, 'a, 'i) pebble_db \<Rightarrow> 'a \<Rightarrow> unit res \<times> 'a" where
  "pc_DeleteAll db = bt_DeleteRange db None None"

definition pc_Reset :: "('p, 'a, 'i) pebble_db \<Rightarrow> 'a \<Rightarrow> 'a" where
  "pc_Reset db c = bt_Reset db c"

definition pc_Close :: "('p, 'a, 'i) pebble_db \<Rightarrow> 'a \<Rightarrow> unit res \<times> 'a" where
  "pc_Close db = bt_Close db"

definition pebble_cache :: "('p, 'a, 'i) pebble_db \<Rightarrow> ('a, 'p pebble, 'i) cache_ops" where
  "pebble_cache db = \<lparr>ch_new = pc_new db, ch_get = pc_Get db, ch_prefixed = pc_PrefixedIterator db,
     ch_iterator = pc_Iterator db, ch_set = pc_Set db, ch_delete = pc_Delete db,
     ch_deleteAll = pc_DeleteAll db, ch_flush = pc_Flush db, ch_close = pc_Close db,
     ch_reset = pc_Reset db\<rparr>"

section \<open>What Pebble's documentation promises\<close>

text \<open>
  \<open>ent p\<close> are the live keys of a database with their values, in key order; a value is never absent.
  \<open>Set\<close> stores a copy of the value (a nil value is stored as an empty one); \<open>DeleteRange\<close> removes the
  keys of the half-open range \<open>[start, end)\<close>; an iterator with bounds delivers exactly the keys within
  them, nil meaning no bound.
\<close>

definition db_view :: "('p \<Rightarrow> (bytes \<times> bytes) list) \<Rightarrow> 'p \<Rightarrow> bytes \<Rightarrow> slice" where
  "db_view ent p k = map_of (ent p) k"

definition pebble_laws ::
  "('p, 'a, 'i) pebble_db \<Rightarrow> ('p \<Rightarrow> bool) \<Rightarrow> ('p \<Rightarrow> (bytes \<times> bytes) list)
    \<Rightarrow> ('i \<Rightarrow> (bytes \<times> bytes) list) \<Rightarrow> ('i \<Rightarrow> bool) \<Rightarrow> bool" where
  "pebble_laws db pinv ent left iok \<longleftrightarrow>
     (\<forall>p. pinv p \<longrightarrow> sorted (map fst (ent p)) \<and> distinct (map fst (ent p))) \<and>
     (\<forall>p k. pinv p \<longrightarrow> db_Get db k p =
        (case db_view ent p k of None \<Rightarrow> Err ErrNotFound | Some v \<Rightarrow> Ok (v, None))) \<and>
     (\<forall>p k v. pinv p \<longrightarrow> (\<exists>p'. db_Set db k v p = (Ok (), p') \<and> pinv p' \<and>
        db_view ent p' = (db_view ent p)(k := Some (slice_bytes v)))) \<and>
     (\<forall>p k. pinv p \<longrightarrow> (\<exists>p'. db_Delete db k p = (Ok (), p') \<and> pinv p' \<and>
        db_view ent p' = (db_view ent p)(k := None))) \<and>
     (\<forall>p s e. pinv p \<longrightarrow> (\<exists>p'. db_DeleteRange db s e p = (Ok (), p') \<and> pinv p' \<and>
        db_view ent p' = (\<lambda>k. if slice_bytes s \<le> k \<and> k < slice_bytes e then None else db_view ent p k))) \<and>
     (\<forall>p lo hi. pinv p \<longrightarrow> (\<exists>i. db_NewIter db lo hi p = Ok i \<and> iok (di_First db i) \<and>
        left (di_First db i) = filter (\<lambda>(k, _). in_bounds lo hi k) (ent p))) \<and>
     (\<forall>i. iok i \<longrightarrow> di_Valid db i = (left i \<noteq> [])) \<and>
     (\<forall>i k v r. iok i \<and> left i = (k, v) # r \<longrightarrow> di_Key db i = Some k \<and> di_Value db i = Some v \<and>
        left (di_Next db i) = r \<and> iok (di_Next db i)) \<and>
     (\<forall>i. iok (di_First db i) \<longrightarrow>
        left (di_First db (di_First db i)) = left (di_First db i) \<and> iok (di_First db (di_First db i)))"

text \<open>
  An indexed batch is an overlay over its database: \<open>over a p\<close> is what a read through the batch finds.
  \<open>Commit\<close> makes the database hold what was read through the batch; \<open>Reset\<close> empties the batch.
\<close>

definition batch_laws ::
  "('p, 'a, 'i) pebble_db \<Rightarrow> ('p \<Rightarrow> bool) \<Rightarrow> ('p \<Rightarrow> (bytes \<times> bytes) list)
    \<Rightarrow> ('a \<Rightarrow> 'p \<Rightarrow> bytes \<Rightarrow> slice) \<Rightarrow> bool" where
  "batch_laws db pinv ent over \<longleftrightarrow>
     (\<forall>p. over (db_NewIndexedBatch db p) p = db_view ent p) \<and>
     (\<forall>p a k. pinv p \<longrightarrow> bt_Get db k a p =
        (case over a p k of None \<Rightarrow> Err ErrNotFound | Some v \<Rightarrow> Ok (v, None))) \<and>
     (\<forall>a k v. \<exists>a'. bt_Set db k v a = (Ok (), a') \<and>
        (\<forall>p. over a' p = (over a p)(k := Some (slice_bytes v)))) \<and>
     (\<forall>a k. \<exists>a'. bt_Delete db k a = (Ok (), a') \<and> (\<forall>p. over a' p = (over a p)(k := None))) \<and>
     (\<forall>a p. pinv p \<longrightarrow> (\<exists>a' p'. bt_Commit db (a, p) = (Ok (), a', p') \<and> pinv p' \<and>
        db_view ent p' = over a p)) \<and>
     (\<forall>a p. over (bt_Reset db a) p = db_view ent p)"

section \<open>The backend keeps the contract\<close>

definition pb_view :: "('p \<Rightarrow> (bytes \<times> bytes) list) \<Rightarrow> 'p pebble \<Rightarrow> bytes \<Rightarrow> slice" where
  "pb_view ent b = db_view ent (pb_pebble b)"

definition pb_inv :: "('p \<Rightarrow> bool) \<Rightarrow> 'p pebble \<Rightarrow> bool" where
  "pb_inv pinv b = pinv (pb_pebble b)"

definition slices :: "(bytes \<times> bytes) list \<Rightarrow> (bytes \<times> slice) list" where
  "slices kvs = map (\<lambda>(k, v). (k, Some v)) kvs"

definition pb_entries :: "('p \<Rightarrow> (bytes \<times> bytes) list) \<Rightarrow> 'p pebble \<Rightarrow> (bytes \<times> slice) list" where
  "pb_entries ent b = slices (ent (pb_pebble b))"

lemma slices_simps [simp]: "slices [] = []" "slices ((k, v) # r) = (k, Some v) # slices r"
  by (simp_all add: slices_def)

lemma slices_Cons_iff: "slices l = (k, v) # r \<longleftrightarrow> (\<exists>w r'. l = (k, w) # r' \<and> v = Some w \<and> r = slices r')"
  by (cases l) (auto simp: slices_def)

lemma slices_fst [simp]: "map fst (slices l) = map fst l"
  by (simp add: slices_def split_def comp_def)

lemma slices_eq_Nil [simp]: "slices l = [] \<longleftrightarrow> l = []"
  by (simp add: slices_def)

lemma map_of_slices: "map_of (slices l) k = map_option Some (map_of l k)"
  by (induction l) auto

lemma filter_slices:
  "(\<And>k v. Q (k, Some v) = P (k, v)) \<Longrightarrow> filter Q (slices l) = slices (filter P l)"
  by (induction l) auto

lemma pebble_lawsD:
  assumes "pebble_laws db pinv ent left iok"
  shows "\<And>p. pinv p \<Longrightarrow> distinct (map fst (ent p))"
    and "\<And>p k. pinv p \<Longrightarrow> db_Get db k p = (case db_view ent p k of None \<Rightarrow> Err ErrNotFound | Some v \<Rightarrow> Ok (v, None))"
    and "\<And>p k v. pinv p \<Longrightarrow> \<exists>p'. db_Set db k v p = (Ok (), p') \<and> pinv p' \<and>
        db_view ent p' = (db_view ent p)(k := Some (slice_bytes v))"
    and "\<And>p k. pinv p \<Longrightarrow> \<exists>p'. db_Delete db k p = (Ok (), p') \<and> pinv p' \<and> db_view ent p' = (db_view ent p)(k := None)"
    and "\<And>p s e. pinv p \<Longrightarrow> \<exists>p'. db_DeleteRange db s e p = (Ok (), p') \<and> pinv p' \<and>
        db_view ent p' = (\<lambda>k. if slice_bytes s \<le> k \<and> k < slice_bytes e then None else db_view ent p k)"
    and "\<And>p lo hi. pinv p \<Longrightarrow> \<exists>i. db_NewIter db lo hi p = Ok i \<and> iok (di_First db i) \<and>
        left (di_First db i) = filter (\<lambda>(k, _). in_bounds lo hi k) (ent p)"
    and "\<And>i. iok i \<Longrightarrow> di_Valid db i = (left i \<noteq> [])"
    and "\<And>i k v r. iok i \<Longrightarrow> left i = (k, v) # r \<Longrightarrow> di_Key db i = Some k \<and> di_Value db i = Some v \<and>
        left (di_Next db i) = r \<and> iok (di_Next db i)"
    and "\<And>i. iok (di_First db i) \<Longrightarrow>
        left (di_First db (di_First db i)) = left (di_First db i) \<and> iok (di_First db (di_First db i))"
  using assms unfolding pebble_laws_def by blast+

text \<open>With the library as documented, the backend over it meets the contract of a backend with prefix scans.\<close>

lemma pebble_prefix_backend:
  assumes laws: "pebble_laws db pinv ent left iok"
  shows "prefix_backend (pebble_backend db) (pb_view ent) (pb_inv pinv) (pebble_iter_ops db)
    (\<lambda>i. slices (left i)) iok (pb_entries ent)"
proof (unfold_locales, goal_cases)
  case (1 b k)
  then show ?case
    using pebble_lawsD(2) [OF laws]
    by (simp add: pebble_backend_def rd_Get_def pb_got_def pb_inv_def pb_view_def ErrNotFound_def
        split: option.splits)
next
  case (2 b k v x)
  then show ?case
    using pebble_lawsD(3) [OF laws, of "pb_pebble b" k "Some v"]
    by (simp add: pebble_backend_def wr_Set_def pb_inv_def pb_view_def) (auto simp: on_db_def)
next
  case (3 b k)
  then show ?case
    using pebble_lawsD(4) [OF laws, of "pb_pebble b" k]
    by (simp add: pebble_backend_def wr_Delete_def pb_inv_def pb_view_def) (auto simp: on_db_def)
next
  case (4 i)
  then show ?case
    using pebble_lawsD(7) [OF laws] by (simp add: pebble_iter_ops_def pi_Valid_def)
next
  case (5 i k v r)
  then show ?case
    using pebble_lawsD(8) [OF laws] by (auto simp: pebble_iter_ops_def pi_Key_def slices_Cons_iff)
next
  case (6 i k v r)
  then show ?case
    using pebble_lawsD(8) [OF laws] by (auto simp: pebble_iter_ops_def pi_Value_def slices_Cons_iff)
next
  case (7 i k v r)
  then show ?case
    using pebble_lawsD(8) [OF laws] by (auto simp: pebble_iter_ops_def pi_Next_def slices_Cons_iff)
next
  case (8 i)
  then show ?case
    using pebble_lawsD(9) [OF laws] by (simp add: pebble_iter_ops_def pi_SeekToFirst_def)
next
  case (9 b)
  then show ?case
    using pebble_lawsD(1) [OF laws] by (simp add: pb_inv_def pb_entries_def)
next
  case (10 b k)
  then show ?case
    by (simp add: pb_view_def db_view_def pb_entries_def map_of_slices split: option.splits)
next
  case (11 b)
  then show ?case
    using pebble_lawsD(6) [OF laws, of "pb_pebble b" None None]
    by (auto simp: pebble_backend_def rd_Iterator_def pb_newIter_def pb_inv_def pb_entries_def
        pebble_iter_ops_def pi_SeekToFirst_def in_bounds_def)
next
  case (12 b p)
  have "filter (\<lambda>(k, _). prefix p k) (slices (ent (pb_pebble b))) =
      slices (filter (\<lambda>(k, _). in_bounds (Some p) (keyUpperBound p) k) (ent (pb_pebble b)))"
    by (rule filter_slices) (simp add: in_bounds_def prefix_def upper_bound_iff)
  with 12 show ?case
    using pebble_lawsD(6) [OF laws, of "pb_pebble b" "Some p" "keyUpperBound p"]
    by (auto simp: pebble_backend_def rd_PrefixedIterator_def pb_newIter_def pb_inv_def pb_entries_def
        pebble_iter_ops_def pi_SeekToFirst_def)
qed

section \<open>A reference engine\<close>

text \<open>
  A database as a key-sorted association list, a batch as the list of its operations (newest first), an
  iterator as a snapshot with a position: a concrete engine that meets the documented laws.
\<close>

type_synonym ref_db = "(bytes \<times> bytes) list"

datatype ref_op = RSet bytes bytes | RDelete bytes | RRange bytes bytes

definition ref_put :: "bytes \<Rightarrow> bytes \<Rightarrow> ref_db \<Rightarrow> ref_db" where
  "ref_put k v p = insort_key fst (k, v) (filter (\<lambda>(k', _). k' \<noteq> k) p)"

fun ref_do :: "ref_op \<Rightarrow> ref_db \<Rightarrow> ref_db" where
  "ref_do (RSet k v) p = ref_put k v p"
| "ref_do (RDelete k) p = filter (\<lambda>(k', _). k' \<noteq> k) p"
| "ref_do (RRange s e) p = filter (\<lambda>(k', _). \<not> (s \<le> k' \<and> k' < e)) p"

definition ref_commit :: "ref_op list \<Rightarrow> ref_db \<Rightarrow> ref_db" where
  "ref_commit a p = foldr ref_do a p"

definition ref_get :: "bytes \<Rightarrow> ref_db \<Rightarrow> (bytes \<times> gerror option) res" where
  "ref_get k p = (case map_of p k of None \<Rightarrow> Err ErrNotFound | Some v \<Rightarrow> Ok (v, None))"

definition ref_iter :: "slice \<Rightarrow> slice \<Rightarrow> ref_db \<Rightarrow> ref_db \<times> int" where
  "ref_iter lo hi p = (filter (\<lambda>(k, _). in_bounds lo hi k) p, -1)"

definition ref_at :: "(bytes \<times> bytes \<Rightarrow> bytes) \<Rightarrow> ref_db \<times> int \<Rightarrow> slice" where
  "ref_at f i = (if 0 \<le> snd i \<and> snd i < int (length (fst i)) then Some (f (fst i ! nat (snd i))) else None)"

definition ref_engine :: "(ref_db, ref_op list, ref_db \<times> int) pebble_db" where
  "ref_engine = \<lparr>db_Get = ref_get, db_Set = (\<lambda>k v p. (Ok (), ref_do (RSet k (slice_bytes v)) p)),
     db_Delete = (\<lambda>k p. (Ok (), ref_do (RDelete k) p)),
     db_DeleteRange = (\<lambda>s e p. (Ok (), ref_do (RRange (slice_bytes s) (slice_bytes e)) p)),
     db_Flush = (\<lambda>p. (Ok (), p)), db_Close = (\<lambda>p. (Ok (), p)),
     db_NewIter = (\<lambda>lo hi p. Ok (ref_iter lo hi p)),
     db_NewBatch = (\<lambda>p. []), db_NewIndexedBatch = (\<lambda>p. []),
     db_Apply = (\<lambda>a p. (Ok (), ref_commit a p)),
     bt_Get = (\<lambda>k a p. ref_get k (ref_commit a p)),
     bt_Set = (\<lambda>k v a. (Ok (), RSet k (slice_bytes v) # a)),
     bt_Delete = (\<lambda>k a. (Ok (), RDelete k # a)),
     bt_DeleteRange = (\<lambda>s e a. (Ok (), RRange (slice_bytes s) (slice_bytes e) # a)),
     bt_NewIter = (\<lambda>lo hi a p. Ok (ref_iter lo hi (ref_commit a p))),
     bt_Commit = (\<lambda>(a, p). (Ok (), a, ref_commit a p)),
     bt_Reset = (\<lambda>a. []), bt_Close = (\<lambda>a. (Ok (), a)),
     di_First = (\<lambda>i. (fst i, 0)), di_Last = (\<lambda>i. (fst i, int (length (fst i)) - 1)),
     di_SeekGE = (\<lambda>k i. (fst i, int (length (takeWhile (\<lambda>(k', _). k' < k) (fst i))))),
     di_Next = (\<lambda>i. (fst i, snd i + 1)), di_Prev = (\<lambda>i. (fst i, snd i - 1)), di_Close = (\<lambda>i. ([], -1)),
     di_Key = ref_at fst, di_Value = ref_at snd,
     di_Valid = (\<lambda>i. 0 \<le> snd i \<and> snd i < int (length (fst i))), di_Error = (\<lambda>i. None)\<rparr>"

definition ref_inv :: "ref_db \<Rightarrow> bool" where
  "ref_inv p = (sorted (map fst p) \<and> distinct (map fst p))"

definition ref_left :: "ref_db \<times> int \<Rightarrow> ref_db" where
  "ref_left i = drop (nat (snd i)) (fst i)"

definition ref_ok :: "ref_db \<times> int \<Rightarrow> bool" where
  "ref_ok i = (0 \<le> snd i)"

lemma map_of_insort_key:
  "k \<notin> fst ` set p \<Longrightarrow> map_of (insort_key fst (k, v) p) = (map_of p)(k \<mapsto> v)"
  by (induction p) (auto simp: fun_eq_iff)

lemma fst_insort_key: "map fst (insort_key fst (k, v) p) = insort k (map fst p)"
  by (induction p) auto

lemma not_in_filter: "k \<notin> fst ` set (filter (\<lambda>(k', _). k' \<noteq> k) p)"
  by auto

lemma map_of_filter_key: "map_of (filter (\<lambda>(k, _). P k) p) k = (if P k then map_of p k else None)"
  by (induction p) auto

lemma distinct_filter_key: "distinct (map fst p) \<Longrightarrow> distinct (map fst (filter P p))"
  by (induction p) auto

lemma sorted_filter_key: "sorted (map fst p) \<Longrightarrow> sorted (map fst (filter P p))"
  by (induction p) auto

lemma ref_do_inv: "ref_inv p \<Longrightarrow> ref_inv (ref_do op p)"
  by (cases op)
    (simp_all add: ref_inv_def ref_put_def fst_insort_key distinct_filter_key sorted_filter_key
      distinct_insort sorted_insort not_in_filter del: set_filter)

lemma ref_do_view:
  "map_of (ref_do (RSet k v) p) = (map_of p)(k := Some v)"
  "map_of (ref_do (RDelete k) p) = (map_of p)(k := None)"
  "map_of (ref_do (RRange s e) p) = (\<lambda>k. if s \<le> k \<and> k < e then None else map_of p k)"
  by (simp_all add: ref_put_def map_of_insort_key [OF not_in_filter] map_of_filter_key fun_eq_iff
      del: set_filter)

lemma ref_commit_inv: "ref_inv p \<Longrightarrow> ref_inv (ref_commit a p)"
  by (induction a) (auto simp: ref_commit_def ref_do_inv)

lemma ref_next:
  assumes "ref_ok i" "ref_left i = (k, v) # r"
  shows "ref_at fst i = Some k" "ref_at snd i = Some v" "ref_left (fst i, snd i + 1) = r"
    "snd i < int (length (fst i))"
proof -
  let ?n = "nat (snd i)"
  have n: "0 \<le> snd i" "?n < length (fst i)"
    using assms by (auto simp: ref_left_def ref_ok_def simp flip: not_le)
  moreover have "drop ?n (fst i) = fst i ! ?n # drop (Suc ?n) (fst i)"
    using n by (simp add: Cons_nth_drop_Suc)
  moreover have "nat (snd i + 1) = Suc ?n" using n by simp
  ultimately show "ref_at fst i = Some k" "ref_at snd i = Some v" "ref_left (fst i, snd i + 1) = r"
    "snd i < int (length (fst i))"
    using assms(2) by (auto simp: ref_left_def ref_at_def)
qed

lemma ref_get_engine: "db_Get ref_engine k p = (case db_view id p k of None \<Rightarrow> Err ErrNotFound | Some v \<Rightarrow> Ok (v, None))"
  by (simp add: ref_engine_def ref_get_def db_view_def)

lemma ref_iter_engine:
  "db_NewIter ref_engine lo hi p = Ok (ref_iter lo hi p)" "ref_ok (di_First ref_engine i)"
  "ref_left (di_First ref_engine (ref_iter lo hi p)) = filter (\<lambda>(k, _). in_bounds lo hi k) p"
  by (simp_all add: ref_engine_def ref_iter_def ref_ok_def ref_left_def)

lemma ref_first_engine:
  "ref_left (di_First ref_engine (di_First ref_engine i)) = ref_left (di_First ref_engine i)"
  by (simp add: ref_engine_def)

lemma ref_valid_engine: "ref_ok i \<Longrightarrow> di_Valid ref_engine i = (ref_left i \<noteq> [])"
  by (auto simp: ref_engine_def ref_ok_def ref_left_def)

lemma ref_next_engine:
  "ref_ok i \<Longrightarrow> ref_left i = (k, v) # r \<Longrightarrow> di_Key ref_engine i = Some k \<and> di_Value ref_engine i = Some v \<and>
    ref_left (di_Next ref_engine i) = r \<and> ref_ok (di_Next ref_engine i)"
  using ref_next [of i k v r] by (simp add: ref_engine_def ref_ok_def)

lemma ref_do_engine:
  "db_Set ref_engine k v p = (Ok (), ref_do (RSet k (slice_bytes v)) p)"
  "db_Delete ref_engine k p = (Ok (), ref_do (RDelete k) p)"
  "db_DeleteRange ref_engine s e p = (Ok (), ref_do (RRange (slice_bytes s) (slice_bytes e)) p)"
  by (simp_all add: ref_engine_def)

lemma db_view_id: "db_view id p = map_of p"
  by (simp add: db_view_def fun_eq_iff)

lemma ref_engine_laws: "pebble_laws ref_engine ref_inv id ref_left ref_ok"
  unfolding pebble_laws_def
proof (intro conjI allI impI)
  fix p k v s e lo hi i r
  assume p: "ref_inv p"
  show "sorted (map fst (id p))" "distinct (map fst (id p))" using p by (simp_all add: ref_inv_def)
  show "\<exists>p'. db_Set ref_engine k v p = (Ok (), p') \<and> ref_inv p' \<and>
      db_view id p' = (db_view id p)(k := Some (slice_bytes v))"
    using ref_do_inv [OF p] by (simp only: ref_do_engine db_view_id) (auto simp only: ref_do_view)
  show "\<exists>p'. db_Delete ref_engine k p = (Ok (), p') \<and> ref_inv p' \<and> db_view id p' = (db_view id p)(k := None)"
    using ref_do_inv [OF p] by (simp only: ref_do_engine db_view_id) (auto simp only: ref_do_view)
  show "\<exists>p'. db_DeleteRange ref_engine s e p = (Ok (), p') \<and> ref_inv p' \<and> db_view id p' =
      (\<lambda>k. if slice_bytes s \<le> k \<and> k < slice_bytes e then None else db_view id p k)"
    using ref_do_inv [OF p] by (simp only: ref_do_engine db_view_id) (auto simp only: ref_do_view)
  show "\<exists>i. db_NewIter ref_engine lo hi p = Ok i \<and> ref_ok (di_First ref_engine i) \<and>
      ref_left (di_First ref_engine i) = filter (\<lambda>(k, _). in_bounds lo hi k) (id p)"
    by (simp add: ref_iter_engine)
qed (use ref_get_engine ref_valid_engine ref_next_engine ref_first_engine ref_iter_engine(2) in blast)+

lemma ref_batch_engine: "batch_laws ref_engine ref_inv id (\<lambda>a p. map_of (ref_commit a p))"
  unfolding batch_laws_def db_view_id
  using ref_commit_inv
  by (auto simp: ref_engine_def ref_commit_def ref_get_def ref_do_view simp del: ref_do.simps)

interpretation pebb: prefix_backend "pebble_backend ref_engine" "pb_view id" "pb_inv ref_inv"
  "pebble_iter_ops ref_engine" "\<lambda>i. slices (ref_left i)" ref_ok "pb_entries id"
  by (rule pebble_prefix_backend [OF ref_engine_laws])

lemma pebble_cache_contract:
  assumes "batch_laws db pinv ent over"
  shows "cache (pebble_cache db) (pb_view ent) (pb_inv pinv) (\<lambda>a b. over a (pb_pebble b))"
proof (unfold_locales, goal_cases)
  case (1 b k c)
  then have "bt_Get db k c (pb_pebble b) =
      (case over c (pb_pebble b) k of None \<Rightarrow> Err ErrNotFound | Some v \<Rightarrow> Ok (v, None))"
    using assms by (simp add: batch_laws_def pb_inv_def)
  then show ?case
    by (simp add: pebble_cache_def pc_Get_def pb_got_def ErrNotFound_def split: option.splits)
next
  case (2 b)
  then show ?case
    using assms by (simp add: batch_laws_def pebble_cache_def pc_new_def pb_view_def)
next
  case (3 k v x c)
  have "\<exists>a'. bt_Set db k v c = (Ok (), a') \<and> (\<forall>p. over a' p = (over c p)(k := Some (slice_bytes v)))"
    using assms by (simp add: batch_laws_def)
  then show ?case by (auto simp: pebble_cache_def pc_Set_def)
next
  case (4 k c)
  have "\<exists>a'. bt_Delete db k c = (Ok (), a') \<and> (\<forall>p. over a' p = (over c p)(k := None))"
    using assms by (simp add: batch_laws_def)
  then show ?case by (auto simp: pebble_cache_def pc_Delete_def)
next
  case (5 b c)
  have "\<forall>a p. pinv p \<longrightarrow> (\<exists>a' p'. bt_Commit db (a, p) = (Ok (), a', p') \<and> pinv p' \<and> db_view ent p' = over a p)"
    using assms unfolding batch_laws_def by blast
  with 5 obtain a' p' where "bt_Commit db (c, pb_pebble b) = (Ok (), a', p')" "pinv p'"
    "db_view ent p' = over c (pb_pebble b)" by (metis pb_inv_def)
  then show ?case by (auto simp: pebble_cache_def pc_Flush_def pb_inv_def pb_view_def)
next
  case (6 c b)
  then show ?case
    using assms by (simp add: batch_laws_def pebble_cache_def pc_Reset_def pb_view_def)
qed

lemma pebble_deleteAll_view:
  assumes "pebble_laws db pinv ent left iok" "pb_inv pinv b"
  shows "\<exists>b'. bk_deleteAll (pebble_backend db) b = (Ok (), b') \<and> pb_inv pinv b' \<and> pb_view ent b' = pb_view ent b"
  using pebble_lawsD(5) [OF assms(1), of "pb_pebble b" None None] assms(2)
  by (auto simp: pebble_backend_def wr_DeleteAll_def on_db_def pb_inv_def pb_view_def fun_eq_iff)

definition ref_over :: "ref_op list \<Rightarrow> ref_db pebble \<Rightarrow> bytes \<Rightarrow> slice" where
  "ref_over a b k = map_of (ref_commit a (pb_pebble b)) k"

interpretation pebc: cache "pebble_cache ref_engine" "pb_view id" "pb_inv ref_inv" ref_over
proof -
  have "ref_over = (\<lambda>a b. map_of (ref_commit a (pb_pebble b)))"
    by (simp add: fun_eq_iff ref_over_def)
  then show "cache (pebble_cache ref_engine) (pb_view id) (pb_inv ref_inv) ref_over"
    using pebble_cache_contract [OF ref_batch_engine] by simp
qed

section \<open>Properties\<close>

definition sample_db :: ref_db where
  "sample_db = [([1], [10]), ([1, 255], [11]), ([2], [20])]"

lemma sample_db_inv: "ref_inv sample_db"
  by (simp add: ref_inv_def sample_db_def)

text \<open>C14: Over an engine that behaves as documented, the loop over \<open>PrefixedIterator(p)\<close> ends and visits
  exactly the stored records whose key starts with the prefix, each once, in ascending key order.\<close>
theorem pebble_prefix_iteration:
  assumes "pebble_laws db pinv ent left iok" "pinv (pb_pebble b)"
  shows "\<exists>i. rd_PrefixedIterator db p b = Ok i \<and>
    iter_loop (pebble_iter_ops db)
      (\<lambda>j. bindR (pureR (pi_Key db j)) (\<lambda>k. bindR (pureR (pi_Value db j)) (\<lambda>v. f (k, v))))
      (pi_SeekToFirst db i) s
    = Some (forR (\<lambda>(k, v). f (Some k, Some v)) (filter (\<lambda>(k, _). prefix p k) (ent (pb_pebble b))) s)
    \<and> sorted (map fst (ent (pb_pebble b))) \<and> distinct (map fst (ent (pb_pebble b)))"
proof -
  let ?body = "\<lambda>j. bindR (pureR (pi_Key db j)) (\<lambda>k. bindR (pureR (pi_Value db j)) (\<lambda>v. f (k, v)))"
  let ?f = "\<lambda>(k, v). f (Some k, v)"
  note B = pebble_prefix_backend [OF assms(1)]
  have b: "?body j s = ?f (k, v) s" if "iok j" "slices (left j) = (k, v) # r" for j s k v r
    using that pebble_lawsD(8) [OF assms(1) that(1)]
    by (auto simp: slices_Cons_iff pi_Key_def pi_Value_def bindR_def pureR_def)
  have inv: "pb_inv pinv b" using assms(2) by (simp add: pb_inv_def)
  obtain i where i: "bk_prefixed (pebble_backend db) p b = Ok i"
    "iter_loop (pebble_iter_ops db) ?body (it_first (pebble_iter_ops db) i) s
      = Some (forR ?f (filter (\<lambda>(k, _). prefix p k) (pb_entries ent b)) s)"
    using prefix_backend.scan_prefix [OF B inv, of ?body ?f p s] b by blast
  have "filter (\<lambda>(k, _). prefix p k) (pb_entries ent b)
      = slices (filter (\<lambda>(k, _). prefix p k) (ent (pb_pebble b)))"
    unfolding pb_entries_def by (rule filter_slices) simp
  moreover have "forR ?f (slices l) s = forR (\<lambda>(k, v). f (Some k, Some v)) l s" for l s
    by (induction l arbitrary: s) (auto simp: bindR_def split: prod.splits res.splits)
  moreover have "sorted (map fst (ent (pb_pebble b))) \<and> distinct (map fst (ent (pb_pebble b)))"
    using assms unfolding pebble_laws_def by blast
  ultimately show ?thesis
    using i by (auto simp: pebble_backend_def pebble_iter_ops_def)
qed

theorem pebble_prefix_iteration_witness:
  "\<exists>i. rd_PrefixedIterator ref_engine [1] \<lparr>pb_dbName = ''db'', pb_pebble = sample_db\<rparr> = Ok i \<and>
    iter_loop (pebble_iter_ops ref_engine)
      (\<lambda>j. bindR (pureR (pi_Key ref_engine j)) (\<lambda>k. bindR (pureR (pi_Value ref_engine j))
        (\<lambda>v s. (Ok (), s @ [(k, v)]))))
      (pi_SeekToFirst ref_engine i) []
    = Some (Ok (), [(Some [1], Some [10]), (Some [1, 255], Some [11])])"
proof -
  have f: "filter (\<lambda>(k, _). prefix [1] k) (id (pb_pebble \<lparr>pb_dbName = ''db'', pb_pebble = sample_db\<rparr>))
      = [([1], [10]), ([1, 255], [11])]"
    by (simp add: sample_db_def)
  show ?thesis
    using pebble_prefix_iteration [OF ref_engine_laws, of "\<lparr>pb_dbName = ''db'', pb_pebble = sample_db\<rparr>"
        "[1]" "\<lambda>kv s. (Ok (), s @ [kv])" "[]"] sample_db_inv
    unfolding f by (auto simp: bindR_Ok)
qed



end
