(* ===== verification/Store.thy ===== *)
theory Store
  imports Backend Encoding Memory Pebble
begin

text \<open>
  \<open>src/streams/stores\<close>: \<open>store.go\<close>, \<open>cache.go\<close>, \<open>iterator.go\<close>, \<open>option.go\<close> and
  \<open>builder.go\<close>. A store encodes its keys and values and keeps them in a backend; the backend is
  reached through the interface record \<open>bk\<close> only. The context argument of the Go methods is not used by them
  and left out.
\<close>

section \<open>Options\<close>

record 'b store_options =
  so_storageDir :: string
  so_backend :: "'b option"
  so_backendBuilder :: "string \<Rightarrow> 'b res"
  so_versionExtractor :: "(goval \<Rightarrow> goval \<Rightarrow> int res) option"
  so_versionWriter :: "(int \<Rightarrow> goval \<Rightarrow> goval res) option"
  so_buffered :: bool
  so_bufferSize :: int
  so_compactionEnabled :: bool
  so_cachingEnabled :: bool

type_synonym 'b store_option = "'b store_options \<Rightarrow> 'b store_options"

text \<open>\<open>new(StoreOptions)\<close> followed by \<open>applyDefault\<close>; the default is the memory builder.\<close>

definition so_default :: "(string \<Rightarrow> 'b res) \<Rightarrow> 'b store_options" where
  "so_default builder = \<lparr>so_storageDir = [], so_backend = None, so_backendBuilder = builder,
     so_versionExtractor = None, so_versionWriter = None, so_buffered = False, so_bufferSize = 0,
     so_compactionEnabled = False, so_cachingEnabled = False\<rparr>"

definition memory_builder :: "mem_config \<Rightarrow> int \<Rightarrow> string \<Rightarrow> memory res" where
  "memory_builder config now name = Ok (NewMemoryBackend name config now)"

definition so_apply :: "'b store_option list \<Rightarrow> 'b store_options \<Rightarrow> 'b store_options" where
  "so_apply options c = fold (\<lambda>opt c. opt c) options c"

definition WithVersionExtractor :: "(goval \<Rightarrow> goval \<Rightarrow> int res) \<Rightarrow> 'b store_option" where
  "WithVersionExtractor etc c = c\<lparr>so_versionExtractor := Some etc\<rparr>"

definition WithCachingEnabled :: "'b store_option" where
  "WithCachingEnabled c = c\<lparr>so_cachingEnabled := True\<rparr>"

definition WithVersionWriter :: "(int \<Rightarrow> goval \<Rightarrow> goval res) \<Rightarrow> 'b store_option" where
  "WithVersionWriter wr c = c\<lparr>so_versionWriter := Some wr\<rparr>"

definition Compacated :: "'b store_option" where
  "Compacated c = c\<lparr>so_compactionEnabled := True\<rparr>"

definition Buffered :: "int \<Rightarrow> 'b store_option" where
  "Buffered n c = c\<lparr>so_buffered := True, so_bufferSize := n\<rparr>"

definition WithBackend :: "'b \<Rightarrow> 'b store_option" where
  "WithBackend b c = c\<lparr>so_backend := Some b\<rparr>"

definition WithBackendBuilder :: "(string \<Rightarrow> 'b res) \<Rightarrow> 'b store_option" where
  "WithBackendBuilder builder c = c\<lparr>so_backendBuilder := builder\<rparr>"

section \<open>The store\<close>

record 'b store =
  st_name :: string
  st_keyEncoder :: encoder
  st_valEncoder :: encoder
  st_backend :: 'b
  st_backendBuilder :: "string \<Rightarrow> 'b res"

definition NewStore ::
  "(string \<Rightarrow> 'b res) \<Rightarrow> string \<Rightarrow> encoder \<Rightarrow> encoder \<Rightarrow> 'b store_option list \<Rightarrow> 'b store res" where
  "NewStore dflt name keyEncoder valEncoder options =
     (let opts = so_apply options (so_default dflt)
      in bind_res
           (case so_backend opts of
              None \<Rightarrow> wrap_res ''backend builder error'' (so_backendBuilder opts name)
            | Some b \<Rightarrow> Ok b)
           (\<lambda>bk. Ok \<lparr>st_name = name, st_keyEncoder = keyEncoder, st_valEncoder = valEncoder,
              st_backend = bk, st_backendBuilder = so_backendBuilder opts\<rparr>))"

definition store_String :: "('b, 'i) backend_ops \<Rightarrow> 'b store \<Rightarrow> string" where
  "store_String bk st = st_name st @ ''(Backend: '' @ bk_name bk (st_backend st) @ '')''"

definition on_backend :: "('b \<Rightarrow> 'a res \<times> 'b) \<Rightarrow> 'b store \<Rightarrow> 'a res \<times> 'b store" where
  "on_backend f st = (case f (st_backend st) of (r, b) \<Rightarrow> (r, st\<lparr>st_backend := b\<rparr>))"

definition store_Set ::
  "('b, 'i) backend_ops \<Rightarrow> goval \<Rightarrow> goval \<Rightarrow> int \<Rightarrow> 'b store \<Rightarrow> unit res \<times> 'b store" where
  "store_Set bk key value expiry st =
     bindR (wrapR ''key encode error'' (pureR (enc_encode (st_keyEncoder st) key))) (\<lambda>k.
       if value = GNil then on_backend (bk_delete bk (slice_bytes k))
       else bindR (wrapR ''value encode err'' (pureR (enc_encode (st_valEncoder st) value))) (\<lambda>v.
         on_backend (bk_set bk (slice_bytes k) v expiry))) st"

text \<open>The end of \<open>Get\<close>: nothing or an empty slice reads as nil, anything else is decoded.\<close>

definition decode_value :: "encoder \<Rightarrow> slice \<Rightarrow> goval res" where
  "decode_value enc byt = (if slice_len byt < 1 then Ok GNil else enc_decode enc byt)"

definition store_Get :: "('b, 'i) backend_ops \<Rightarrow> goval \<Rightarrow> 'b store \<Rightarrow> goval res" where
  "store_Get bk key st =
     bind_res (wrap_res ''key encode err'' (enc_encode (st_keyEncoder st) key)) (\<lambda>k.
       bind_res (wrap_res ''value dose not exist'' (bk_get bk (slice_bytes k) (st_backend st)))
         (\<lambda>byt. wrap_res ''value decode err'' (decode_value (st_valEncoder st) byt)))"

definition store_Delete :: "('b, 'i) backend_ops \<Rightarrow> goval \<Rightarrow> 'b store \<Rightarrow> unit res \<times> 'b store" where
  "store_Delete bk key st =
     bindR (wrapR ''key encode err'' (pureR (enc_encode (st_keyEncoder st) key))) (\<lambda>k.
       on_backend (bk_delete bk (slice_bytes k))) st"

definition store_Close :: "('b, 'i) backend_ops \<Rightarrow> 'b store \<Rightarrow> unit res \<times> 'b store" where
  "store_Close bk = on_backend (bk_close bk)"

definition store_Flush :: "('b, 'i) backend_ops \<Rightarrow> 'b store \<Rightarrow> unit res \<times> 'b store" where
  "store_Flush bk = on_backend (bk_flush bk)"

section \<open>Iterators\<close>

record 'i store_iter =
  si_i :: 'i
  si_keyEncoder :: encoder
  si_valEncoder :: encoder

definition NewIterator :: "'i \<Rightarrow> encoder \<Rightarrow> encoder \<Rightarrow> 'i store_iter" where
  "NewIterator i keyEnc valEnc = \<lparr>si_i = i, si_keyEncoder = keyEnc, si_valEncoder = valEnc\<rparr>"

definition si_SeekToFirst :: "'i iter_ops \<Rightarrow> 'i store_iter \<Rightarrow> 'i store_iter" where
  "si_SeekToFirst io i = i\<lparr>si_i := it_first io (si_i i)\<rparr>"

definition si_SeekToLast :: "'i iter_ops \<Rightarrow> 'i store_iter \<Rightarrow> 'i store_iter" where
  "si_SeekToLast io i = i\<lparr>si_i := it_last io (si_i i)\<rparr>"

definition si_Seek :: "'i iter_ops \<Rightarrow> goval \<Rightarrow> 'i store_iter \<Rightarrow> unit res \<times> 'i store_iter" where
  "si_Seek io key i =
     bindR (pureR (enc_encode (si_keyEncoder i) key))
       (\<lambda>k i. (Ok (), i\<lparr>si_i := it_seek io (slice_bytes k) (si_i i)\<rparr>)) i"

definition si_Next :: "'i iter_ops \<Rightarrow> 'i store_iter \<Rightarrow> 'i store_iter" where
  "si_Next io i = i\<lparr>si_i := it_next io (si_i i)\<rparr>"

definition si_Prev :: "'i iter_ops \<Rightarrow> 'i store_iter \<Rightarrow> 'i store_iter" where
  "si_Prev io i = i\<lparr>si_i := it_prev io (si_i i)\<rparr>"

definition si_Close :: "'i iter_ops \<Rightarrow> 'i store_iter \<Rightarrow> 'i store_iter" where
  "si_Close io i = i\<lparr>si_i := it_close io (si_i i)\<rparr>"

definition si_Key :: "'i iter_ops \<Rightarrow> 'i store_iter \<Rightarrow> goval res" where
  "si_Key io i = bind_res (it_key io (si_i i)) (\<lambda>k. decode_value (si_keyEncoder i) k)"

definition si_Value :: "'i iter_ops \<Rightarrow> 'i store_iter \<Rightarrow> goval res" where
  "si_Value io i = bind_res (it_value io (si_i i)) (\<lambda>v. decode_value (si_valEncoder i) v)"

definition si_Valid :: "'i iter_ops \<Rightarrow> 'i store_iter \<Rightarrow> bool" where
  "si_Valid io i = it_valid io (si_i i)"

definition si_Error :: "'i iter_ops \<Rightarrow> 'i store_iter \<Rightarrow> gerror option" where
  "si_Error io i = it_error io (si_i i)"

definition store_Iterator :: "('b, 'i) backend_ops \<Rightarrow> 'i iter_ops \<Rightarrow> 'b store \<Rightarrow> 'i store_iter res" where
  "store_Iterator bk io st =
     bind_res (bk_iterator bk (st_backend st))
       (\<lambda>i. Ok (NewIterator (it_first io i) (st_keyEncoder st) (st_valEncoder st)))"

definition store_PrefixedIterator ::
  "('b, 'i) backend_ops \<Rightarrow> 'i iter_ops \<Rightarrow> goval \<Rightarrow> encoder \<Rightarrow> 'b store \<Rightarrow> 'i store_iter res" where
  "store_PrefixedIterator bk io keyPrefix prefixEncoder st =
     bind_res (wrap_res ''prefix encode error'' (enc_encode prefixEncoder keyPrefix)) (\<lambda>prefix.
       bind_res (bk_prefixed bk (slice_bytes prefix) (st_backend st))
         (\<lambda>i. Ok (NewIterator (it_first io i) (st_keyEncoder st) (st_valEncoder st))))"

section \<open>The cache of a store\<close>

record 'c store_cache =
  sc_backendCache :: 'c
  sc_keyEncoder :: encoder
  sc_valEncoder :: encoder
  sc_storeName :: string

text \<open>
  \<open>Cache()\<close> asserts that the backend is a \<open>CacheableBackend\<close> without checking: \<open>None\<close> stands for a
  backend type without a \<open>Cache\<close> method, such as the memory backend.
\<close>

definition store_Cache :: "('c, 'b, 'i) cache_ops option \<Rightarrow> 'b store \<Rightarrow> 'c store_cache res" where
  "store_Cache cacheable st =
     (case cacheable of
        None \<Rightarrow> Panic ''interface conversion: missing method Cache''
      | Some ch \<Rightarrow> Ok \<lparr>sc_backendCache = ch_new ch (st_backend st), sc_keyEncoder = st_keyEncoder st,
          sc_valEncoder = st_valEncoder st, sc_storeName = st_name st\<rparr>)"

definition on_cache :: "('c \<Rightarrow> 'a res \<times> 'c) \<Rightarrow> 'c store_cache \<Rightarrow> 'a res \<times> 'c store_cache" where
  "on_cache f c = (case f (sc_backendCache c) of (r, b) \<Rightarrow> (r, c\<lparr>sc_backendCache := b\<rparr>))"

definition cache_Set ::
  "('c, 'b, 'i) cache_ops \<Rightarrow> goval \<Rightarrow> goval \<Rightarrow> int \<Rightarrow> 'c store_cache \<Rightarrow> unit res \<times> 'c store_cache" where
  "cache_Set ch key value expiry c =
     bindR (wrapR ''key encode error'' (pureR (enc_encode (sc_keyEncoder c) key))) (\<lambda>k.
       if value = GNil then on_cache (ch_delete ch (slice_bytes k))
       else bindR (wrapR ''value encode err'' (pureR (enc_encode (sc_valEncoder c) value))) (\<lambda>v.
         on_cache (ch_set ch (slice_bytes k) v expiry))) c"

definition cache_Delete :: "('c, 'b, 'i) cache_ops \<Rightarrow> goval \<Rightarrow> 'c store_cache \<Rightarrow> unit res \<times> 'c store_cache" where
  "cache_Delete ch key c =
     bindR (wrapR ''key encode err'' (pureR (enc_encode (sc_keyEncoder c) key))) (\<lambda>k.
       on_cache (ch_delete ch (slice_bytes k))) c"

definition cache_Get :: "('c, 'b, 'i) cache_ops \<Rightarrow> goval \<Rightarrow> 'c store_cache \<Rightarrow> 'b \<Rightarrow> goval res" where
  "cache_Get ch key c b =
     bind_res (wrap_res ''key encode err'' (enc_encode (sc_keyEncoder c) key)) (\<lambda>k.
       bind_res (wrap_res ''value dose not exist'' (ch_get ch (slice_bytes k) (sc_backendCache c) b))
         (\<lambda>byt. wrap_res ''value decode err'' (decode_value (sc_valEncoder c) byt)))"

definition cache_Iterator ::
  "('c, 'b, 'i) cache_ops \<Rightarrow> 'i iter_ops \<Rightarrow> 'c store_cache \<Rightarrow> 'b \<Rightarrow> 'i store_iter res" where
  "cache_Iterator ch io c b =
     bind_res (ch_iterator ch (sc_backendCache c) b)
       (\<lambda>i. Ok (NewIterator (it_first io i) (sc_keyEncoder c) (sc_valEncoder c)))"

definition cache_PrefixedIterator ::
  "('c, 'b, 'i) cache_ops \<Rightarrow> 'i iter_ops \<Rightarrow> goval \<Rightarrow> encoder \<Rightarrow> 'c store_cache \<Rightarrow> 'b \<Rightarrow> 'i store_iter res" where
  "cache_PrefixedIterator ch io keyPrefix prefixEncoder c b =
     bind_res (wrap_res ''prefix encode error'' (enc_encode prefixEncoder keyPrefix)) (\<lambda>prefix.
       bind_res (ch_prefixed ch (slice_bytes prefix) (sc_backendCache c) b)
         (\<lambda>i. Ok (NewIterator (it_first io i) (sc_keyEncoder c) (sc_valEncoder c))))"

definition cache_Flush ::
  "('c, 'b, 'i) cache_ops \<Rightarrow> 'c store_cache \<times> 'b \<Rightarrow> unit res \<times> ('c store_cache \<times> 'b)" where
  "cache_Flush ch cb = (case cb of (c, b) \<Rightarrow>
     (case ch_flush ch (sc_backendCache c, b) of
        (r, c', b') \<Rightarrow> (r, c\<lparr>sc_backendCache := c'\<rparr>, b')))"

definition cache_Close :: "('c, 'b, 'i) cache_ops \<Rightarrow> 'c store_cache \<Rightarrow> unit res \<times> 'c store_cache" where
  "cache_Close ch = on_cache (ch_close ch)"

definition cache_Reset :: "('c, 'b, 'i) cache_ops \<Rightarrow> 'c store_cache \<Rightarrow> 'c store_cache" where
  "cache_Reset ch c = c\<lparr>sc_backendCache := ch_reset ch (sc_backendCache c)\<rparr>"

section \<open>Builders\<close>

record 'b store_builder =
  sb_name :: string
  sb_keyEnc :: encoder
  sb_valEnc :: encoder
  sb_options :: "'b store_option list"

definition NewDefaultStoreBuilder ::
  "string \<Rightarrow> encoder \<Rightarrow> encoder \<Rightarrow> 'b store_option list \<Rightarrow> 'b store_builder" where
  "NewDefaultStoreBuilder name keyEnc valEnc options =
     \<lparr>sb_name = name, sb_keyEnc = keyEnc, sb_valEnc = valEnc, sb_options = options\<rparr>"

definition sb_Build ::
  "(string \<Rightarrow> 'b res) \<Rightarrow> string \<Rightarrow> 'b store_option list \<Rightarrow> 'b store_builder \<Rightarrow> 'b store res" where
  "sb_Build dflt name options d =
     NewStore dflt (if name = [] then sb_name d else name) (sb_keyEnc d) (sb_valEnc d)
       (sb_options d @ options)"

section \<open>The contract of a store\<close>

text \<open>
  What a store holds, as a map from keys to values: the decoded value of the bytes stored under the
  encoded key.
\<close>

definition content_of :: "encoder \<Rightarrow> encoder \<Rightarrow> (bytes \<Rightarrow> slice) \<Rightarrow> goval \<Rightarrow> goval option" where
  "content_of kenc venc w k =
     (case w (code_of kenc k) of None \<Rightarrow> None
      | Some b \<Rightarrow> (case enc_decode venc (Some b) of Ok v \<Rightarrow> Some v | _ \<Rightarrow> None))"

definition coded :: "encoder \<Rightarrow> (goval \<Rightarrow> bool) \<Rightarrow> encoder \<Rightarrow> (goval \<Rightarrow> bool) \<Rightarrow> (bytes \<Rightarrow> slice) \<Rightarrow> bool" where
  "coded kenc kdom venc vdom w \<longleftrightarrow>
     (\<forall>b s. w b = Some s \<longrightarrow> (\<exists>k v. kdom k \<and> vdom v \<and> b = code_of kenc k \<and> s = code_of venc v))"

text \<open>The invariant of a store: its backend's, and that every record in it was written by it.\<close>

definition store_inv ::
  "('b \<Rightarrow> bytes \<Rightarrow> slice) \<Rightarrow> ('b \<Rightarrow> bool) \<Rightarrow> encoder \<Rightarrow> (goval \<Rightarrow> bool) \<Rightarrow> encoder \<Rightarrow> (goval \<Rightarrow> bool) \<Rightarrow> 'b store \<Rightarrow> bool" where
  "store_inv view bok kenc kdom venc vdom st \<longleftrightarrow>
     bok (st_backend st) \<and> st_keyEncoder st = kenc \<and> st_valEncoder st = venc \<and>
     coded kenc kdom venc vdom (view (st_backend st))"

definition store_content :: "('b \<Rightarrow> bytes \<Rightarrow> slice) \<Rightarrow> 'b store \<Rightarrow> goval \<Rightarrow> goval option" where
  "store_content view st = content_of (st_keyEncoder st) (st_valEncoder st) (view (st_backend st))"

definition or_nil :: "goval option \<Rightarrow> goval" where
  "or_nil x = (case x of None \<Rightarrow> GNil | Some v \<Rightarrow> v)"

locale codecs = keyc: codec kenc kdom + valc: codec venc vdom
  for kenc kdom venc vdom +
  assumes nil_value: "\<not> vdom GNil"
begin

lemma content_coded:
  assumes "coded kenc kdom venc vdom w" "kdom k"
  shows "content_of kenc venc w k = None \<and> w (code_of kenc k) = None \<or>
    (\<exists>v. content_of kenc venc w k = Some v \<and> vdom v \<and> w (code_of kenc k) = Some (code_of venc v))"
proof (cases "w (code_of kenc k)")
  case None
  then show ?thesis by (simp add: content_of_def)
next
  case (Some s)
  with assms(1) obtain v where v: "vdom v" "s = code_of venc v" unfolding coded_def by blast
  with Some show ?thesis by (simp add: content_of_def valc.decode_code)
qed

lemma decode_coded:
  assumes "coded kenc kdom venc vdom w" "kdom k"
  shows "decode_value venc (w (code_of kenc k)) = Ok (or_nil (content_of kenc venc w k))"
  using content_coded [OF assms] valc.code_neq_Nil valc.decode_code
  by (auto simp: decode_value_def or_nil_def Suc_le_eq less_Suc_eq)

lemma coded_set:
  assumes "coded kenc kdom venc vdom w" "kdom k" "vdom v"
  shows "coded kenc kdom venc vdom (w(code_of kenc k := Some (code_of venc v)))"
  using assms by (auto simp: coded_def)

lemma coded_delete:
  assumes "coded kenc kdom venc vdom w"
  shows "coded kenc kdom venc vdom (w(b := None))"
  using assms by (auto simp: coded_def)

lemma content_set:
  assumes "kdom k" "vdom v" "kdom k'"
  shows "content_of kenc venc (w(code_of kenc k := Some (code_of venc v))) k'
    = (if k' = k then Some v else content_of kenc venc w k')"
  using assms by (simp add: content_of_def keyc.code_inject valc.decode_code)

lemma content_delete:
  assumes "kdom k" "kdom k'"
  shows "content_of kenc venc (w(code_of kenc k := None)) k'
    = (if k' = k then None else content_of kenc venc w k')"
  using assms by (simp add: content_of_def keyc.code_inject)

lemma content_inject:
  assumes "coded kenc kdom venc vdom w" "kdom k" "content_of kenc venc w k = Some v"
  shows "vdom v" "w (code_of kenc k) = Some (code_of venc v)" "v \<noteq> GNil"
  using content_coded [OF assms(1,2)] assms(3) nil_value by auto

end

locale typed_store = backend bk view inv + codecs kenc kdom venc vdom
  for bk :: "('b, 'i) backend_ops" and view inv kenc kdom venc vdom
begin

lemma get_content:
  assumes "store_inv view inv kenc kdom venc vdom st" "kdom k"
  shows "store_Get bk k st = Ok (or_nil (store_content view st k))"
  using assms decode_coded [of "view (st_backend st)" k]
  by (auto simp: store_inv_def store_Get_def store_content_def keyc.encode_code get_view)

lemma on_backend_Ok: "f (st_backend st) = (r, b) \<Longrightarrow> on_backend f st = (r, st\<lparr>st_backend := b\<rparr>)"
  by (simp add: on_backend_def)

lemma set_bytes:
  assumes "store_inv view inv kenc kdom venc vdom st" "kdom k" "vdom v"
  obtains b where "store_Set bk k v x st = (Ok (), st\<lparr>st_backend := b\<rparr>)" "inv b"
    "view b = (view (st_backend st))(code_of kenc k := Some (code_of venc v))"
proof -
  from assms(1) have i: "inv (st_backend st)" "st_keyEncoder st = kenc" "st_valEncoder st = venc"
    by (simp_all add: store_inv_def)
  obtain b where b: "bk_set bk (code_of kenc k) (Some (code_of venc v)) x (st_backend st) = (Ok (), b)"
    "inv b" "view b = (view (st_backend st))(code_of kenc k := Some (code_of venc v))"
    using setE [OF i(1)] by blast
  have "v \<noteq> GNil" using assms(3) nil_value by blast
  then have "store_Set bk k v x st = (Ok (), st\<lparr>st_backend := b\<rparr>)"
    using b(1) assms(2,3)
    by (simp add: store_Set_def i keyc.encode_code valc.encode_code bindR_def wrapR_def pureR_def
        on_backend_Ok)
  with b show thesis using that by blast
qed

lemma delete_bytes:
  assumes "store_inv view inv kenc kdom venc vdom st" "kdom k"
  obtains b where "store_Delete bk k st = (Ok (), st\<lparr>st_backend := b\<rparr>)"
    "store_Set bk k GNil x st = (Ok (), st\<lparr>st_backend := b\<rparr>)" "inv b"
    "view b = (view (st_backend st))(code_of kenc k := None)"
proof -
  from assms(1) have i: "inv (st_backend st)" "st_keyEncoder st = kenc" "st_valEncoder st = venc"
    by (simp_all add: store_inv_def)
  obtain b where b: "bk_delete bk (code_of kenc k) (st_backend st) = (Ok (), b)"
    "inv b" "view b = (view (st_backend st))(code_of kenc k := None)"
    using deleteE [OF i(1)] by blast
  then have "store_Delete bk k st = (Ok (), st\<lparr>st_backend := b\<rparr>)"
    "store_Set bk k GNil x st = (Ok (), st\<lparr>st_backend := b\<rparr>)"
    using assms(2) by (simp_all add: store_Delete_def store_Set_def i keyc.encode_code bindR_def
        wrapR_def pureR_def on_backend_Ok)
  with b show thesis using that by blast
qed

lemma set_content:
  assumes "store_inv view inv kenc kdom venc vdom st" "kdom k" "vdom v"
  shows "\<exists>st'. store_Set bk k v x st = (Ok (), st') \<and> store_inv view inv kenc kdom venc vdom st' \<and>
    st_name st' = st_name st \<and>
    (\<forall>k'. kdom k' \<longrightarrow> store_content view st' k' = (if k' = k then Some v else store_content view st k'))"
proof -
  from assms(1) have i: "st_keyEncoder st = kenc" "st_valEncoder st = venc"
    "coded kenc kdom venc vdom (view (st_backend st))" by (simp_all add: store_inv_def)
  from set_bytes [OF assms] obtain b where b: "store_Set bk k v x st = (Ok (), st\<lparr>st_backend := b\<rparr>)"
    "inv b" "view b = (view (st_backend st))(code_of kenc k := Some (code_of venc v))" .
  show ?thesis
    by (rule exI [of _ "st\<lparr>st_backend := b\<rparr>"])
      (simp add: b i store_inv_def store_content_def coded_set [OF i(3) assms(2,3)] content_set assms)
qed

lemma delete_content:
  assumes "store_inv view inv kenc kdom venc vdom st" "kdom k"
  shows "\<exists>st'. store_Delete bk k st = (Ok (), st') \<and> store_Set bk k GNil x st = (Ok (), st') \<and>
    store_inv view inv kenc kdom venc vdom st' \<and> st_name st' = st_name st \<and>
    (\<forall>k'. kdom k' \<longrightarrow> store_content view st' k' = (if k' = k then None else store_content view st k'))"
proof -
  from assms(1) have i: "st_keyEncoder st = kenc" "st_valEncoder st = venc"
    "coded kenc kdom venc vdom (view (st_backend st))" by (simp_all add: store_inv_def)
  from delete_bytes [OF assms] obtain b where b: "store_Delete bk k st = (Ok (), st\<lparr>st_backend := b\<rparr>)"
    "store_Set bk k GNil x st = (Ok (), st\<lparr>st_backend := b\<rparr>)"
    "inv b" "view b = (view (st_backend st))(code_of kenc k := None)" .
  show ?thesis
    by (rule exI [of _ "st\<lparr>st_backend := b\<rparr>"])
      (simp add: b i store_inv_def store_content_def coded_delete [OF i(3)] content_delete assms)
qed

end

interpretation mems: typed_store memory_backend mem_view mem_inv StringEncoder is_nonempty_str IntEncoder is_int
  by unfold_locales (simp add: is_int_def)

interpretation pebs: typed_store "pebble_backend ref_engine" "pb_view id" "pb_inv ref_inv"
  StringEncoder is_nonempty_str StringEncoder is_nonempty_str
  by unfold_locales (simp add: is_nonempty_str_def)

section \<open>Properties\<close>

definition sample_store :: "memory store" where
  "sample_store = \<lparr>st_name = ''s'', st_keyEncoder = StringEncoder, st_valEncoder = IntEncoder,
     st_backend = NewMemoryBackend ''s'' mem_NewConfig 0, st_backendBuilder = memory_builder mem_NewConfig 0\<rparr>"

lemma sample_store_new:
  "NewStore (memory_builder mem_NewConfig 0) ''s'' StringEncoder IntEncoder [] = Ok sample_store"
  by (simp add: NewStore_def so_apply_def so_default_def memory_builder_def sample_store_def)

lemma mem_view_new: "mem_view (NewMemoryBackend n c t) k = None"
  by (simp add: mem_view_def NewMemoryBackend_def)

lemma sample_store_inv: "store_inv mem_view mem_inv StringEncoder is_nonempty_str IntEncoder is_int sample_store"
  by (simp add: store_inv_def sample_store_def coded_def mem_view_new)

text \<open>C9: A store over any backend that meets the backend contract, with encoders that round-trip, is a map:
  after \<open>Set\<close> the key reads as the value and every other key as before; \<open>Delete\<close>, and \<open>Set\<close> with a nil
  value alike, remove exactly the key; none of them fails, and the invariant is kept.\<close>
theorem store_is_map:
  assumes "typed_store bk view bok kenc kdom venc vdom"
    and "store_inv view bok kenc kdom venc vdom st" "kdom k" "kdom k'" "vdom v"
  shows "(\<exists>st'. store_Set bk k v x st = (Ok (), st') \<and> store_inv view bok kenc kdom venc vdom st' \<and>
      store_Get bk k' st' = (if k' = k then Ok v else store_Get bk k' st)) \<and>
    (\<exists>st'. store_Delete bk k st = (Ok (), st') \<and> store_Set bk k GNil x st = (Ok (), st') \<and>
      store_inv view bok kenc kdom venc vdom st' \<and>
      store_Get bk k' st' = (if k' = k then Ok GNil else store_Get bk k' st))"
proof -
  note get = typed_store.get_content [OF assms(1) _ assms(4)]
  obtain s1 where s1: "store_Set bk k v x st = (Ok (), s1)" "store_inv view bok kenc kdom venc vdom s1"
    "\<forall>k'. kdom k' \<longrightarrow> store_content view s1 k' = (if k' = k then Some v else store_content view st k')"
    using typed_store.set_content [OF assms(1,2,3,5)] by blast
  obtain s2 where s2: "store_Delete bk k st = (Ok (), s2)" "store_Set bk k GNil x st = (Ok (), s2)"
    "store_inv view bok kenc kdom venc vdom s2"
    "\<forall>k'. kdom k' \<longrightarrow> store_content view s2 k' = (if k' = k then None else store_content view st k')"
    using typed_store.delete_content [OF assms(1,2,3)] by blast
  from s1 s2 assms(4) show ?thesis
    by (simp add: get [OF assms(2)] get [OF s1(2)] get [OF s2(3)] or_nil_def)
qed

theorem store_is_map_witness:
  "\<exists>st'. store_Set memory_backend (GStr ''a'') (GInt 7) 0 sample_store = (Ok (), st') \<and>
     store_Get memory_backend (GStr ''a'') st' = Ok (GInt 7)"
  using store_is_map [OF mems.typed_store_axioms sample_store_inv, of "GStr ''a''" "GStr ''a''" "GInt 7"]
  by (auto simp: is_nonempty_str_def is_int_def)

text \<open>A key or value that does not encode makes the operation fail with the encoder's error wrapped,
  and the store is left as it was.\<close>
theorem store_encode_error:
  assumes "enc_encode (st_keyEncoder st) k = Err e \<or>
      (enc_encode (st_keyEncoder st) k = Ok kb \<and> v \<noteq> GNil \<and> enc_encode (st_valEncoder st) v = Err e)"
  shows "\<exists>msg. store_Set bk k v x st = (Err (EWrap msg e), st) \<and>
    (enc_encode (st_keyEncoder st) k = Err e \<longrightarrow>
      (\<exists>m. store_Get bk k st = Err (EWrap m e) \<and> store_Delete bk k st = (Err (EWrap m e), st)))"
  using assms
  by (auto simp: store_Set_def store_Get_def store_Delete_def bindR_def wrapR_def pureR_def)

theorem store_encode_error_witness:
  "\<exists>msg. store_Set memory_backend (GStr ''a'') (GStr ''x'') 0 sample_store
     = (Err (EWrap msg (EPlain ''incorrect type expected (int)'')), sample_store)"
  using store_encode_error [of sample_store "GStr ''a''" "EPlain ''incorrect type expected (int)''"
      "Some (bytes_of ''a'')" "GStr ''x''" memory_backend 0]
  by (auto simp: sample_store_def StringEncoder_def string_Encode_def IntEncoder_def int_Encode_def)

end
