(* ===== verification/Index.thy ===== *)
theory Index
  imports Store
begin

text \<open>
  Secondary indexes: \<open>src/streams/stores/index.go\<close>, \<open>index_utils.go\<close>, \<open>index_iterator.go\<close> and
  \<open>indexed_store.go\<close>. An index keeps, in a backend of its own, an entry for every record of the store:
  its key is the string the mapper computes followed by the encoded record key, its value the encoded record key.
  The mutexes make each operation one step; they are not modelled further. The indexes of a store are a list
  in place of a Go map, in any order.
\<close>

section \<open>The index\<close>

record 'b index =
  ix_mapper :: "goval \<Rightarrow> goval \<Rightarrow> string"
  ix_name :: string
  ix_backend :: 'b
  ix_keyEncoder :: encoder

record idx_builder =
  ib_name :: string
  ib_mapper :: "goval \<Rightarrow> goval \<Rightarrow> string"

definition NewIndex :: "string \<Rightarrow> (goval \<Rightarrow> goval \<Rightarrow> string) \<Rightarrow> idx_builder" where
  "NewIndex name mapper = \<lparr>ib_name = name, ib_mapper = mapper\<rparr>"

definition idb_Build ::
  "string \<Rightarrow> (string \<Rightarrow> 'b res) \<Rightarrow> encoder \<Rightarrow> idx_builder \<Rightarrow> 'b index res" where
  "idb_Build storeName backend_builder keyEncoder idb =
     bind_res (wrap_res ''index create failed'' (backend_builder (storeName @ ''-idx-'' @ ib_name idb)))
       (\<lambda>bk. Ok \<lparr>ix_mapper = ib_mapper idb, ix_name = ib_name idb, ix_backend = bk,
          ix_keyEncoder = keyEncoder\<rparr>)"

definition on_index :: "('b \<Rightarrow> 'a res \<times> 'b) \<Rightarrow> 'b index \<Rightarrow> 'a res \<times> 'b index" where
  "on_index f ix = (case f (ix_backend ix) of (r, b) \<Rightarrow> (r, ix\<lparr>ix_backend := b\<rparr>))"

definition idx_KeyPrefixer :: "goval \<Rightarrow> goval \<Rightarrow> 'b index \<Rightarrow> string" where
  "idx_KeyPrefixer key val ix = ix_mapper ix key val"

definition idx_Write :: "('b, 'i) backend_ops \<Rightarrow> goval \<Rightarrow> goval \<Rightarrow> 'b index \<Rightarrow> unit res \<times> 'b index" where
  "idx_Write bk key value ix =
     bindR (pureR (enc_encode (ix_keyEncoder ix) key)) (\<lambda>keyByt.
       let hashKey = ix_mapper ix key value
       in on_index (bk_set bk (bytes_of (hashKey @ string_of (slice_bytes keyByt))) keyByt 0)) ix"

definition idx_KeyIndexed :: "('b, 'i) backend_ops \<Rightarrow> string \<Rightarrow> goval \<Rightarrow> 'b index \<Rightarrow> bool res" where
  "idx_KeyIndexed bk indx key ix =
     bind_res (enc_encode (ix_keyEncoder ix) key) (\<lambda>keyByt.
       bind_res (bk_get bk (bytes_of indx @ slice_bytes keyByt) (ix_backend ix))
         (\<lambda>kIdxed. Ok (kIdxed \<noteq> None)))"

definition idx_Compare :: "('b, 'i) backend_ops \<Rightarrow> goval \<Rightarrow> goval \<Rightarrow> goval \<Rightarrow> 'b index \<Rightarrow> bool res" where
  "idx_Compare bk key valBefore valAfter ix =
     (let prefix = idx_KeyPrefixer key valBefore ix
      in bind_res (enc_encode (ix_keyEncoder ix) key) (\<lambda>keyByt.
           bind_res (bk_get bk (bytes_of prefix @ slice_bytes keyByt) (ix_backend ix)) (\<lambda>kIdxed.
             if slice_len kIdxed < 1 then Ok False
             else (let prefixNew = idx_KeyPrefixer key valAfter ix
                   in Ok (prefix @ string_of (slice_bytes keyByt)
                        = prefixNew @ string_of (slice_bytes keyByt))))))"

definition idx_Delete :: "('b, 'i) backend_ops \<Rightarrow> goval \<Rightarrow> goval \<Rightarrow> 'b index \<Rightarrow> unit res \<times> 'b index" where
  "idx_Delete bk key value ix =
     bindR (pureR (enc_encode (ix_keyEncoder ix) key)) (\<lambda>keyByt.
       on_index (bk_delete bk (bytes_of (ix_mapper ix key value) @ slice_bytes keyByt))) ix"

text \<open>\<open>None\<close>: the loop does not end.\<close>

definition idx_Values :: "('b, 'i) backend_ops \<Rightarrow> 'i iter_ops \<Rightarrow> string \<Rightarrow> 'b index \<Rightarrow> string list res option" where
  "idx_Values bk io key ix =
     (case bk_prefixed bk (bytes_of key) (ix_backend ix) of
        Ok itr \<Rightarrow>
          map_option (\<lambda>(r, vals). bind_res r (\<lambda>_. Ok vals))
            (iter_loop io
              (\<lambda>j. bindR (pureR (it_value io j))
                     (\<lambda>v vals. (Ok (), vals @ [string_of (slice_bytes v)])))
              (it_first io itr) [])
      | Err e \<Rightarrow> Some (Err e)
      | Panic p \<Rightarrow> Some (Panic p))"

definition idx_Keys :: "('b, 'i) backend_ops \<Rightarrow> 'i iter_ops \<Rightarrow> 'b index \<Rightarrow> string list res option" where
  "idx_Keys bk io ix =
     (case bk_iterator bk (ix_backend ix) of
        Ok itr \<Rightarrow>
          map_option (\<lambda>(r, keys). bind_res r (\<lambda>_. Ok keys))
            (iter_loop io
              (\<lambda>j. bindR (pureR (it_key io j))
                     (\<lambda>k keys. (Ok (), keys @ [string_of (slice_bytes k)])))
              (it_first io itr) [])
      | Err e \<Rightarrow> Some (Err e)
      | Panic p \<Rightarrow> Some (Panic p))"

definition idx_Read :: "('b, 'i) backend_ops \<Rightarrow> string \<Rightarrow> 'b index \<Rightarrow> 'i res" where
  "idx_Read bk key ix = bk_prefixed bk (bytes_of key) (ix_backend ix)"

definition idx_Close :: "('b, 'i) backend_ops \<Rightarrow> 'b index \<Rightarrow> unit res \<times> 'b index" where
  "idx_Close bk = on_index (bk_close bk)"

section \<open>Keeping the indexes up to date\<close>

record 'b indexed_store =
  is_store :: "'b store"
  is_indexes :: "'b index list"

definition on_store :: "('b store \<Rightarrow> 'a res \<times> 'b store) \<Rightarrow> 'b indexed_store \<Rightarrow> 'a res \<times> 'b indexed_store" where
  "on_store f s = (case f (is_store s) of (r, st) \<Rightarrow> (r, s\<lparr>is_store := st\<rparr>))"

definition on_indexes ::
  "('b index \<Rightarrow> unit res \<times> 'b index) \<Rightarrow> 'b indexed_store \<Rightarrow> unit res \<times> 'b indexed_store" where
  "on_indexes f s = (case eachR f (is_indexes s) of (r, ixs) \<Rightarrow> (r, s\<lparr>is_indexes := ixs\<rparr>))"

definition updateIndex ::
  "('b, 'i) backend_ops \<Rightarrow> goval \<Rightarrow> goval \<Rightarrow> goval \<Rightarrow> 'b index \<Rightarrow> unit res \<times> 'b index" where
  "updateIndex bk key valPrv val ix =
     (let write = wrapR ''index write failed'' (idx_Write bk key val)
      in if valPrv \<noteq> GNil then
           bindR (\<lambda>ix. (wrap_res ''indexed value compare failed'' (idx_Compare bk key valPrv val ix), ix))
             (\<lambda>equal. if equal then retR ()
                else bindR (wrapR ''index delete failed'' (idx_Delete bk key valPrv)) (\<lambda>_. write)) ix
         else write ix)"

definition UpdateIndexes ::
  "('b, 'i) backend_ops \<Rightarrow> goval \<Rightarrow> goval \<Rightarrow> 'b indexed_store \<Rightarrow> unit res \<times> 'b indexed_store" where
  "UpdateIndexes bk key val s =
     bindR (\<lambda>s. (wrap_res ''cannot fetch value'' (store_Get bk key (is_store s)), s)) (\<lambda>valPrv.
       on_indexes (wrapR ''index update failed'' (updateIndex bk key valPrv val))) s"

definition DeleteIndexes ::
  "('b, 'i) backend_ops \<Rightarrow> goval \<Rightarrow> 'b indexed_store \<Rightarrow> unit res \<times> 'b indexed_store" where
  "DeleteIndexes bk key s =
     bindR (\<lambda>s. (wrap_res ''record fetch error'' (store_Get bk key (is_store s)), s)) (\<lambda>val.
       if val \<noteq> GNil then on_indexes (wrapR ''indexed value delete error'' (idx_Delete bk key val))
       else retR ()) s"

section \<open>The indexed store\<close>

text \<open>The loop of \<open>NewIndexedStore\<close> over the index builders.\<close>

fun build_indexes ::
  "string \<Rightarrow> (string \<Rightarrow> 'b res) \<Rightarrow> encoder \<Rightarrow> idx_builder list \<Rightarrow> 'b index list \<Rightarrow> 'b index list res" where
  "build_indexes storeName builder keyEnc [] idxs = Ok idxs"
| "build_indexes storeName builder keyEnc (idb # idbs) idxs =
     (if ib_name idb \<in> ix_name ` set idxs then Err (EPlain ''index already exists'')
      else bind_res (idb_Build storeName builder keyEnc idb)
             (\<lambda>ix. build_indexes storeName builder keyEnc idbs (idxs @ [ix])))"

definition NewIndexedStore ::
  "(string \<Rightarrow> 'b res) \<Rightarrow> string \<Rightarrow> encoder \<Rightarrow> encoder \<Rightarrow> idx_builder list \<Rightarrow> 'b store_option list
    \<Rightarrow> 'b indexed_store res" where
  "NewIndexedStore dflt name keyEncoder valEncoder indexes options =
     bind_res (NewStore dflt name keyEncoder valEncoder options) (\<lambda>str.
       bind_res (build_indexes (st_name str) (st_backendBuilder str) (st_keyEncoder str) indexes [])
         (\<lambda>idxs. Ok \<lparr>is_store = str, is_indexes = idxs\<rparr>))"

definition ixs_Set ::
  "('b, 'i) backend_ops \<Rightarrow> goval \<Rightarrow> goval \<Rightarrow> int \<Rightarrow> 'b indexed_store \<Rightarrow> unit res \<times> 'b indexed_store" where
  "ixs_Set bk key val expiry =
     bindR (wrapR ''indexes update failed'' (UpdateIndexes bk key val)) (\<lambda>_.
       on_store (store_Set bk key val expiry))"

definition ixs_Delete ::
  "('b, 'i) backend_ops \<Rightarrow> goval \<Rightarrow> 'b indexed_store \<Rightarrow> unit res \<times> 'b indexed_store" where
  "ixs_Delete bk key =
     bindR (wrapR ''indexes delete failed'' (DeleteIndexes bk key)) (\<lambda>_.
       on_store (store_Delete bk key))"

definition ixs_GetIndex :: "string \<Rightarrow> 'b indexed_store \<Rightarrow> 'b index res" where
  "ixs_GetIndex name s = (case find (\<lambda>ix. ix_name ix = name) (is_indexes s) of
      None \<Rightarrow> Err (EPlain ''associate does not exist'')
    | Some ix \<Rightarrow> Ok ix)"

record ('b, 'i) index_iter =
  ii_store :: "'b store"
  ii_idx :: "'b index"
  ii_itr :: 'i

definition ixs_GetIndexedRecords ::
  "('b, 'i) backend_ops \<Rightarrow> string \<Rightarrow> string \<Rightarrow> 'b indexed_store \<Rightarrow> ('b, 'i) index_iter res" where
  "ixs_GetIndexedRecords bk indexName key s =
     (case find (\<lambda>ix. ix_name ix = indexName) (is_indexes s) of
        None \<Rightarrow> Err (EPlain ''index does not exist'')
      | Some ix \<Rightarrow> bind_res (idx_Read bk key ix)
          (\<lambda>itr. Ok \<lparr>ii_store = is_store s, ii_idx = ix, ii_itr = itr\<rparr>))"

definition ii_SeekToFirst :: "'i iter_ops \<Rightarrow> ('b, 'i) index_iter \<Rightarrow> ('b, 'i) index_iter" where
  "ii_SeekToFirst io i = i\<lparr>ii_itr := it_first io (ii_itr i)\<rparr>"

definition ii_Next :: "'i iter_ops \<Rightarrow> ('b, 'i) index_iter \<Rightarrow> ('b, 'i) index_iter" where
  "ii_Next io i = i\<lparr>ii_itr := it_next io (ii_itr i)\<rparr>"

definition ii_Close :: "'i iter_ops \<Rightarrow> ('b, 'i) index_iter \<Rightarrow> ('b, 'i) index_iter" where
  "ii_Close io i = i\<lparr>ii_itr := it_close io (ii_itr i)\<rparr>"

definition ii_Key :: "'i iter_ops \<Rightarrow> ('b, 'i) index_iter \<Rightarrow> goval res" where
  "ii_Key io i = bind_res (it_key io (ii_itr i)) (\<lambda>k. Ok (GBytes k))"

definition ii_Value :: "('b, 'i) backend_ops \<Rightarrow> 'i iter_ops \<Rightarrow> ('b, 'i) index_iter \<Rightarrow> goval res" where
  "ii_Value bk io i =
     bind_res (it_value io (ii_itr i)) (\<lambda>kb.
       bind_res (wrap_res ''key decode error'' (enc_decode (st_keyEncoder (ii_store i)) kb)) (\<lambda>key.
         wrap_res ''value get failed'' (store_Get bk key (ii_store i))))"

definition ii_Valid :: "'i iter_ops \<Rightarrow> ('b, 'i) index_iter \<Rightarrow> bool" where
  "ii_Valid io i = it_valid io (ii_itr i)"

definition ii_Error :: "'i iter_ops \<Rightarrow> ('b, 'i) index_iter \<Rightarrow> gerror option" where
  "ii_Error io i = it_error io (ii_itr i)"

text \<open>\<open>RebuildIndexes\<close>: the iteration is over a snapshot of the store, which the body does not change.\<close>

definition rebuild_body ::
  "('b, 'i) backend_ops \<Rightarrow> 'i iter_ops \<Rightarrow> 'i store_iter \<Rightarrow> 'b indexed_store \<Rightarrow> unit res \<times> 'b indexed_store" where
  "rebuild_body bk io itr =
     bindR (wrapR ''itr key failed'' (pureR (si_Key io itr))) (\<lambda>key.
       bindR (wrapR ''itr value failed'' (pureR (si_Value io itr))) (\<lambda>val.
         wrapR ''cannot update indexes'' (UpdateIndexes bk key val)))"

definition store_iter_ops :: "'i iter_ops \<Rightarrow> 'i store_iter iter_ops" where
  "store_iter_ops io = \<lparr>it_first = si_SeekToFirst io, it_last = si_SeekToLast io,
     it_seek = (\<lambda>k i. i\<lparr>si_i := it_seek io k (si_i i)\<rparr>),
     it_next = si_Next io, it_prev = si_Prev io, it_close = si_Close io,
     it_key = (\<lambda>i. it_key io (si_i i)), it_value = (\<lambda>i. it_value io (si_i i)),
     it_valid = si_Valid io, it_error = si_Error io\<rparr>"

definition ixs_RebuildIndexes ::
  "('b, 'i) backend_ops \<Rightarrow> 'i iter_ops \<Rightarrow> 'b indexed_store \<Rightarrow> (unit res \<times> 'b indexed_store) option" where
  "ixs_RebuildIndexes bk io s =
     (case on_indexes (on_index (bk_deleteAll bk)) s of
        (Err e, s') \<Rightarrow> Some (Err e, s')
      | (Panic p, s') \<Rightarrow> Some (Panic p, s')
      | (Ok _, s') \<Rightarrow>
          (case wrap_res ''store iterator failed'' (store_Iterator bk io (is_store s')) of
             Err e \<Rightarrow> Some (Err e, s')
           | Panic p \<Rightarrow> Some (Panic p, s')
           | Ok itr \<Rightarrow> iter_loop (store_iter_ops io) (rebuild_body bk io) (si_SeekToFirst io itr) s'))"

section \<open>Consistency\<close>

definition idx_key :: "'b index \<Rightarrow> goval \<Rightarrow> goval \<Rightarrow> bytes" where
  "idx_key ix k v = bytes_of (ix_mapper ix k v) @ code_of (ix_keyEncoder ix) k"

text \<open>
  An entry of the index belongs to one record key only. Since the mapper's string and the encoded key are
  concatenated without a separator, this does not hold for every mapper.
\<close>

definition unambiguous :: "(goval \<Rightarrow> bool) \<Rightarrow> 'b index \<Rightarrow> bool" where
  "unambiguous kdom ix \<longleftrightarrow>
     (\<forall>k v k' v'. kdom k \<and> kdom k' \<and> idx_key ix k v = idx_key ix k' v' \<longrightarrow> k = k')"

text \<open>The index has an entry for every record of the store, and no other entry.\<close>

definition index_inv ::
  "('b \<Rightarrow> bytes \<Rightarrow> slice) \<Rightarrow> ('b \<Rightarrow> bool) \<Rightarrow> encoder \<Rightarrow> (goval \<Rightarrow> bool) \<Rightarrow> (goval \<Rightarrow> goval option) \<Rightarrow> 'b index \<Rightarrow> bool" where
  "index_inv view bok kenc kdom content ix \<longleftrightarrow>
     bok (ix_backend ix) \<and> ix_keyEncoder ix = kenc \<and> unambiguous kdom ix \<and>
     (\<forall>k v. kdom k \<and> content k = Some v \<longrightarrow>
        view (ix_backend ix) (idx_key ix k v) = Some (code_of kenc k)) \<and>
     (\<forall>b s. view (ix_backend ix) b = Some s \<longrightarrow>
        (\<exists>k v. kdom k \<and> content k = Some v \<and> b = idx_key ix k v \<and> s = code_of kenc k))"

definition ixs_inv ::
  "('b \<Rightarrow> bytes \<Rightarrow> slice) \<Rightarrow> ('b \<Rightarrow> bool) \<Rightarrow> encoder \<Rightarrow> (goval \<Rightarrow> bool) \<Rightarrow> encoder \<Rightarrow> (goval \<Rightarrow> bool)
    \<Rightarrow> 'b indexed_store \<Rightarrow> bool" where
  "ixs_inv view bok kenc kdom venc vdom s \<longleftrightarrow>
     store_inv view bok kenc kdom venc vdom (is_store s) \<and>
     list_all (index_inv view bok kenc kdom (store_content view (is_store s))) (is_indexes s)"

lemma idx_key_backend [simp]:
  "idx_key (ix\<lparr>ix_backend := b\<rparr>) = idx_key ix"
  "unambiguous kdom (ix\<lparr>ix_backend := b\<rparr>) = unambiguous kdom ix"
  by (simp_all add: idx_key_def fun_eq_iff unambiguous_def)

lemma index_inv_cong:
  assumes "\<And>k. kdom k \<Longrightarrow> c k = c' k"
  shows "index_inv view bok kenc kdom c ix = index_inv view bok kenc kdom c' ix"
  unfolding index_inv_def using assms by metis

context typed_store
begin

definition index_ok :: "'b index \<Rightarrow> bool" where
  "index_ok ix \<longleftrightarrow> inv (ix_backend ix) \<and> ix_keyEncoder ix = kenc"

lemma index_ok_update: "index_ok ix \<Longrightarrow> inv b \<Longrightarrow> index_ok (ix\<lparr>ix_backend := b\<rparr>)"
  by (simp add: index_ok_def)

lemma write_view:
  assumes "index_ok ix" "kdom k"
  obtains b where "idx_Write bk k v ix = (Ok (), ix\<lparr>ix_backend := b\<rparr>)" "inv b"
    "view b = (view (ix_backend ix))(idx_key ix k v := Some (code_of kenc k))"
proof -
  from assms(1) have i: "inv (ix_backend ix)" "ix_keyEncoder ix = kenc" by (simp_all add: index_ok_def)
  obtain b where b: "bk_set bk (idx_key ix k v) (Some (code_of kenc k)) 0 (ix_backend ix) = (Ok (), b)"
    "inv b" "view b = (view (ix_backend ix))(idx_key ix k v := Some (code_of kenc k))"
    using setE [OF i(1)] by blast
  then have "idx_Write bk k v ix = (Ok (), ix\<lparr>ix_backend := b\<rparr>)"
    using assms(2) by (simp add: idx_Write_def i keyc.encode_code bindR_def pureR_def on_index_def
        Let_def idx_key_def bytes_of_append)
  with b show thesis using that by blast
qed

lemma idx_delete_view:
  assumes "index_ok ix" "kdom k"
  obtains b where "idx_Delete bk k v ix = (Ok (), ix\<lparr>ix_backend := b\<rparr>)" "inv b"
    "view b = (view (ix_backend ix))(idx_key ix k v := None)"
proof -
  from assms(1) have i: "inv (ix_backend ix)" "ix_keyEncoder ix = kenc" by (simp_all add: index_ok_def)
  obtain b where b: "bk_delete bk (idx_key ix k v) (ix_backend ix) = (Ok (), b)"
    "inv b" "view b = (view (ix_backend ix))(idx_key ix k v := None)"
    using deleteE [OF i(1)] by blast
  then have "idx_Delete bk k v ix = (Ok (), ix\<lparr>ix_backend := b\<rparr>)"
    using assms(2) by (simp add: idx_Delete_def i keyc.encode_code bindR_def pureR_def on_index_def
        idx_key_def)
  with b show thesis using that by blast
qed

lemma compare_view:
  assumes "index_ok ix" "kdom k"
  shows "idx_Compare bk k v w ix =
    Ok (slice_len (view (ix_backend ix) (idx_key ix k v)) \<ge> 1 \<and> idx_key ix k v = idx_key ix k w)"
proof -
  have "(s @ string_of c = t @ string_of c) = (bytes_of s @ c = bytes_of t @ c)" for s t c
    by simp
  then show ?thesis
    using assms get_view
    by (simp add: index_ok_def idx_Compare_def keyc.encode_code idx_key_def idx_KeyPrefixer_def Let_def)
qed

lemma update_view:
  assumes "index_ok ix" "kdom k"
  obtains b where "updateIndex bk k p v ix = (Ok (), ix\<lparr>ix_backend := b\<rparr>)" "inv b"
    "view b = (let w = view (ix_backend ix); e = Some (code_of kenc k)
       in if p = GNil then w(idx_key ix k v := e)
          else if slice_len (w (idx_key ix k p)) \<ge> 1 \<and> idx_key ix k p = idx_key ix k v then w
          else w(idx_key ix k p := None, idx_key ix k v := e))"
proof (cases "p = GNil")
  case True
  obtain b where "idx_Write bk k v ix = (Ok (), ix\<lparr>ix_backend := b\<rparr>)" "inv b"
    "view b = (view (ix_backend ix))(idx_key ix k v := Some (code_of kenc k))"
    using write_view [OF assms] .
  with True show ?thesis using that [of b] by (simp add: updateIndex_def Let_def wrapR_def)
next
  case False
  have c: "(wrap_res m (idx_Compare bk k p v ix), ix) =
      (Ok (slice_len (view (ix_backend ix) (idx_key ix k p)) \<ge> 1 \<and> idx_key ix k p = idx_key ix k v), ix)" for m
    by (simp add: compare_view [OF assms])
  show ?thesis
  proof (cases "slice_len (view (ix_backend ix) (idx_key ix k p)) \<ge> 1 \<and> idx_key ix k p = idx_key ix k v")
    case True
    then have "updateIndex bk k p v ix = (Ok (), ix\<lparr>ix_backend := ix_backend ix\<rparr>)"
      using False by (simp only: updateIndex_def bindR_def c True) (simp add: retR_def True)
    moreover have "Suc 0 \<le> slice_len (view (ix_backend ix) (idx_key ix k v))"
      "idx_key ix k p = idx_key ix k v" using True by auto
    ultimately show ?thesis
      using that [of "ix_backend ix"] assms(1) False by (simp add: index_ok_def Let_def)
  next
    case no: False
    obtain b1 where b1: "idx_Delete bk k p ix = (Ok (), ix\<lparr>ix_backend := b1\<rparr>)" "inv b1"
      "view b1 = (view (ix_backend ix))(idx_key ix k p := None)"
      using idx_delete_view [OF assms] .
    obtain b2 where b2: "idx_Write bk k v (ix\<lparr>ix_backend := b1\<rparr>) = (Ok (), ix\<lparr>ix_backend := b2\<rparr>)" "inv b2"
      "view b2 = (view b1)(idx_key ix k v := Some (code_of kenc k))"
      using write_view [OF index_ok_update [OF assms(1) b1(2)] assms(2)] by auto
    have "updateIndex bk k p v ix = (Ok (), ix\<lparr>ix_backend := b2\<rparr>)"
      using False no b1(1) b2(1)
      by (simp only: updateIndex_def bindR_def c no) (simp add: wrapR_def bindR_def)
    with False no show ?thesis using that [of b2] b1(3) b2(2,3) by (auto simp: Let_def)
  qed
qed

text \<open>Updating the index keeps it consistent with the store's next content.\<close>

lemma update_inv:
  assumes "index_inv view inv kenc kdom c ix" "kdom k" "c k \<noteq> Some GNil"
    and c': "\<And>k'. kdom k' \<Longrightarrow> c' k' = (if k' = k then Some v else c k')"
  shows "\<exists>ix'. updateIndex bk k (or_nil (c k)) v ix = (Ok (), ix') \<and> index_inv view inv kenc kdom c' ix'"
proof -
  from assms(1) have ok: "index_ok ix" and u: "unambiguous kdom ix"
    by (simp_all add: index_inv_def index_ok_def)
  have all: "\<And>k v. kdom k \<Longrightarrow> c k = Some v \<Longrightarrow> view (ix_backend ix) (idx_key ix k v) = Some (code_of kenc k)"
    and only: "\<And>b s. view (ix_backend ix) b = Some s \<Longrightarrow>
      \<exists>k v. kdom k \<and> c k = Some v \<and> b = idx_key ix k v \<and> s = code_of kenc k"
    using assms(1) unfolding index_inv_def by blast+
  have diff: "idx_key ix k' w \<noteq> idx_key ix k w'" if "kdom k'" "k' \<noteq> k" for k' w w'
    using u that assms(2) unfolding unambiguous_def by blast
  obtain b where b: "updateIndex bk k (or_nil (c k)) v ix = (Ok (), ix\<lparr>ix_backend := b\<rparr>)" "inv b"
    "view b = (let w = view (ix_backend ix); e = Some (code_of kenc k); p = or_nil (c k)
       in if p = GNil then w(idx_key ix k v := e)
          else if slice_len (w (idx_key ix k p)) \<ge> 1 \<and> idx_key ix k p = idx_key ix k v then w
          else w(idx_key ix k p := None, idx_key ix k v := e))"
    by (rule update_view [OF ok assms(2), of "or_nil (c k)" v]) (simp add: Let_def)
  have w: "view b = (case c k of None \<Rightarrow> (view (ix_backend ix))(idx_key ix k v := Some (code_of kenc k))
      | Some p \<Rightarrow> (view (ix_backend ix))(idx_key ix k p := None, idx_key ix k v := Some (code_of kenc k)))"
    using b(3) assms(3) all [OF assms(2)]
    by (auto simp: Let_def or_nil_def fun_eq_iff split: option.splits if_splits)
  have "index_inv view inv kenc kdom c' (ix\<lparr>ix_backend := b\<rparr>)"
    unfolding index_inv_def
  proof (intro conjI allI impI)
    fix k' v' assume a: "kdom k' \<and> c' k' = Some v'"
    then show "view (ix_backend (ix\<lparr>ix_backend := b\<rparr>)) (idx_key (ix\<lparr>ix_backend := b\<rparr>) k' v') = Some (code_of kenc k')"
      using c' [of k'] all [of k' v'] diff [of k' v'] by (auto simp: w split: if_splits option.splits)
  next
    fix b' s assume a: "view (ix_backend (ix\<lparr>ix_backend := b\<rparr>)) b' = Some s"
    show "\<exists>k v. kdom k \<and> c' k = Some v \<and> b' = idx_key (ix\<lparr>ix_backend := b\<rparr>) k v \<and> s = code_of kenc k"
    proof (cases "b' = idx_key ix k v")
      case True
      with a c' [OF assms(2)] assms(2) show ?thesis by (auto simp: w split: option.splits)
    next
      case False
      with a have v': "view (ix_backend ix) b' = Some s" and
        p: "\<And>p. c k = Some p \<Longrightarrow> b' \<noteq> idx_key ix k p"
        by (auto simp: w split: option.splits if_splits)
      from only [OF v'] obtain k1 v1 where k1: "kdom k1" "c k1 = Some v1" "b' = idx_key ix k1 v1"
        "s = code_of kenc k1" by blast
      with p have "k1 \<noteq> k" by blast
      with k1 c' [OF k1(1)] show ?thesis by auto
    qed
  qed (use b(2) ok u in \<open>simp_all add: index_ok_def\<close>)
  with b(1) show ?thesis by blast
qed

lemma delete_inv:
  assumes "index_inv view inv kenc kdom c ix" "kdom k" "c k = Some v"
    and c': "\<And>k'. kdom k' \<Longrightarrow> c' k' = (if k' = k then None else c k')"
  shows "\<exists>ix'. idx_Delete bk k v ix = (Ok (), ix') \<and> index_inv view inv kenc kdom c' ix'"
proof -
  from assms(1) have ok: "index_ok ix" and u: "unambiguous kdom ix"
    by (simp_all add: index_inv_def index_ok_def)
  have all: "\<And>k v. kdom k \<Longrightarrow> c k = Some v \<Longrightarrow> view (ix_backend ix) (idx_key ix k v) = Some (code_of kenc k)"
    and only: "\<And>b s. view (ix_backend ix) b = Some s \<Longrightarrow>
      \<exists>k v. kdom k \<and> c k = Some v \<and> b = idx_key ix k v \<and> s = code_of kenc k"
    using assms(1) unfolding index_inv_def by blast+
  have diff: "idx_key ix k' w \<noteq> idx_key ix k w'" if "kdom k'" "k' \<noteq> k" for k' w w'
    using u that assms(2) unfolding unambiguous_def by blast
  obtain b where b: "idx_Delete bk k v ix = (Ok (), ix\<lparr>ix_backend := b\<rparr>)" "inv b"
    "view b = (view (ix_backend ix))(idx_key ix k v := None)"
    using idx_delete_view [OF ok assms(2)] .
  have "index_inv view inv kenc kdom c' (ix\<lparr>ix_backend := b\<rparr>)"
    unfolding index_inv_def
  proof (intro conjI allI impI)
    fix k' v' assume "kdom k' \<and> c' k' = Some v'"
    then show "view (ix_backend (ix\<lparr>ix_backend := b\<rparr>)) (idx_key (ix\<lparr>ix_backend := b\<rparr>) k' v') = Some (code_of kenc k')"
      using c' [of k'] all [of k' v'] diff [of k' v'] by (auto simp: b(3) split: if_splits)
  next
    fix b' s assume "view (ix_backend (ix\<lparr>ix_backend := b\<rparr>)) b' = Some s"
    then have b': "b' \<noteq> idx_key ix k v" "view (ix_backend ix) b' = Some s"
      by (auto simp: b(3) split: if_splits)
    from only [OF b'(2)] obtain k1 v1 where k1: "kdom k1" "c k1 = Some v1" "b' = idx_key ix k1 v1"
      "s = code_of kenc k1" by blast
    with b'(1) assms(3) have "k1 \<noteq> k" by auto
    with k1 c' [OF k1(1)]
    show "\<exists>k v. kdom k \<and> c' k = Some v \<and> b' = idx_key (ix\<lparr>ix_backend := b\<rparr>) k v \<and> s = code_of kenc k"
      by auto
  qed (use b(2) ok u in \<open>simp_all add: index_ok_def\<close>)
  with b(1) show ?thesis by blast
qed

lemma on_indexes_inv:
  assumes "list_all (index_inv view inv kenc kdom c) (is_indexes s)"
    and "\<And>ix. index_inv view inv kenc kdom c ix \<Longrightarrow> \<exists>ix'. f ix = (Ok (), ix') \<and> index_inv view inv kenc kdom c' ix'"
  obtains ixs where "on_indexes (wrapR m f) s = (Ok (), s\<lparr>is_indexes := ixs\<rparr>)"
    "list_all (index_inv view inv kenc kdom c') ixs"
proof -
  have "\<exists>ix'. wrapR m f ix = (Ok (), ix') \<and> index_inv view inv kenc kdom c' ix'"
    if "ix \<in> set (is_indexes s)" for ix
    using assms(2) [of ix] assms(1) that by (auto simp: list_all_iff wrapR_def)
  from eachR_ok [of "is_indexes s" "wrapR m f" "\<lambda>_. index_inv view inv kenc kdom c'", OF this]
  obtain ixs where ixs: "eachR (wrapR m f) (is_indexes s) = (Ok (), ixs)"
    "list_all2 (\<lambda>_. index_inv view inv kenc kdom c') (is_indexes s) ixs" by auto
  have "list_all (index_inv view inv kenc kdom c') ixs"
    using ixs(2) by (auto simp: list_all2_conv_all_nth list_all_length)
  with ixs(1) show thesis using that by (simp add: on_indexes_def)
qed

lemma content_not_nil:
  assumes "store_inv view inv kenc kdom venc vdom st" "kdom k"
  shows "store_content view st k \<noteq> Some GNil"
  using assms content_inject(3) by (auto simp: store_inv_def store_content_def)

lemma ixs_set_inv:
  assumes s: "ixs_inv view inv kenc kdom venc vdom s" and k: "kdom k" and v: "vdom v"
  shows "\<exists>s'. ixs_Set bk k v x s = (Ok (), s') \<and> ixs_inv view inv kenc kdom venc vdom s' \<and>
    (\<forall>k'. kdom k' \<longrightarrow> store_content view (is_store s') k'
       = (if k' = k then Some v else store_content view (is_store s) k'))"
proof -
  let ?c = "store_content view (is_store s)"
  from s have st: "store_inv view inv kenc kdom venc vdom (is_store s)"
    and ix: "list_all (index_inv view inv kenc kdom ?c) (is_indexes s)"
    by (simp_all add: ixs_inv_def)
  obtain st' where st': "store_Set bk k v x (is_store s) = (Ok (), st')"
    "store_inv view inv kenc kdom venc vdom st'"
    "\<forall>k'. kdom k' \<longrightarrow> store_content view st' k' = (if k' = k then Some v else ?c k')"
    using set_content [OF st k v] by blast
  obtain ixs where ixs: "on_indexes (wrapR ''index update failed'' (updateIndex bk k (or_nil (?c k)) v)) s
      = (Ok (), s\<lparr>is_indexes := ixs\<rparr>)" "list_all (index_inv view inv kenc kdom (store_content view st')) ixs"
    using on_indexes_inv [OF ix, of "updateIndex bk k (or_nil (?c k)) v" "store_content view st'"]
      update_inv [of ?c _ k "store_content view st'" v] k content_not_nil [OF st k] st'(3) by blast
  have "ixs_Set bk k v x s = (Ok (), s\<lparr>is_indexes := ixs, is_store := st'\<rparr>)"
    using ixs(1) st'(1)
    by (simp add: ixs_Set_def UpdateIndexes_def get_content [OF st k] bindR_def wrapR_def on_store_def)
  with st'(2,3) ixs(2) show ?thesis by (auto simp: ixs_inv_def)
qed

lemma ixs_delete_inv:
  assumes s: "ixs_inv view inv kenc kdom venc vdom s" and k: "kdom k"
  shows "\<exists>s'. ixs_Delete bk k s = (Ok (), s') \<and> ixs_inv view inv kenc kdom venc vdom s' \<and>
    (\<forall>k'. kdom k' \<longrightarrow> store_content view (is_store s') k'
       = (if k' = k then None else store_content view (is_store s) k'))"
proof -
  let ?c = "store_content view (is_store s)"
  from s have st: "store_inv view inv kenc kdom venc vdom (is_store s)"
    and ix: "list_all (index_inv view inv kenc kdom ?c) (is_indexes s)"
    by (simp_all add: ixs_inv_def)
  obtain st' where st': "store_Delete bk k (is_store s) = (Ok (), st')"
    "store_inv view inv kenc kdom venc vdom st'"
    "\<forall>k'. kdom k' \<longrightarrow> store_content view st' k' = (if k' = k then None else ?c k')"
    using delete_content [OF st k] by blast
  show ?thesis
  proof (cases "?c k")
    case None
    have "list_all (index_inv view inv kenc kdom (store_content view st')) (is_indexes s)"
      using ix st'(3) None index_inv_cong [of kdom ?c "store_content view st'" view inv kenc]
      by (auto simp: list_all_iff)
    moreover have "ixs_Delete bk k s = (Ok (), s\<lparr>is_store := st'\<rparr>)"
      using st'(1) None
      by (simp add: ixs_Delete_def DeleteIndexes_def get_content [OF st k] or_nil_def retR_def bindR_def wrapR_def on_store_def)
    ultimately show ?thesis using st'(2,3) by (auto simp: ixs_inv_def)
  next
    case (Some v)
    obtain ixs where ixs: "on_indexes (wrapR ''indexed value delete error'' (idx_Delete bk k v)) s
        = (Ok (), s\<lparr>is_indexes := ixs\<rparr>)" "list_all (index_inv view inv kenc kdom (store_content view st')) ixs"
      using on_indexes_inv [OF ix, of "idx_Delete bk k v" "store_content view st'"]
        delete_inv [of ?c _ k v "store_content view st'"] k Some st'(3) by blast
    have "v \<noteq> GNil" using content_not_nil [OF st k] Some by blast
    then have "ixs_Delete bk k s = (Ok (), s\<lparr>is_indexes := ixs, is_store := st'\<rparr>)"
      using ixs(1) st'(1) Some
      by (simp add: ixs_Delete_def DeleteIndexes_def get_content [OF st k] or_nil_def bindR_def wrapR_def on_store_def)
    with st'(2,3) ixs(2) show ?thesis by (auto simp: ixs_inv_def)
  qed
qed

text \<open>Setting a nil value writes an index entry and then deletes the record.\<close>

lemma ixs_set_nil_entry:
  assumes s: "ixs_inv view inv kenc kdom venc vdom s" and k: "kdom k"
  shows "\<exists>s'. ixs_Set bk k GNil x s = (Ok (), s') \<and> store_content view (is_store s') k = None \<and>
    list_all2 (\<lambda>ix ix'. ix_name ix' = ix_name ix \<and>
      view (ix_backend ix') (idx_key ix k GNil) = Some (code_of kenc k)) (is_indexes s) (is_indexes s')"
proof -
  let ?c = "store_content view (is_store s)"
  let ?P = "\<lambda>ix ix'. ix_name ix' = ix_name ix \<and>
      view (ix_backend ix') (idx_key ix k GNil) = Some (code_of kenc k)"
  from s have st: "store_inv view inv kenc kdom venc vdom (is_store s)"
    and ix: "list_all (index_inv view inv kenc kdom ?c) (is_indexes s)"
    by (simp_all add: ixs_inv_def)
  obtain st' where st': "store_Set bk k GNil x (is_store s) = (Ok (), st')"
    "\<forall>k'. kdom k' \<longrightarrow> store_content view st' k' = (if k' = k then None else ?c k')"
    using delete_content [OF st k] by blast
  have "\<exists>ix'. wrapR ''index update failed'' (updateIndex bk k (or_nil (?c k)) GNil) ix = (Ok (), ix') \<and> ?P ix ix'"
    if "ix \<in> set (is_indexes s)" for ix
  proof -
    from ix that have i: "index_inv view inv kenc kdom ?c ix" by (simp add: list_all_iff)
    then have ok: "index_ok ix" by (simp add: index_inv_def index_ok_def)
    have all: "\<And>v. ?c k = Some v \<Longrightarrow> view (ix_backend ix) (idx_key ix k v) = Some (code_of kenc k)"
      using i k unfolding index_inv_def by blast
    obtain b where b: "updateIndex bk k (or_nil (?c k)) GNil ix = (Ok (), ix\<lparr>ix_backend := b\<rparr>)"
      "view b = (let w = view (ix_backend ix); e = Some (code_of kenc k); p = or_nil (?c k)
         in if p = GNil then w(idx_key ix k GNil := e)
            else if slice_len (w (idx_key ix k p)) \<ge> 1 \<and> idx_key ix k p = idx_key ix k GNil then w
            else w(idx_key ix k p := None, idx_key ix k GNil := e))"
      by (rule update_view [OF ok k, of "or_nil (?c k)" GNil]) (simp add: Let_def)
    have "view b (idx_key ix k GNil) = Some (code_of kenc k)"
      using all content_not_nil [OF st k]
      by (cases "?c k") (auto simp: b(2) or_nil_def Let_def)
    with b(1) show ?thesis by (simp add: wrapR_def)
  qed
  from eachR_ok [of "is_indexes s" "wrapR ''index update failed'' (updateIndex bk k (or_nil (?c k)) GNil)" ?P, OF this]
  obtain ixs where ixs: "eachR (wrapR ''index update failed'' (updateIndex bk k (or_nil (?c k)) GNil)) (is_indexes s)
      = (Ok (), ixs)" "list_all2 ?P (is_indexes s) ixs" by auto
  have "ixs_Set bk k GNil x s = (Ok (), s\<lparr>is_indexes := ixs, is_store := st'\<rparr>)"
    using ixs(1) st'(1)
    by (simp add: ixs_Set_def UpdateIndexes_def get_content [OF st k] bindR_def wrapR_def on_store_def on_indexes_def)
  with st'(2) ixs(2) k show ?thesis by auto
qed

end

section \<open>Rebuilding the indexes\<close>

text \<open>
  The entries an index has after a pass over the records \<open>P\<close>, started from the entries \<open>w0\<close>: a record
  without an entry got one, everything else is as it was.
\<close>

definition rebuilt ::
  "encoder \<Rightarrow> (goval \<Rightarrow> goval \<Rightarrow> bool) \<Rightarrow> (bytes \<Rightarrow> slice) \<Rightarrow> 'b index \<Rightarrow> (bytes \<Rightarrow> slice) \<Rightarrow> bool" where
  "rebuilt kenc P w0 ix w \<longleftrightarrow>
     (\<forall>k v. P k v \<and> slice_len (w0 (idx_key ix k v)) < 1 \<longrightarrow> w (idx_key ix k v) = Some (code_of kenc k)) \<and>
     (\<forall>b. (\<nexists>k v. P k v \<and> b = idx_key ix k v) \<or> slice_len (w0 b) \<ge> 1 \<longrightarrow> w b = w0 b)"

lemma rebuilt_step:
  assumes r: "rebuilt kenc P w0 ix w" and u: "unambiguous kdom ix" and c: "code_of kenc k \<noteq> []"
    and d: "kdom k" "\<And>k v. P k v \<Longrightarrow> kdom k"
    and w': "w' = (if slice_len (w (idx_key ix k v)) \<ge> 1 then w else w(idx_key ix k v := Some (code_of kenc k)))"
  shows "rebuilt kenc (\<lambda>k' v'. P k' v' \<or> k' = k \<and> v' = v) w0 ix w'"
proof -
  have same: "k' = k" if "P k' v'" "idx_key ix k' v' = idx_key ix k v" for k' v'
    using u that d unfolding unambiguous_def by blast
  have r1: "\<And>k v. P k v \<Longrightarrow> slice_len (w0 (idx_key ix k v)) < 1 \<Longrightarrow> w (idx_key ix k v) = Some (code_of kenc k)"
    and r2: "\<And>b. (\<nexists>k v. P k v \<and> b = idx_key ix k v) \<or> slice_len (w0 b) \<ge> 1 \<Longrightarrow> w b = w0 b"
    using r unfolding rebuilt_def by blast+
  have key: "w' (idx_key ix k v) = Some (code_of kenc k)" if "slice_len (w0 (idx_key ix k v)) < 1"
  proof (cases "\<exists>k' v'. P k' v' \<and> idx_key ix k v = idx_key ix k' v'")
    case True
    then obtain k' v' where p: "P k' v'" "idx_key ix k' v' = idx_key ix k v" by auto
    with r1 [OF p(1)] that same [OF p] show ?thesis by (auto simp: w')
  next
    case False
    then have "w (idx_key ix k v) = w0 (idx_key ix k v)" using r2 by blast
    with that show ?thesis by (simp add: w')
  qed
  have other: "w' b = w b" if "b \<noteq> idx_key ix k v \<or> slice_len (w0 b) \<ge> 1" for b
    using that r2 [of b] by (auto simp: w')
  show ?thesis
    unfolding rebuilt_def
  proof (intro conjI allI impI)
    fix k1 v1 assume "(P k1 v1 \<or> k1 = k \<and> v1 = v) \<and> slice_len (w0 (idx_key ix k1 v1)) < 1"
    then show "w' (idx_key ix k1 v1) = Some (code_of kenc k1)"
      using key r1 [of k1 v1] other [of "idx_key ix k1 v1"] same [of k1 v1]
      by (cases "idx_key ix k1 v1 = idx_key ix k v") auto
  next
    fix b assume "(\<nexists>k1 v1. (P k1 v1 \<or> k1 = k \<and> v1 = v) \<and> b = idx_key ix k1 v1) \<or> 1 \<le> slice_len (w0 b)"
    then have "b \<noteq> idx_key ix k v \<or> slice_len (w0 b) \<ge> 1"
      "(\<nexists>k v. P k v \<and> b = idx_key ix k v) \<or> slice_len (w0 b) \<ge> 1" by auto
    then show "w' b = w0 b" using other r2 by simp
  qed
qed

locale indexed = typed_store bk view inv kenc kdom venc vdom + scan_backend bk view inv io left ok entries
  for bk :: "('b, 'i) backend_ops" and view inv kenc kdom venc vdom and io :: "'i iter_ops"
    and left ok entries +
  assumes deleteAll_keeps:
    "inv b \<Longrightarrow> \<exists>b'. bk_deleteAll bk b = (Ok (), b') \<and> inv b' \<and> view b' = view b"

sublocale indexed \<subseteq> itr: iterator "store_iter_ops io" "\<lambda>i. left (si_i i)"
  "\<lambda>i. ok (si_i i) \<and> si_keyEncoder i = kenc \<and> si_valEncoder i = venc"
  using valid_left key_left value_left next_left first_again
  by unfold_locales (auto simp: store_iter_ops_def si_Valid_def si_Next_def si_SeekToFirst_def)

context indexed
begin

text \<open>What the state of the loop has in common with the state \<open>s0\<close> it starts from.\<close>

definition rebuilding :: "(goval \<Rightarrow> goval \<Rightarrow> bool) \<Rightarrow> 'b indexed_store \<Rightarrow> 'b indexed_store \<Rightarrow> bool" where
  "rebuilding P s0 s \<longleftrightarrow> is_store s = is_store s0 \<and>
     list_all2 (\<lambda>ix0 ix. index_ok ix \<and> unambiguous kdom ix \<and> ix = ix0\<lparr>ix_backend := ix_backend ix\<rparr> \<and>
        rebuilt kenc P (view (ix_backend ix0)) ix0 (view (ix_backend ix)))
       (is_indexes s0) (is_indexes s)"

lemma rebuild_step:
  assumes st: "store_inv view inv kenc kdom venc vdom (is_store s0)" and r: "rebuilding P s0 s"
    and k: "kdom k" "store_content view (is_store s0) k = Some v" and P: "\<And>k v. P k v \<Longrightarrow> kdom k"
  shows "\<exists>s'. UpdateIndexes bk k v s = (Ok (), s') \<and> rebuilding (\<lambda>k' v'. P k' v' \<or> k' = k \<and> v' = v) s0 s'"
proof -
  have v: "v \<noteq> GNil" using content_not_nil [OF st k(1)] k(2) by blast
  from r have iss: "is_store s = is_store s0" by (simp add: rebuilding_def)
  define R where "R ix ix' \<longleftrightarrow> (\<exists>b. ix' = ix\<lparr>ix_backend := b\<rparr> \<and> inv b \<and>
      view b = (if slice_len (view (ix_backend ix) (idx_key ix k v)) \<ge> 1 then view (ix_backend ix)
        else (view (ix_backend ix))(idx_key ix k v := Some (code_of kenc k))))" for ix ix' :: "'b index"
  have "\<exists>ix'. wrapR ''index update failed'' (updateIndex bk k v v) ix = (Ok (), ix') \<and> R ix ix'"
    if "ix \<in> set (is_indexes s)" for ix
  proof -
    have ok: "index_ok ix"
      using r that by (auto simp: rebuilding_def list_all2_conv_all_nth in_set_conv_nth)
    obtain b where b: "updateIndex bk k v v ix = (Ok (), ix\<lparr>ix_backend := b\<rparr>)" "inv b"
      "view b = (let w = view (ix_backend ix); e = Some (code_of kenc k)
         in if v = GNil then w(idx_key ix k v := e)
            else if slice_len (w (idx_key ix k v)) \<ge> 1 \<and> idx_key ix k v = idx_key ix k v then w
            else w(idx_key ix k v := None, idx_key ix k v := e))"
      using update_view [OF ok k(1), of v v] by blast
    with v show ?thesis by (auto simp: R_def wrapR_def Let_def)
  qed
  from eachR_ok [of "is_indexes s" "wrapR ''index update failed'' (updateIndex bk k v v)" R, OF this]
  obtain ixs where ixs: "eachR (wrapR ''index update failed'' (updateIndex bk k v v)) (is_indexes s) = (Ok (), ixs)"
    "list_all2 R (is_indexes s) ixs" by auto
  have u: "UpdateIndexes bk k v s = (Ok (), s\<lparr>is_indexes := ixs\<rparr>)"
    using ixs(1) k(2) by (simp add: UpdateIndexes_def iss get_content [OF st k(1)] or_nil_def bindR_def
        on_indexes_def)
  have "rebuilding (\<lambda>k' v'. P k' v' \<or> k' = k \<and> v' = v) s0 (s\<lparr>is_indexes := ixs\<rparr>)"
    unfolding rebuilding_def
  proof (intro conjI)
    show "list_all2 (\<lambda>ix0 ix. index_ok ix \<and> unambiguous kdom ix \<and> ix = ix0\<lparr>ix_backend := ix_backend ix\<rparr> \<and>
        rebuilt kenc (\<lambda>k' v'. P k' v' \<or> k' = k \<and> v' = v) (view (ix_backend ix0)) ix0 (view (ix_backend ix)))
       (is_indexes s0) (is_indexes (s\<lparr>is_indexes := ixs\<rparr>))"
    proof (simp, rule list_all2_trans [OF _ _ ixs(2)])
      show "list_all2 (\<lambda>ix0 ix. index_ok ix \<and> unambiguous kdom ix \<and> ix = ix0\<lparr>ix_backend := ix_backend ix\<rparr> \<and>
        rebuilt kenc P (view (ix_backend ix0)) ix0 (view (ix_backend ix))) (is_indexes s0) (is_indexes s)"
        using r by (simp add: rebuilding_def)
    next
      fix ix0 ix1 ix2
      assume a: "index_ok ix1 \<and> unambiguous kdom ix1 \<and> ix1 = ix0\<lparr>ix_backend := ix_backend ix1\<rparr> \<and>
        rebuilt kenc P (view (ix_backend ix0)) ix0 (view (ix_backend ix1))" and R: "R ix1 ix2"
      from a have key: "idx_key ix1 = idx_key ix0" "unambiguous kdom ix0"
        by (metis idx_key_backend(1), metis idx_key_backend(2))
      from R obtain b where b: "ix2 = ix1\<lparr>ix_backend := b\<rparr>" "inv b"
        "view b = (if slice_len (view (ix_backend ix1) (idx_key ix0 k v)) \<ge> 1 then view (ix_backend ix1)
          else (view (ix_backend ix1))(idx_key ix0 k v := Some (code_of kenc k)))"
        by (auto simp: R_def key)
      have "rebuilt kenc (\<lambda>k' v'. P k' v' \<or> k' = k \<and> v' = v) (view (ix_backend ix0)) ix0 (view b)"
        using a by (intro rebuilt_step [OF _ key(2) keyc.code_neq_Nil [OF k(1)] k(1) P b(3)]) auto
      moreover from a have "ix1 = ix0\<lparr>ix_backend := ix_backend ix1\<rparr>" by simp
      then have "ix2 = ix0\<lparr>ix_backend := b\<rparr>" unfolding b(1) by (cases ix0; cases ix1) simp
      ultimately show "index_ok ix2 \<and> unambiguous kdom ix2 \<and> ix2 = ix0\<lparr>ix_backend := ix_backend ix2\<rparr> \<and>
        rebuilt kenc (\<lambda>k' v'. P k' v' \<or> k' = k \<and> v' = v) (view (ix_backend ix0)) ix0 (view (ix_backend ix2))"
        using index_ok_update [OF _ b(2), of ix1] a b key(2) by auto
    qed
  qed (simp add: iss)
  with u show ?thesis by blast
qed

text \<open>The values stored are never nil slices: the encoders of a store do not produce them.\<close>

definition stored :: "'b \<Rightarrow> bool" where
  "stored b \<longleftrightarrow> (\<forall>(k, v) \<in> set (entries b). v \<noteq> None)"

lemma entries_coded:
  assumes st: "store_inv view inv kenc kdom venc vdom st" and e: "stored (st_backend st)"
    and m: "(kb, vb) \<in> set (entries (st_backend st))"
  obtains k v where "kdom k" "vdom v" "kb = code_of kenc k" "vb = Some (code_of venc v)"
    "store_content view st k = Some v"
proof -
  from st have i: "inv (st_backend st)" "st_keyEncoder st = kenc" "st_valEncoder st = venc"
    "coded kenc kdom venc vdom (view (st_backend st))" by (simp_all add: store_inv_def)
  from m e obtain s where s: "vb = Some s" by (auto simp: stored_def)
  have "map_of (entries (st_backend st)) kb = Some vb"
    using m entries_distinct [OF i(1)] by simp
  then have "view (st_backend st) kb = Some s" using entries_view [OF i(1), of kb] s by simp
  with i(4) obtain k v where kv: "kdom k" "vdom v" "kb = code_of kenc k" "s = code_of venc v"
    unfolding coded_def by blast
  moreover have "store_content view st k = Some v"
    using \<open>view (st_backend st) kb = Some s\<close> kv
    by (simp add: store_content_def content_of_def i valc.decode_code)
  ultimately show thesis using that s by blast
qed

lemma content_entry:
  assumes st: "store_inv view inv kenc kdom venc vdom st" and k: "kdom k" "store_content view st k = Some v"
  shows "(code_of kenc k, Some (code_of venc v)) \<in> set (entries (st_backend st))" "vdom v"
proof -
  from st have i: "inv (st_backend st)" "st_keyEncoder st = kenc" "st_valEncoder st = venc"
    "coded kenc kdom venc vdom (view (st_backend st))" by (simp_all add: store_inv_def)
  have "view (st_backend st) (code_of kenc k) = Some (code_of venc v)" "vdom v"
    using content_inject [OF i(4) k(1)] k(2) by (simp_all add: store_content_def i)
  then show "(code_of kenc k, Some (code_of venc v)) \<in> set (entries (st_backend st))" "vdom v"
    using entries_view [OF i(1), of "code_of kenc k"] by (auto split: option.splits dest: map_of_SomeD)
qed

definition rebuild_one :: "bytes \<times> slice \<Rightarrow> 'b indexed_store \<Rightarrow> unit res \<times> 'b indexed_store" where
  "rebuild_one = (\<lambda>(kb, vb).
     bindR (wrapR ''itr key failed'' (pureR (decode_value kenc (Some kb)))) (\<lambda>key.
       bindR (wrapR ''itr value failed'' (pureR (decode_value venc vb))) (\<lambda>val.
         wrapR ''cannot update indexes'' (UpdateIndexes bk key val))))"

lemma rebuild_body_one:
  assumes "ok (si_i i) \<and> si_keyEncoder i = kenc \<and> si_valEncoder i = venc" "left (si_i i) = (kb, vb) # r"
  shows "rebuild_body bk io i s = rebuild_one (kb, vb) s"
  using assms key_left [OF _ assms(2)] value_left [OF _ assms(2)]
  by (simp add: rebuild_body_def rebuild_one_def si_Key_def si_Value_def)

lemma rebuild_loop:
  assumes st: "store_inv view inv kenc kdom venc vdom (is_store s0)" and P: "\<And>k v. P k v \<Longrightarrow> kdom k"
    and r: "rebuilding P s0 s"
    and es: "\<And>kb vb. (kb, vb) \<in> set es \<Longrightarrow> \<exists>k v. kdom k \<and> vdom v \<and> kb = code_of kenc k \<and>
      vb = Some (code_of venc v) \<and> store_content view (is_store s0) k = Some v"
  shows "\<exists>s'. forR rebuild_one es s = (Ok (), s') \<and>
    rebuilding (\<lambda>k v. P k v \<or> kdom k \<and> vdom v \<and> (code_of kenc k, Some (code_of venc v)) \<in> set es) s0 s'"
  using P r es
proof (induction es arbitrary: s P)
  case Nil
  then show ?case by simp
next
  case (Cons e es)
  obtain kb vb where e: "e = (kb, vb)" by force
  from Cons.prems(3) [of kb vb] e obtain k v where kv: "kdom k" "vdom v" "kb = code_of kenc k"
    "vb = Some (code_of venc v)" "store_content view (is_store s0) k = Some v" by auto
  obtain s1 where s1: "UpdateIndexes bk k v s = (Ok (), s1)"
    "rebuilding (\<lambda>k' v'. P k' v' \<or> k' = k \<and> v' = v) s0 s1"
    using rebuild_step [OF st Cons.prems(2) kv(1,5)] Cons.prems(1) by blast
  have "rebuild_one e s = (Ok (), s1)"
    using s1(1) kv keyc.code_neq_Nil valc.code_neq_Nil
    by (simp add: rebuild_one_def e decode_value_def keyc.decode_code valc.decode_code bindR_def wrapR_def
        pureR_def Suc_le_eq less_Suc_eq)
  moreover obtain s2 where s2: "forR rebuild_one es s1 = (Ok (), s2)"
    "rebuilding (\<lambda>k' v'. (P k' v' \<or> k' = k \<and> v' = v) \<or>
       kdom k' \<and> vdom v' \<and> (code_of kenc k', Some (code_of venc v')) \<in> set es) s0 s2"
    using Cons.IH [OF _ s1(2)] Cons.prems(1,3) kv(1) by auto
  moreover have "(\<lambda>k' v'. (P k' v' \<or> k' = k \<and> v' = v) \<or>
       kdom k' \<and> vdom v' \<and> (code_of kenc k', Some (code_of venc v')) \<in> set es)
     = (\<lambda>k v. P k v \<or> kdom k \<and> vdom v \<and> (code_of kenc k, Some (code_of venc v)) \<in> set (e # es))"
    using kv(1-4) keyc.code_inject valc.code_inject by (fastforce simp: e fun_eq_iff)
  ultimately show ?case by (simp add: bindR_Ok)
qed

lemma rebuild_indexes:
  assumes st: "store_inv view inv kenc kdom venc vdom (is_store s)" and e: "stored (st_backend (is_store s))"
    and ix: "list_all (\<lambda>ix. index_ok ix \<and> unambiguous kdom ix) (is_indexes s)"
  shows "\<exists>s'. ixs_RebuildIndexes bk io s = Some (Ok (), s') \<and> is_store s' = is_store s \<and>
    list_all2 (\<lambda>ix0 ix. index_ok ix \<and> ix = ix0\<lparr>ix_backend := ix_backend ix\<rparr> \<and>
        rebuilt kenc (\<lambda>k v. kdom k \<and> store_content view (is_store s) k = Some v)
          (view (ix_backend ix0)) ix0 (view (ix_backend ix)))
       (is_indexes s) (is_indexes s')"
proof -
  from st have i: "inv (st_backend (is_store s))" "st_keyEncoder (is_store s) = kenc"
    "st_valEncoder (is_store s) = venc" by (simp_all add: store_inv_def)
  let ?D = "\<lambda>ix0 ix. index_ok ix \<and> unambiguous kdom ix \<and> ix = ix0\<lparr>ix_backend := ix_backend ix\<rparr> \<and>
      view (ix_backend ix) = view (ix_backend ix0)"
  have "\<exists>ix'. on_index (bk_deleteAll bk) ix = (Ok (), ix') \<and> ?D ix ix'" if "ix \<in> set (is_indexes s)" for ix
  proof -
    have "index_ok ix" "unambiguous kdom ix" using ix that by (auto simp: list_all_iff)
    moreover then obtain b where "bk_deleteAll bk (ix_backend ix) = (Ok (), b)" "inv b" "view b = view (ix_backend ix)"
      using deleteAll_keeps [of "ix_backend ix"] by (auto simp: index_ok_def)
    ultimately show ?thesis by (auto simp: on_index_def index_ok_def)
  qed
  from eachR_ok [of "is_indexes s" "on_index (bk_deleteAll bk)" ?D, OF this]
  obtain ixs where ixs: "eachR (on_index (bk_deleteAll bk)) (is_indexes s) = (Ok (), ixs)"
    "list_all2 ?D (is_indexes s) ixs" by auto
  let ?s1 = "s\<lparr>is_indexes := ixs\<rparr>"
  have r0: "rebuilding (\<lambda>_ _. False) s ?s1"
    using ixs(2) by (auto simp: rebuilding_def rebuilt_def elim!: list_all2_mono)
  obtain itr0 where itr0: "bk_iterator bk (st_backend (is_store s)) = Ok itr0" "ok (it_first io itr0)"
    "left (it_first io itr0) = entries (st_backend (is_store s))"
    using iterator_entries [OF i(1)] by blast
  let ?it = "NewIterator (it_first io itr0) kenc venc"
  obtain s2 where s2: "forR rebuild_one (entries (st_backend (is_store s))) ?s1 = (Ok (), s2)"
    "rebuilding (\<lambda>k v. False \<or> kdom k \<and> vdom v \<and>
       (code_of kenc k, Some (code_of venc v)) \<in> set (entries (st_backend (is_store s)))) s s2"
    using rebuild_loop [OF st _ r0] entries_coded [OF st e] by blast
  have P: "(\<lambda>k v. False \<or> kdom k \<and> vdom v \<and>
       (code_of kenc k, Some (code_of venc v)) \<in> set (entries (st_backend (is_store s))))
    = (\<lambda>k v. kdom k \<and> store_content view (is_store s) k = Some v)"
  proof (intro ext iffI; elim conjE disjE FalseE)
    fix k v assume a: "kdom k" "vdom v" "(code_of kenc k, Some (code_of venc v)) \<in> set (entries (st_backend (is_store s)))"
    from entries_coded [OF st e a(3)] obtain k1 v1 where "kdom k1" "vdom v1" "code_of kenc k = code_of kenc k1"
      "Some (code_of venc v) = Some (code_of venc v1)" "store_content view (is_store s) k1 = Some v1" .
    with a show "kdom k \<and> store_content view (is_store s) k = Some v"
      using keyc.code_inject valc.code_inject by auto
  next
    fix k v assume "kdom k" "store_content view (is_store s) k = Some v"
    then show "False \<or> kdom k \<and> vdom v \<and>
        (code_of kenc k, Some (code_of venc v)) \<in> set (entries (st_backend (is_store s)))"
      using content_entry [OF st] by blast
  qed
  let ?j = "si_SeekToFirst io ?it"
  have j: "ok (si_i ?j) \<and> si_keyEncoder ?j = kenc \<and> si_valEncoder ?j = venc"
    "left (si_i ?j) = entries (st_backend (is_store s))"
    using first_again [OF itr0(2)] itr0(3) by (simp_all add: si_SeekToFirst_def NewIterator_def)
  have "iter_loop (store_iter_ops io) (rebuild_body bk io) ?j ?s1 = Some (Ok (), s2)"
    using itr.iter_loop_forR [OF j(1), of "rebuild_body bk io" rebuild_one ?s1] rebuild_body_one s2(1)
    by (simp add: j(2))
  then have "ixs_RebuildIndexes bk io s = Some (Ok (), s2)"
    by (simp add: ixs_RebuildIndexes_def on_indexes_def ixs(1) store_Iterator_def itr0(1) i)
  moreover have "is_store s2 = is_store s" using s2(2) by (simp add: rebuilding_def)
  moreover have "list_all2 (\<lambda>ix0 ix. index_ok ix \<and> ix = ix0\<lparr>ix_backend := ix_backend ix\<rparr> \<and>
        rebuilt kenc (\<lambda>k v. kdom k \<and> store_content view (is_store s) k = Some v)
          (view (ix_backend ix0)) ix0 (view (ix_backend ix))) (is_indexes s) (is_indexes s2)"
    using s2(2) unfolding P rebuilding_def by (auto elim!: list_all2_mono)
  ultimately show ?thesis by blast
qed

end

interpretation memi: indexed memory_backend mem_view mem_inv StringEncoder is_nonempty_str IntEncoder is_int
  mem_iter_ops mi_left mi_ok mem_entries
  by unfold_locales (simp add: memory_backend_def mem_DeleteAll_def)

interpretation pebi: indexed "pebble_backend ref_engine" "pb_view id" "pb_inv ref_inv"
  StringEncoder is_nonempty_str StringEncoder is_nonempty_str
  "pebble_iter_ops ref_engine" "\<lambda>i. slices (ref_left i)" ref_ok "pb_entries id"
  by unfold_locales (rule pebble_deleteAll_view [OF ref_engine_laws])

section \<open>Properties\<close>

text \<open>An indexed store to try the properties on: its mapper tells even values from odd ones.\<close>

definition parity :: "goval \<Rightarrow> goval \<Rightarrow> string" where
  "parity k v = (case v of GInt i \<Rightarrow> if even (unat i) then ''e'' else ''o'' | _ \<Rightarrow> ''n'')"

definition sample_indexed :: "memory indexed_store" where
  "sample_indexed = \<lparr>is_store = sample_store, is_indexes = [\<lparr>ix_mapper = parity, ix_name = ''parity'',
     ix_backend = NewMemoryBackend ''s-idx-parity'' mem_NewConfig 0, ix_keyEncoder = StringEncoder\<rparr>]\<rparr>"

lemma sample_indexed_new:
  "NewIndexedStore (memory_builder mem_NewConfig 0) ''s'' StringEncoder IntEncoder
     [NewIndex ''parity'' parity] [] = Ok sample_indexed"
  by (simp add: NewIndexedStore_def sample_store_new NewIndex_def idb_Build_def sample_indexed_def
      sample_store_def memory_builder_def)

lemma unambiguous_parity:
  assumes "ix_mapper ix = parity" "ix_keyEncoder ix = StringEncoder"
  shows "unambiguous is_nonempty_str ix"
proof -
  have "length (parity k v) = 1" for k v by (simp add: parity_def split: goval.splits)
  then have "length (bytes_of (parity k v)) = length (bytes_of (parity k' v'))" for k v k' v' by simp
  then show ?thesis
    unfolding unambiguous_def idx_key_def assms
    by (metis append_eq_append_conv strc.code_inject)
qed

lemma sample_indexed_inv:
  "ixs_inv mem_view mem_inv StringEncoder is_nonempty_str IntEncoder is_int sample_indexed"
  using sample_store_inv
  by (auto simp: ixs_inv_def sample_indexed_def index_inv_def unambiguous_parity mem_view_new
      store_content_def content_of_def sample_store_def)

text \<open>C3: The indexes stay consistent with the store. When every index has exactly one entry per record
  before \<open>Set\<close> of a non-nil value or \<open>Delete\<close>, it has so afterwards: no stale entry is left under the
  previous value, none is missing for the new one; and the records change as in a plain store. This needs
  that an index entry determines its record key.\<close>
theorem indexed_store_consistent:
  assumes "typed_store bk view bok kenc kdom venc vdom" "ixs_inv view bok kenc kdom venc vdom s"
    and "kdom k" "vdom v"
  shows "(\<exists>s'. ixs_Set bk k v x s = (Ok (), s') \<and> ixs_inv view bok kenc kdom venc vdom s' \<and>
      (\<forall>k'. kdom k' \<longrightarrow> store_content view (is_store s') k'
         = (if k' = k then Some v else store_content view (is_store s) k'))) \<and>
    (\<exists>s'. ixs_Delete bk k s = (Ok (), s') \<and> ixs_inv view bok kenc kdom venc vdom s' \<and>
      (\<forall>k'. kdom k' \<longrightarrow> store_content view (is_store s') k'
         = (if k' = k then None else store_content view (is_store s) k')))"
  using typed_store.ixs_set_inv [OF assms] typed_store.ixs_delete_inv [OF assms(1-3)] by blast

theorem indexed_store_consistent_witness:
  "\<exists>s'. ixs_Set memory_backend (GStr ''a'') (GInt 4) 0 sample_indexed = (Ok (), s') \<and>
     ixs_inv mem_view mem_inv StringEncoder is_nonempty_str IntEncoder is_int s' \<and>
     store_content mem_view (is_store s') (GStr ''a'') = Some (GInt 4)"
proof -
  have k: "is_nonempty_str (GStr ''a'')" "is_int (GInt 4)" by (simp_all add: is_nonempty_str_def is_int_def)
  show ?thesis
    using indexed_store_consistent [OF mems.typed_store_axioms sample_indexed_inv k, of 0] k(1) by auto
qed

text \<open>Setting a nil value is a tombstone for the store but not for its indexes: \<open>UpdateIndexes\<close> writes an
  entry for the nil value first, then the record is removed, and every index is left with an entry for a
  record that does not exist.\<close>
theorem indexed_set_nil_dangling:
  assumes "typed_store bk view bok kenc kdom venc vdom" "ixs_inv view bok kenc kdom venc vdom s" "kdom k"
  shows "\<exists>s'. ixs_Set bk k GNil x s = (Ok (), s') \<and> store_content view (is_store s') k = None \<and>
    list_all2 (\<lambda>ix ix'. ix_name ix' = ix_name ix \<and>
      view (ix_backend ix') (idx_key ix k GNil) = Some (code_of kenc k)) (is_indexes s) (is_indexes s')"
  using typed_store.ixs_set_nil_entry [OF assms] .

theorem indexed_set_nil_dangling_witness:
  "\<exists>s'. ixs_Set memory_backend (GStr ''a'') GNil 0 sample_indexed = (Ok (), s') \<and>
     store_content mem_view (is_store s') (GStr ''a'') = None \<and>
     (\<exists>ix \<in> set (is_indexes s'). mem_view (ix_backend ix) (bytes_of ''na'') = Some (bytes_of ''a''))"
proof -
  have k: "is_nonempty_str (GStr ''a'')" by (simp add: is_nonempty_str_def)
  obtain s' where s': "ixs_Set memory_backend (GStr ''a'') GNil 0 sample_indexed = (Ok (), s')"
    "store_content mem_view (is_store s') (GStr ''a'') = None"
    "list_all2 (\<lambda>ix ix'. ix_name ix' = ix_name ix \<and> mem_view (ix_backend ix') (idx_key ix (GStr ''a'') GNil)
       = Some (code_of StringEncoder (GStr ''a''))) (is_indexes sample_indexed) (is_indexes s')"
    using indexed_set_nil_dangling [OF mems.typed_store_axioms sample_indexed_inv k, of 0] by blast
  have "code_of StringEncoder (GStr ''a'') = bytes_of ''a''"
    by (simp add: code_of_def StringEncoder_def string_Encode_def)
  with s' show ?thesis
    by (auto simp: sample_indexed_def idx_key_def parity_def bytes_of_def list_all2_Cons1)
qed

text \<open>C16: \<open>RebuildIndexes\<close> always ends without an error and leaves the records alone. An index that was
  empty is consistent with the store afterwards. But, since \<open>DeleteAll\<close> keeps the entries of a backend, every
  entry that an index had before is still there, also one whose record is gone.\<close>
theorem rebuild_indexes_result:
  assumes "indexed bk view bok kenc kdom venc vdom io left ok entries"
    and "store_inv view bok kenc kdom venc vdom (is_store s)"
    and "\<forall>(k, v) \<in> set (entries (st_backend (is_store s))). v \<noteq> None"
    and "\<forall>ix \<in> set (is_indexes s). bok (ix_backend ix) \<and> ix_keyEncoder ix = kenc \<and> unambiguous kdom ix"
  shows "\<exists>s'. ixs_RebuildIndexes bk io s = Some (Ok (), s') \<and> is_store s' = is_store s \<and>
    list_all2 (\<lambda>ix0 ix.
        (view (ix_backend ix0) = (\<lambda>_. None) \<longrightarrow>
           index_inv view bok kenc kdom (store_content view (is_store s)) ix) \<and>
        (\<forall>b e. view (ix_backend ix0) b = Some e \<and> e \<noteq> [] \<longrightarrow> view (ix_backend ix) b = Some e))
      (is_indexes s) (is_indexes s')"
proof -
  note I = assms(1)
  note T = indexed.axioms(1) [OF I]
  let ?c = "store_content view (is_store s)"
  have "indexed.stored entries (st_backend (is_store s))"
    using assms(3) by (simp add: indexed.stored_def [OF I])
  moreover have "list_all (\<lambda>ix. typed_store.index_ok bok kenc ix \<and> unambiguous kdom ix) (is_indexes s)"
    using assms(4) by (simp add: list_all_iff typed_store.index_ok_def [OF T])
  ultimately obtain s' where s': "ixs_RebuildIndexes bk io s = Some (Ok (), s')" "is_store s' = is_store s"
    "list_all2 (\<lambda>ix0 ix. typed_store.index_ok bok kenc ix \<and> ix = ix0\<lparr>ix_backend := ix_backend ix\<rparr> \<and>
        rebuilt kenc (\<lambda>k v. kdom k \<and> ?c k = Some v) (view (ix_backend ix0)) ix0 (view (ix_backend ix)))
       (is_indexes s) (is_indexes s')"
    using indexed.rebuild_indexes [OF I assms(2)] by blast
  have "(view (ix_backend ix0) = (\<lambda>_. None) \<longrightarrow> index_inv view bok kenc kdom ?c ix) \<and>
      (\<forall>b e. view (ix_backend ix0) b = Some e \<and> e \<noteq> [] \<longrightarrow> view (ix_backend ix) b = Some e)"
    if ok: "typed_store.index_ok bok kenc ix" and eq: "ix = ix0\<lparr>ix_backend := ix_backend ix\<rparr>"
      and r: "rebuilt kenc (\<lambda>k v. kdom k \<and> ?c k = Some v) (view (ix_backend ix0)) ix0 (view (ix_backend ix))"
      and u: "unambiguous kdom ix0" for ix0 ix
  proof -
    have key: "idx_key ix = idx_key ix0" "unambiguous kdom ix"
      using u eq by (metis idx_key_backend(1), metis idx_key_backend(2))
    have "index_inv view bok kenc kdom ?c ix" if "view (ix_backend ix0) = (\<lambda>_. None)"
      unfolding index_inv_def
      using ok r that key(2) unfolding typed_store.index_ok_def [OF T] rebuilt_def key(1)
      by (auto, metis option.distinct(1) option.inject)
    moreover have "view (ix_backend ix) b = Some e" if "view (ix_backend ix0) b = Some e" "e \<noteq> []" for b e
      using r that unfolding rebuilt_def by (auto simp: Suc_le_eq)
    ultimately show ?thesis by blast
  qed
  with s' assms(4) show ?thesis
    by (auto simp: list_all2_conv_all_nth)
qed

text \<open>The loop of \<open>Values\<close>: it collects the values of the entries whose key starts with the prefix.\<close>

lemma forR_collect:
  "forR (\<lambda>(k, v) vals. (Ok (), vals @ [f v])) es acc = (Ok (), acc @ map (\<lambda>(k, v). f v) es)"
  by (induction es arbitrary: acc) (auto simp: bindR_def)

lemma idx_Values_entries:
  assumes "prefix_backend bk view bok io left ok entries" "bok (ix_backend ix)"
  shows "idx_Values bk io key ix = Some (Ok (map (\<lambda>(_, v). string_of (slice_bytes v))
    (filter (\<lambda>(b, _). prefix (bytes_of key) b) (entries (ix_backend ix)))))"
proof -
  let ?body = "\<lambda>j. bindR (pureR (it_value io j)) (\<lambda>v vals. (Ok (), vals @ [string_of (slice_bytes v)]))"
  let ?f = "\<lambda>(k, v) vals. (Ok (), vals @ [string_of (slice_bytes v)])"
  note S = prefix_backend.axioms(1) [OF assms(1)]
  note It = scan_backend.axioms(2) [OF S]
  have b: "?body j s = ?f (k, v) s" if "ok j" "left j = (k, v) # r" for j s k v r
    using iterator.value_left [OF It that] by (simp add: bindR_def pureR_def)
  obtain i where i: "bk_prefixed bk (bytes_of key) (ix_backend ix) = Ok i"
    "iter_loop io ?body (it_first io i) [] =
       Some (forR ?f (filter (\<lambda>(k, _). prefix (bytes_of key) k) (entries (ix_backend ix))) [])"
    using prefix_backend.scan_prefix [OF assms(1,2), of ?body ?f "bytes_of key" "[]"] b by blast
  then show ?thesis
    by (simp add: idx_Values_def forR_collect [where f = "\<lambda>v. string_of (slice_bytes v)"])
qed

text \<open>C17: Looking up an index over Pebble finds every record the mapper files under the string, and besides them
  only records whose index key merely starts with it: \<open>Values(s)\<close> on a consistent index returns exactly the
  keys of the records whose mapped string followed by the encoded key begins with \<open>s\<close>.\<close>
theorem index_values_complete:
  assumes "pebble_laws db pinv ent left iok"
    and "index_inv (pb_view ent) (pb_inv pinv) kenc kdom content ix"
  shows "\<exists>vals. idx_Values (pebble_backend db) (pebble_iter_ops db) key ix = Some (Ok vals) \<and>
    set vals = {string_of (code_of kenc k) | k v. kdom k \<and> content k = Some v \<and>
      prefix (bytes_of key) (idx_key ix k v)} \<and>
    (\<forall>k v. kdom k \<longrightarrow> content k = Some v \<longrightarrow> ix_mapper ix k v = key \<longrightarrow>
      string_of (code_of kenc k) \<in> set vals)"
proof -
  let ?w = "pb_view ent (ix_backend ix)"
  let ?es = "pb_entries ent (ix_backend ix)"
  let ?vals = "map (\<lambda>(_, v). string_of (slice_bytes v)) (filter (\<lambda>(b, _). prefix (bytes_of key) b) ?es)"
  note B = pebble_prefix_backend [OF assms(1)]
  have bok: "pb_inv pinv (ix_backend ix)" using assms(2) by (simp add: index_inv_def)
  have all: "\<And>k v. kdom k \<Longrightarrow> content k = Some v \<Longrightarrow> ?w (idx_key ix k v) = Some (code_of kenc k)"
    and only: "\<And>b s. ?w b = Some s \<Longrightarrow>
      \<exists>k v. kdom k \<and> content k = Some v \<and> b = idx_key ix k v \<and> s = code_of kenc k"
    using assms(2) unfolding index_inv_def by blast+
  have d: "distinct (map fst (ent (pb_pebble (ix_backend ix))))"
    using pebble_lawsD(1) [OF assms(1)] bok by (simp add: pb_inv_def)
  have mem: "(b, v) \<in> set ?es \<longleftrightarrow> (\<exists>s. v = Some s \<and> ?w b = Some s)" for b v
    using d by (auto simp: pb_entries_def slices_def pb_view_def db_view_def)
  have "idx_Values (pebble_backend db) (pebble_iter_ops db) key ix = Some (Ok ?vals)"
    using idx_Values_entries [OF B bok] .
  moreover have "set ?vals = {string_of (code_of kenc k) | k v. kdom k \<and> content k = Some v \<and>
      prefix (bytes_of key) (idx_key ix k v)}" (is "_ = ?R")
  proof (intro set_eqI iffI)
    fix x assume "x \<in> set ?vals"
    then obtain b v where bv: "(b, v) \<in> set ?es" "prefix (bytes_of key) b" "x = string_of (slice_bytes v)"
      by auto
    then obtain s where "v = Some s" "?w b = Some s" using mem by blast
    with only bv show "x \<in> ?R" by fastforce
  next
    fix x assume "x \<in> ?R"
    then obtain k v where kv: "x = string_of (code_of kenc k)" "kdom k" "content k = Some v"
      "prefix (bytes_of key) (idx_key ix k v)" by blast
    then have "(idx_key ix k v, Some (code_of kenc k)) \<in> set ?es" using mem all by blast
    with kv show "x \<in> set ?vals" by force
  qed
  moreover have "prefix (bytes_of key) (idx_key ix k v)" if "ix_mapper ix k v = key" for k v
    using that by (simp add: idx_key_def)
  ultimately show ?thesis by (intro exI [of _ ?vals]) blast
qed

definition by_value :: "goval \<Rightarrow> goval \<Rightarrow> string" where
  "by_value k v = (case v of GStr s \<Rightarrow> s | _ \<Rightarrow> [])"

text \<open>Two records, \<open>x\<close> filed under \<open>a\<close> and \<open>y\<close> under \<open>ab\<close>.\<close>

definition overlap_index :: "ref_db pebble index" where
  "overlap_index = \<lparr>ix_mapper = by_value, ix_name = ''v'',
     ix_backend = \<lparr>pb_dbName = ''d'', pb_pebble = [(bytes_of ''aby'', bytes_of ''y''), (bytes_of ''ax'', bytes_of ''x'')]\<rparr>,
     ix_keyEncoder = StringEncoder\<rparr>"

definition overlap_key :: "goval \<Rightarrow> bool" where
  "overlap_key k = (k = GStr ''x'' \<or> k = GStr ''y'')"

definition overlap_content :: "goval \<Rightarrow> goval option" where
  "overlap_content k = (if k = GStr ''x'' then Some (GStr ''a'') else if k = GStr ''y'' then Some (GStr ''ab'') else None)"

lemma string_code: "code_of StringEncoder (GStr s) = bytes_of s"
  by (simp add: code_of_def StringEncoder_def string_Encode_def)

lemma overlap_key_bytes: "idx_key overlap_index (GStr s) (GStr v) = bytes_of (v @ s)"
  by (simp add: idx_key_def overlap_index_def by_value_def string_code bytes_of_append)

lemma overlap_index_inv:
  "index_inv (pb_view id) (pb_inv ref_inv) StringEncoder overlap_key overlap_content overlap_index"
proof -
  let ?w = "pb_view id (ix_backend overlap_index)"
  have w: "?w b = (if b = bytes_of ''aby'' then Some (bytes_of ''y'') else if b = bytes_of ''ax'' then Some (bytes_of ''x'') else None)" for b
    by (simp add: overlap_index_def pb_view_def db_view_def)
  have "k = k'" if "overlap_key k" "overlap_key k'" "idx_key overlap_index k v = idx_key overlap_index k' v'" for k v k' v'
  proof -
    have "last (idx_key overlap_index (GStr [c]) v) = of_char c" for c v
      by (simp add: idx_key_def overlap_index_def string_code) (simp add: bytes_of_def)
    with that show ?thesis unfolding overlap_key_def by (auto dest!: arg_cong [where f = last])
  qed
  then have "unambiguous overlap_key overlap_index" unfolding unambiguous_def by blast
  moreover have "pb_inv ref_inv (ix_backend overlap_index)" "ix_keyEncoder overlap_index = StringEncoder"
    by (simp_all add: overlap_index_def pb_inv_def ref_inv_def bytes_of_def)
  moreover have "\<exists>k v. overlap_key k \<and> overlap_content k = Some v \<and> b = idx_key overlap_index k v \<and>
      s = code_of StringEncoder k" if "?w b = Some s" for b s
  proof (cases "b = bytes_of ''aby''")
    case True
    with that show ?thesis
      by (intro exI [of _ "GStr ''y''"] exI [of _ "GStr ''ab''"])
        (simp add: w overlap_key_def overlap_content_def overlap_key_bytes string_code)
  next
    case False
    with that show ?thesis
      by (intro exI [of _ "GStr ''x''"] exI [of _ "GStr ''a''"])
        (simp add: w overlap_key_def overlap_content_def overlap_key_bytes string_code split: if_splits)
  qed
  moreover have "?w (idx_key overlap_index k v) = Some (code_of StringEncoder k)"
    if "overlap_key k" "overlap_content k = Some v" for k v
    using that by (auto simp: overlap_key_def overlap_content_def overlap_key_bytes w string_code split: if_splits)
  ultimately show ?thesis unfolding index_inv_def by blast
qed

theorem index_values_complete_witness:
  "\<exists>vals. idx_Values (pebble_backend ref_engine) (pebble_iter_ops ref_engine) ''a'' overlap_index = Some (Ok vals) \<and>
     set vals = {''x'', ''y''} \<and> ix_mapper overlap_index (GStr ''y'') (GStr ''ab'') \<noteq> ''a''"
proof -
  have p: "prefix (bytes_of ''a'') (bytes_of (''a'' @ s))" for s
    by (simp only: bytes_of_append) simp
  have "{string_of (code_of StringEncoder k) | k v. overlap_key k \<and> overlap_content k = Some v \<and>
      prefix (bytes_of ''a'') (idx_key overlap_index k v)} = {''x'', ''y''}" (is "?S = _")
  proof
    show "?S \<subseteq> {''x'', ''y''}" by (auto simp: overlap_key_def string_code)
    have "''x'' \<in> ?S"
      using p [of "''x''"] by (auto simp: overlap_key_def overlap_content_def overlap_key_bytes string_code
          intro!: exI [of _ "GStr ''x''"])
    moreover have "''y'' \<in> ?S"
      using p [of "''by''"] by (auto simp: overlap_key_def overlap_content_def overlap_key_bytes string_code
          intro!: exI [of _ "GStr ''y''"])
    ultimately show "{''x'', ''y''} \<subseteq> ?S" by simp
  qed
  moreover have "ix_mapper overlap_index (GStr ''y'') (GStr ''ab'') \<noteq> ''a''"
    by (simp add: overlap_index_def by_value_def)
  ultimately show ?thesis
    using index_values_complete [OF ref_engine_laws overlap_index_inv, of "''a''"] by auto
qed

theorem rebuild_indexes_result_witness:
  "\<exists>s'. ixs_RebuildIndexes memory_backend mem_iter_ops sample_indexed = Some (Ok (), s') \<and>
     ixs_inv mem_view mem_inv StringEncoder is_nonempty_str IntEncoder is_int s'"
proof -
  have st: "store_inv mem_view mem_inv StringEncoder is_nonempty_str IntEncoder is_int (is_store sample_indexed)"
    using sample_store_inv by (simp add: sample_indexed_def)
  have e: "\<forall>(k, v) \<in> set (mem_entries (st_backend (is_store sample_indexed))). v \<noteq> None"
    by (simp add: sample_indexed_def sample_store_def mem_entries_def NewMemoryBackend_def)
  have ix: "\<forall>ix \<in> set (is_indexes sample_indexed). mem_inv (ix_backend ix) \<and> ix_keyEncoder ix = StringEncoder \<and>
      unambiguous is_nonempty_str ix"
    by (simp add: sample_indexed_def unambiguous_parity)
  have none: "mem_view (ix_backend ix) = (\<lambda>_. None)" if "ix \<in> set (is_indexes sample_indexed)" for ix
    using that by (auto simp: sample_indexed_def mem_view_new)
  from rebuild_indexes_result [OF memi.indexed_axioms st e ix] none st show ?thesis
    by (fastforce simp: ixs_inv_def list_all_length list_all2_conv_all_nth in_set_conv_nth)
qed

end
