(* ===== verification/State_Store.thy ===== *)
theory State_Store
  imports Index Kafka
begin

text \<open>
  \<open>src/streams/state_stores\<close>: the state store (a store with a write cache), the change logger, the
  loggable state store that writes every change to a changelog topic first, and the offset store.
\<close>

section \<open>The state store\<close>

record ('b, 'c) state_store =
  ss_Store :: "'b store"
  ss_cache :: "'c store_cache"

definition on_ss_cache ::
  "('c store_cache \<Rightarrow> 'a res \<times> 'c store_cache) \<Rightarrow> ('b, 'c) state_store \<Rightarrow> 'a res \<times> ('b, 'c) state_store" where
  "on_ss_cache f s = (case f (ss_cache s) of (r, c) \<Rightarrow> (r, s\<lparr>ss_cache := c\<rparr>))"

definition ss_Set ::
  "('c, 'b, 'i) cache_ops \<Rightarrow> goval \<Rightarrow> goval \<Rightarrow> int \<Rightarrow> ('b, 'c) state_store \<Rightarrow> unit res \<times> ('b, 'c) state_store" where
  "ss_Set ch key value expiry = on_ss_cache (cache_Set ch key value expiry)"

definition ss_Get :: "('c, 'b, 'i) cache_ops \<Rightarrow> goval \<Rightarrow> ('b, 'c) state_store \<Rightarrow> goval res" where
  "ss_Get ch key s = cache_Get ch key (ss_cache s) (st_backend (ss_Store s))"

definition ss_Iterator ::
  "('c, 'b, 'i) cache_ops \<Rightarrow> 'i iter_ops \<Rightarrow> ('b, 'c) state_store \<Rightarrow> 'i store_iter res" where
  "ss_Iterator ch io s = cache_Iterator ch io (ss_cache s) (st_backend (ss_Store s))"

definition ss_PrefixedIterator ::
  "('c, 'b, 'i) cache_ops \<Rightarrow> 'i iter_ops \<Rightarrow> goval \<Rightarrow> encoder \<Rightarrow> ('b, 'c) state_store \<Rightarrow> 'i store_iter res" where
  "ss_PrefixedIterator ch io keyPrefix prefixEncoder s =
     cache_PrefixedIterator ch io keyPrefix prefixEncoder (ss_cache s) (st_backend (ss_Store s))"

definition ss_Delete ::
  "('c, 'b, 'i) cache_ops \<Rightarrow> goval \<Rightarrow> ('b, 'c) state_store \<Rightarrow> unit res \<times> ('b, 'c) state_store" where
  "ss_Delete ch key = on_ss_cache (cache_Delete ch key)"

text \<open>\<open>Flush\<close> commits the cache, which writes to the backend of the store.\<close>

definition ss_Flush :: "('c, 'b, 'i) cache_ops \<Rightarrow> ('b, 'c) state_store \<Rightarrow> unit res \<times> ('b, 'c) state_store" where
  "ss_Flush ch s = (case cache_Flush ch (ss_cache s, st_backend (ss_Store s)) of
     (r, c, b) \<Rightarrow> (r, s\<lparr>ss_Store := (ss_Store s)\<lparr>st_backend := b\<rparr>, ss_cache := c\<rparr>))"

definition ss_ResetCache :: "('c, 'b, 'i) cache_ops \<Rightarrow> ('b, 'c) state_store \<Rightarrow> ('b, 'c) state_store" where
  "ss_ResetCache ch s = s\<lparr>ss_cache := cache_Reset ch (ss_cache s)\<rparr>"

section \<open>The change logger\<close>

record 'p change_logger =
  cl_producer :: 'p
  cl_tp :: topic_partition

definition NewChangeLogger :: "'p \<Rightarrow> topic_partition \<Rightarrow> 'p change_logger" where
  "NewChangeLogger producer tp = \<lparr>cl_producer = producer, cl_tp = tp\<rparr>"

text \<open>\<open>now\<close> is \<open>time.Now()\<close>.\<close>

definition cl_Log ::
  "('p, 'm) producer_ops \<Rightarrow> int \<Rightarrow> slice \<Rightarrow> slice \<Rightarrow> 'p change_logger \<Rightarrow> unit res \<times> 'p change_logger" where
  "cl_Log pr now key value c =
     (let record = pr_NewRecord pr key value (tp_Topic (cl_tp c)) (tp_Partition (cl_tp c)) now [] []
      in if pr_transactional pr then
           (case pr_ProduceAsync pr record (cl_producer c) of (r, p) \<Rightarrow> (r, c\<lparr>cl_producer := p\<rparr>))
         else
           (case pr_ProduceSync pr record (cl_producer c) of
              (r, p) \<Rightarrow> (bind_res r (\<lambda>_. Ok ()), c\<lparr>cl_producer := p\<rparr>)))"

section \<open>The loggable state store\<close>

record ('b, 'c, 'p) loggable_store =
  ls_StateStore :: "('b, 'c) state_store"
  ls_ChangeLogger :: "'p change_logger"

definition ls_Log ::
  "('p, 'm) producer_ops \<Rightarrow> int \<Rightarrow> slice \<Rightarrow> slice \<Rightarrow> ('b, 'c, 'p) loggable_store \<Rightarrow> unit res \<times> ('b, 'c, 'p) loggable_store" where
  "ls_Log pr now key value s = (case cl_Log pr now key value (ls_ChangeLogger s) of
     (r, l) \<Rightarrow> (r, s\<lparr>ls_ChangeLogger := l\<rparr>))"

definition on_cache_backend ::
  "('c \<Rightarrow> unit res \<times> 'c) \<Rightarrow> ('b, 'c, 'p) loggable_store \<Rightarrow> unit res \<times> ('b, 'c, 'p) loggable_store" where
  "on_cache_backend f s = (case on_ss_cache (on_cache f) (ls_StateStore s) of
     (r, st) \<Rightarrow> (r, s\<lparr>ls_StateStore := st\<rparr>))"

definition ls_Set ::
  "('p, 'm) producer_ops \<Rightarrow> ('c, 'b, 'i) cache_ops \<Rightarrow> int \<Rightarrow> goval \<Rightarrow> goval \<Rightarrow> int
    \<Rightarrow> ('b, 'c, 'p) loggable_store \<Rightarrow> unit res \<times> ('b, 'c, 'p) loggable_store" where
  "ls_Set pr ch now key value expiry s =
     (let st = ss_Store (ls_StateStore s)
      in bindR (wrapR ''key encode error'' (pureR (enc_encode (st_keyEncoder st) key))) (\<lambda>keyByt.
           bindR (wrapR ''value encode err'' (pureR (enc_encode (st_valEncoder st) value))) (\<lambda>valByt.
             bindR (wrapR ''changelog write failed'' (ls_Log pr now keyByt valByt)) (\<lambda>_.
               wrapR ''cache backend write failed''
                 (on_cache_backend (ch_set ch (slice_bytes keyByt) valByt 0))))) s)"

definition ls_Delete ::
  "('p, 'm) producer_ops \<Rightarrow> ('c, 'b, 'i) cache_ops \<Rightarrow> int \<Rightarrow> goval
    \<Rightarrow> ('b, 'c, 'p) loggable_store \<Rightarrow> unit res \<times> ('b, 'c, 'p) loggable_store" where
  "ls_Delete pr ch now key s =
     (let st = ss_Store (ls_StateStore s)
      in bindR (wrapR ''key encode error'' (pureR (enc_encode (st_keyEncoder st) key))) (\<lambda>keyByt.
           bindR (wrapR ''changelog write failed'' (ls_Log pr now keyByt None)) (\<lambda>_.
             wrapR ''cache backend delete failed''
               (on_cache_backend (ch_delete ch (slice_bytes keyByt))))) s)"

section \<open>The offset store\<close>

definition os_Commit ::
  "('b, 'i) backend_ops \<Rightarrow> topic_partition \<Rightarrow> int64 \<Rightarrow> 'b store \<Rightarrow> unit res \<times> 'b store" where
  "os_Commit bk tp offset = store_Set bk (GStr (tp_String tp)) (GInt offset) 0"

definition os_Committed :: "('b, 'i) backend_ops \<Rightarrow> topic_partition \<Rightarrow> 'b store \<Rightarrow> int64 res" where
  "os_Committed bk tp str =
     (if \<not> bk_persistent bk then Ok OffsetEarliest
      else bind_res (wrap_res ''committed offset fetch failed'' (store_Get bk (GStr (tp_String tp)) str)) (\<lambda>v.
        if v = GNil then Ok OffsetEarliest
        else (case v of GInt i \<Rightarrow> Ok i | _ \<Rightarrow> Panic ''interface conversion: not int'')))"

section \<open>The state store behaves as its cache over its store\<close>

definition ss_inv :: "('b \<Rightarrow> bool) \<Rightarrow> encoder \<Rightarrow> encoder \<Rightarrow> ('b, 'c) state_store \<Rightarrow> bool" where
  "ss_inv bok kenc venc s \<longleftrightarrow> bok (st_backend (ss_Store s)) \<and>
     st_keyEncoder (ss_Store s) = kenc \<and> st_valEncoder (ss_Store s) = venc \<and>
     sc_keyEncoder (ss_cache s) = kenc \<and> sc_valEncoder (ss_cache s) = venc"

definition ss_view :: "('c \<Rightarrow> 'b \<Rightarrow> bytes \<Rightarrow> slice) \<Rightarrow> ('b, 'c) state_store \<Rightarrow> bytes \<Rightarrow> slice" where
  "ss_view over s = over (sc_backendCache (ss_cache s)) (st_backend (ss_Store s))"

locale cached_store = cache ch view inv over + codecs kenc kdom venc vdom
  for ch :: "('c, 'b, 'i) cache_ops" and view inv over kenc kdom venc vdom
begin

lemma ss_get:
  assumes "ss_inv inv kenc venc s" "kdom k" "coded kenc kdom venc vdom (ss_view over s)"
  shows "ss_Get ch k s = Ok (or_nil (content_of kenc venc (ss_view over s) k))"
  using assms decode_coded [OF assms(3,2)]
  by (simp add: ss_inv_def ss_Get_def cache_Get_def keyc.encode_code get_over ss_view_def)

lemma ss_set:
  assumes "ss_inv inv kenc venc s" "kdom k" "vdom v"
  obtains s' where "ss_Set ch k v x s = (Ok (), s')" "ss_inv inv kenc venc s'" "ss_Store s' = ss_Store s"
    "ss_view over s' = (ss_view over s)(code_of kenc k := Some (code_of venc v))"
proof -
  from assms(1) have i: "sc_keyEncoder (ss_cache s) = kenc" "sc_valEncoder (ss_cache s) = venc"
    by (simp_all add: ss_inv_def)
  obtain c where c: "ch_set ch (code_of kenc k) (Some (code_of venc v)) x (sc_backendCache (ss_cache s)) = (Ok (), c)"
    "\<And>b. over c b = (over (sc_backendCache (ss_cache s)) b)(code_of kenc k := Some (code_of venc v))"
    using setE by (metis slice_bytes_simps(2))
  let ?s = "s\<lparr>ss_cache := (ss_cache s)\<lparr>sc_backendCache := c\<rparr>\<rparr>"
  have "v \<noteq> GNil" using assms(3) nil_value by blast
  then have "ss_Set ch k v x s = (Ok (), ?s)"
    using c(1) assms(2,3)
    by (simp add: ss_Set_def on_ss_cache_def cache_Set_def i keyc.encode_code valc.encode_code bindR_def wrapR_def
        pureR_def on_cache_def)
  moreover have "ss_inv inv kenc venc ?s" using assms(1) by (simp add: ss_inv_def)
  moreover have "ss_view over ?s = (ss_view over s)(code_of kenc k := Some (code_of venc v))"
    by (rule ext) (simp add: ss_view_def c(2))
  ultimately show thesis using that by simp
qed

lemma ss_delete:
  assumes "ss_inv inv kenc venc s" "kdom k"
  obtains s' where "ss_Delete ch k s = (Ok (), s')" "ss_inv inv kenc venc s'" "ss_Store s' = ss_Store s"
    "ss_view over s' = (ss_view over s)(code_of kenc k := None)"
proof -
  from assms(1) have i: "sc_keyEncoder (ss_cache s) = kenc" by (simp add: ss_inv_def)
  obtain c where c: "ch_delete ch (code_of kenc k) (sc_backendCache (ss_cache s)) = (Ok (), c)"
    "\<And>b. over c b = (over (sc_backendCache (ss_cache s)) b)(code_of kenc k := None)"
    using deleteE by blast
  let ?s = "s\<lparr>ss_cache := (ss_cache s)\<lparr>sc_backendCache := c\<rparr>\<rparr>"
  have "ss_Delete ch k s = (Ok (), ?s)"
    using c(1) assms(2)
    by (simp add: ss_Delete_def on_ss_cache_def cache_Delete_def i keyc.encode_code bindR_def wrapR_def
        pureR_def on_cache_def)
  moreover have "ss_inv inv kenc venc ?s" using assms(1) by (simp add: ss_inv_def)
  moreover have "ss_view over ?s = (ss_view over s)(code_of kenc k := None)"
    by (rule ext) (simp add: ss_view_def c(2))
  ultimately show thesis using that by simp
qed

lemma ss_flush:
  assumes "ss_inv inv kenc venc s"
  obtains s' where "ss_Flush ch s = (Ok (), s')" "ss_inv inv kenc venc s'"
    "view (st_backend (ss_Store s')) = ss_view over s"
proof -
  from assms have i: "inv (st_backend (ss_Store s))" by (simp add: ss_inv_def)
  obtain c b where cb: "ch_flush ch (sc_backendCache (ss_cache s), st_backend (ss_Store s)) = (Ok (), c, b)"
    "inv b" "view b = over (sc_backendCache (ss_cache s)) (st_backend (ss_Store s))"
    using flushE [OF i] by blast
  let ?s = "s\<lparr>ss_Store := (ss_Store s)\<lparr>st_backend := b\<rparr>, ss_cache := (ss_cache s)\<lparr>sc_backendCache := c\<rparr>\<rparr>"
  have "ss_Flush ch s = (Ok (), ?s)"
    using cb(1) by (simp add: ss_Flush_def cache_Flush_def)
  moreover have "ss_inv inv kenc venc ?s" using assms cb(2) by (simp add: ss_inv_def)
  ultimately show thesis using that [of ?s] cb(3) by (simp add: ss_view_def)
qed

lemma ss_reset:
  assumes "ss_inv inv kenc venc s"
  shows "ss_inv inv kenc venc (ss_ResetCache ch s)" "ss_Store (ss_ResetCache ch s) = ss_Store s"
    "ss_view over (ss_ResetCache ch s) = view (st_backend (ss_Store s))"
  using assms by (simp_all add: ss_inv_def ss_ResetCache_def cache_Reset_def ss_view_def reset_over)

end

interpretation pebss: cached_store "pebble_cache ref_engine" "pb_view id" "pb_inv ref_inv" ref_over
  StringEncoder is_nonempty_str StringEncoder is_nonempty_str
  by unfold_locales

section \<open>The changelog\<close>

text \<open>
  What a producer promises: a new record carries the given key, value, topic and partition, and producing
  a record without an error appends it to what was produced. \<open>logged p\<close> is what was produced.
\<close>

definition producer_logs :: "('p, 'm) producer_ops \<Rightarrow> ('p \<Rightarrow> krecord list) \<Rightarrow> bool" where
  "producer_logs pr logged \<longleftrightarrow>
     (\<forall>k v t n now hs meta. kr_Key (pr_NewRecord pr k v t n now hs meta) = k \<and>
        kr_Value (pr_NewRecord pr k v t n now hs meta) = v \<and>
        kr_Topic (pr_NewRecord pr k v t n now hs meta) = t \<and>
        kr_Partition (pr_NewRecord pr k v t n now hs meta) = n) \<and>
     (\<forall>r p p'. pr_ProduceAsync pr r p = (Ok (), p') \<longrightarrow> logged p' = logged p @ [r]) \<and>
     (\<forall>r p x p'. pr_ProduceSync pr r p = (Ok x, p') \<longrightarrow> logged p' = logged p @ [r])"

text \<open>A producer that accepts everything, with the list of what it produced as its state.\<close>

definition list_producer :: "bool \<Rightarrow> (krecord list, unit) producer_ops" where
  "list_producer tx = \<lparr>pr_transactional = tx,
     pr_NewRecord = (\<lambda>k v t n now hs meta. \<lparr>kr_Key = k, kr_Value = v, kr_Topic = t, kr_Partition = n,
       kr_Offset = 0, kr_Timestamp = now, kr_Headers = hs\<rparr>),
     pr_ProduceSync = (\<lambda>r p. (Ok (kr_Partition r, of_nat (length p)), p @ [r])),
     pr_ProduceAsync = (\<lambda>r p. (Ok (), p @ [r])),
     pr_InitTransactions = (\<lambda>p. (Ok (), p)), pr_BeginTransaction = (\<lambda>p. (Ok (), p)),
     pr_SendOffsets = (\<lambda>os m p. (Ok (), p)), pr_CommitTransaction = (\<lambda>p. (Ok (), p)),
     pr_AbortTransaction = (\<lambda>p. (Ok (), p)), pr_Restart = (\<lambda>p. (Ok (), p)), pr_Close = (\<lambda>p. (Ok (), p))\<rparr>"

lemma list_producer_logs: "producer_logs (list_producer tx) id"
  by (simp add: producer_logs_def list_producer_def)

text \<open>What a changelog record means for a map of bytes: a value that is nil or empty is a tombstone.\<close>

definition apply_change :: "krecord \<Rightarrow> (bytes \<Rightarrow> slice) \<Rightarrow> bytes \<Rightarrow> slice" where
  "apply_change r w = w(slice_bytes (kr_Key r) := (if slice_len (kr_Value r) < 1 then None else kr_Value r))"

definition apply_changes :: "krecord list \<Rightarrow> (bytes \<Rightarrow> slice) \<Rightarrow> bytes \<Rightarrow> slice" where
  "apply_changes rs w = fold apply_change rs w"

lemma apply_changes_simps [simp]:
  "apply_changes [] w = w" "apply_changes (r # rs) w = apply_changes rs (apply_change r w)"
  "apply_changes (rs @ rs') w = apply_changes rs' (apply_changes rs w)"
  by (simp_all add: apply_changes_def)

definition ls_log :: "('p \<Rightarrow> krecord list) \<Rightarrow> ('b, 'c, 'p) loggable_store \<Rightarrow> krecord list" where
  "ls_log logged s = logged (cl_producer (ls_ChangeLogger s))"

text \<open>The changelog describes the store: applied to \<open>w0\<close> it gives what a reader of the store sees.\<close>

definition ls_inv ::
  "('b \<Rightarrow> bool) \<Rightarrow> encoder \<Rightarrow> encoder \<Rightarrow> ('c \<Rightarrow> 'b \<Rightarrow> bytes \<Rightarrow> slice) \<Rightarrow> ('p \<Rightarrow> krecord list)
    \<Rightarrow> (bytes \<Rightarrow> slice) \<Rightarrow> ('b, 'c, 'p) loggable_store \<Rightarrow> bool" where
  "ls_inv bok kenc venc over logged w0 s \<longleftrightarrow>
     ss_inv bok kenc venc (ls_StateStore s) \<and>
     ss_view over (ls_StateStore s) = apply_changes (ls_log logged s) w0"

lemma ls_Log_cases:
  assumes "producer_logs pr logged"
  obtains (ok) l where "ls_Log pr now k v s = (Ok (), s\<lparr>ls_ChangeLogger := l\<rparr>)"
      "\<exists>r. logged (cl_producer l) = logged (cl_producer (ls_ChangeLogger s)) @ [r] \<and> kr_Key r = k \<and> kr_Value r = v"
    | (failed) l where "\<forall>u. fst (ls_Log pr now k v s) \<noteq> Ok u"
      "snd (ls_Log pr now k v s) = s\<lparr>ls_ChangeLogger := l\<rparr>"
proof -
  let ?c = "ls_ChangeLogger s"
  let ?r = "pr_NewRecord pr k v (tp_Topic (cl_tp ?c)) (tp_Partition (cl_tp ?c)) now [] []"
  have f: "kr_Key ?r = k" "kr_Value ?r = v" using assms by (simp_all add: producer_logs_def)
  have a: "pr_ProduceAsync pr ?r (cl_producer ?c) = (Ok (), p') \<Longrightarrow> logged p' = logged (cl_producer ?c) @ [?r]" for p'
    using assms unfolding producer_logs_def by blast
  have b: "pr_ProduceSync pr ?r (cl_producer ?c) = (Ok x, p') \<Longrightarrow> logged p' = logged (cl_producer ?c) @ [?r]" for x p'
    using assms unfolding producer_logs_def by blast
  show thesis
  proof (cases "pr_transactional pr")
    case True
    obtain res p' where p': "pr_ProduceAsync pr ?r (cl_producer ?c) = (res, p')" by force
    show thesis
    proof (cases res)
      case (Ok u)
      then show thesis using ok [of "?c\<lparr>cl_producer := p'\<rparr>"] p' a True f
        by (simp add: ls_Log_def cl_Log_def Let_def)
    qed (use failed [of "?c\<lparr>cl_producer := p'\<rparr>"] p' True in \<open>auto simp: ls_Log_def cl_Log_def Let_def\<close>)
  next
    case False
    obtain res p' where p': "pr_ProduceSync pr ?r (cl_producer ?c) = (res, p')" by force
    show thesis
    proof (cases res)
      case (Ok u)
      then show thesis using ok [of "?c\<lparr>cl_producer := p'\<rparr>"] p' b False f
        by (simp add: ls_Log_def cl_Log_def Let_def)
    qed (use failed [of "?c\<lparr>cl_producer := p'\<rparr>"] p' False in \<open>auto simp: ls_Log_def cl_Log_def Let_def\<close>)
  qed
qed

datatype store_op = OpSet goval goval int | OpDelete goval

definition ls_run ::
  "('p, 'm) producer_ops \<Rightarrow> ('c, 'b, 'i) cache_ops \<Rightarrow> int \<Rightarrow> store_op
    \<Rightarrow> ('b, 'c, 'p) loggable_store \<Rightarrow> unit res \<times> ('b, 'c, 'p) loggable_store" where
  "ls_run pr ch now op = (case op of OpSet k v x \<Rightarrow> ls_Set pr ch now k v x | OpDelete k \<Rightarrow> ls_Delete pr ch now k)"

definition op_dom :: "(goval \<Rightarrow> bool) \<Rightarrow> (goval \<Rightarrow> bool) \<Rightarrow> store_op \<Rightarrow> bool" where
  "op_dom kdom vdom op = (case op of OpSet k v _ \<Rightarrow> kdom k \<and> vdom v | OpDelete k \<Rightarrow> kdom k)"

context cached_store
begin

lemma cache_write:
  assumes "\<exists>c'. f (sc_backendCache (ss_cache (ls_StateStore s))) = (Ok (), c') \<and>
      (\<forall>b. over c' b = (over (sc_backendCache (ss_cache (ls_StateStore s))) b)(k := y))"
    and "ss_inv inv kenc venc (ls_StateStore s)"
  obtains st where "on_cache_backend f s = (Ok (), s\<lparr>ls_StateStore := st\<rparr>)" "ss_inv inv kenc venc st"
    "ss_view over st = (ss_view over (ls_StateStore s))(k := y)"
proof -
  let ?st = "ls_StateStore s"
  from assms(1) obtain c where c: "f (sc_backendCache (ss_cache ?st)) = (Ok (), c)"
    "\<And>b. over c b = (over (sc_backendCache (ss_cache ?st)) b)(k := y)" by blast
  let ?st' = "?st\<lparr>ss_cache := (ss_cache ?st)\<lparr>sc_backendCache := c\<rparr>\<rparr>"
  have "on_cache_backend f s = (Ok (), s\<lparr>ls_StateStore := ?st'\<rparr>)"
    using c(1) by (simp add: on_cache_backend_def on_ss_cache_def on_cache_def)
  moreover have "ss_inv inv kenc venc ?st'" using assms(2) by (simp add: ss_inv_def)
  moreover have "ss_view over ?st' = (ss_view over ?st)(k := y)"
    by (rule ext) (simp add: ss_view_def c(2))
  ultimately show thesis using that by blast
qed

text \<open>A change that succeeds is in the log and in the cache.\<close>

lemma ls_step:
  assumes pl: "producer_logs pr logged" and s: "ls_inv inv kenc venc over logged w0 s"
    and d: "op_dom kdom vdom op" and r: "ls_run pr ch now op s = (Ok (), s')"
  shows "ls_inv inv kenc venc over logged w0 s'"
proof -
  let ?st = "ls_StateStore s"
  from s have i: "ss_inv inv kenc venc ?st" "ss_view over ?st = apply_changes (ls_log logged s) w0"
    by (simp_all add: ls_inv_def)
  then have e: "st_keyEncoder (ss_Store ?st) = kenc" "st_valEncoder (ss_Store ?st) = venc"
    by (simp_all add: ss_inv_def)
  define k where "k = (case op of OpSet k _ _ \<Rightarrow> k | OpDelete k \<Rightarrow> k)"
  define val where "val = (case op of OpSet _ v _ \<Rightarrow> Some (code_of venc v) | OpDelete _ \<Rightarrow> None)"
  define f where "f = (case op of OpSet _ v _ \<Rightarrow> ch_set ch (code_of kenc k) (Some (code_of venc v)) 0
     | OpDelete _ \<Rightarrow> ch_delete ch (code_of kenc k))"
  have k: "kdom k" using d by (simp add: k_def op_dom_def split: store_op.splits)
  have change: "apply_change rec w = w(code_of kenc k := val)"
    if "kr_Key rec = Some (code_of kenc k)" "kr_Value rec = val" for rec w
    using that d valc.code_neq_Nil
    by (auto simp: apply_change_def val_def op_dom_def less_Suc_eq split: store_op.splits)
  have f: "\<exists>c'. f (sc_backendCache (ss_cache ?st)) = (Ok (), c') \<and>
      (\<forall>b. over c' b = (over (sc_backendCache (ss_cache ?st)) b)(code_of kenc k := val))"
    using set_over [of "code_of kenc k" "Some x" for x] delete_over
    by (cases op) (auto simp: f_def val_def)
  have run: "ls_run pr ch now op s = bindR (wrapR ''changelog write failed'' (ls_Log pr now (Some (code_of kenc k)) val))
      (\<lambda>_. wrapR m (on_cache_backend f)) s"
    if "m = (case op of OpSet _ _ _ \<Rightarrow> ''cache backend write failed'' | OpDelete _ \<Rightarrow> ''cache backend delete failed'')" for m
    using d that
    by (cases op) (simp_all add: ls_run_def ls_Set_def ls_Delete_def op_dom_def e keyc.encode_code valc.encode_code
        bindR_def [where m = "wrapR m' (pureR r)" for m' r] wrapR_def [where m = "pureR r" for r] pureR_def
        k_def val_def f_def)
  obtain m where m: "ls_run pr ch now op s =
      bindR (wrapR ''changelog write failed'' (ls_Log pr now (Some (code_of kenc k)) val)) (\<lambda>_. wrapR m (on_cache_backend f)) s"
    using run by blast
  show ?thesis
  proof (cases rule: ls_Log_cases [OF pl, of now "Some (code_of kenc k)" val s])
    case (1 l)
    then obtain rec where rec: "logged (cl_producer l) = logged (cl_producer (ls_ChangeLogger s)) @ [rec]"
      "kr_Key rec = Some (code_of kenc k)" "kr_Value rec = val" by blast
    let ?s1 = "s\<lparr>ls_ChangeLogger := l\<rparr>"
    obtain st where st: "on_cache_backend f ?s1 = (Ok (), ?s1\<lparr>ls_StateStore := st\<rparr>)" "ss_inv inv kenc venc st"
      "ss_view over st = (ss_view over ?st)(code_of kenc k := val)"
      using cache_write [of f ?s1 "code_of kenc k" val] f i(1) by auto
    have "s' = ?s1\<lparr>ls_StateStore := st\<rparr>"
      using r m 1(1) st(1) by (simp add: bindR_def wrapR_def)
    with st(2,3) i(2) rec change show ?thesis by (simp add: ls_inv_def ls_log_def)
  next
    case (2 l)
    obtain x y where "ls_Log pr now (Some (code_of kenc k)) val s = (x, y)" by force
    with 2 m r show ?thesis by (cases x) (auto simp: bindR_def wrapR_def)
  qed
qed

lemma ls_run_inv:
  assumes "producer_logs pr logged" "\<forall>op \<in> set ops. op_dom kdom vdom op"
    and "ls_inv inv kenc venc over logged w0 s" "forR (ls_run pr ch now) ops s = (Ok (), s')"
  shows "ls_inv inv kenc venc over logged w0 s'"
  using assms(2-4)
proof (induction ops arbitrary: s)
  case (Cons op ops)
  from Cons.prems(3) obtain u s1 where "ls_run pr ch now op s = (Ok u, s1)" "forR (ls_run pr ch now) ops s1 = (Ok (), s')"
    by (auto elim!: bindR_OkD)
  with Cons ls_step [OF assms(1) Cons.prems(2)] show ?case by auto
qed simp

end

section \<open>Properties\<close>

definition sample_pebble :: "ref_db pebble" where
  "sample_pebble = \<lparr>pb_dbName = ''d'', pb_pebble = []\<rparr>"

definition sample_state :: "(ref_db pebble, ref_op list) state_store" where
  "sample_state = \<lparr>ss_Store = \<lparr>st_name = ''s'', st_keyEncoder = StringEncoder, st_valEncoder = StringEncoder,
       st_backend = sample_pebble, st_backendBuilder = (\<lambda>_. Ok sample_pebble)\<rparr>,
     ss_cache = \<lparr>sc_backendCache = [], sc_keyEncoder = StringEncoder, sc_valEncoder = StringEncoder,
       sc_storeName = ''s''\<rparr>\<rparr>"

lemma sample_state_inv: "ss_inv (pb_inv ref_inv) StringEncoder StringEncoder sample_state"
  by (simp add: ss_inv_def sample_state_def sample_pebble_def pb_inv_def ref_inv_def)

lemma sample_state_view: "ss_view ref_over sample_state = (\<lambda>_. None)"
  by (simp add: fun_eq_iff ss_view_def sample_state_def sample_pebble_def ref_over_def ref_commit_def)

text \<open>C7: The cache of a state store is a transaction. A change is read back through the state store at once, but
  reaches the backend only with \<open>Flush\<close>, which makes the backend hold exactly what the state store showed;
  \<open>ResetCache\<close> takes the state store back to what the backend holds.\<close>
theorem state_store_transaction:
  assumes "cached_store ch view bok over kenc kdom venc vdom"
    and "ss_inv bok kenc venc s" "kdom k" "vdom v" "coded kenc kdom venc vdom (ss_view over s)"
  shows "\<exists>s1. ss_Set ch k v x s = (Ok (), s1) \<and> ss_Store s1 = ss_Store s \<and> ss_Get ch k s1 = Ok v \<and>
    (\<exists>s2. ss_Flush ch s1 = (Ok (), s2) \<and> view (st_backend (ss_Store s2)) = ss_view over s1) \<and>
    ss_view over (ss_ResetCache ch s1) = view (st_backend (ss_Store s))"
proof -
  note C = assms(1)
  note K = cached_store.axioms(2) [OF C]
  obtain s1 where s1: "ss_Set ch k v x s = (Ok (), s1)" "ss_inv bok kenc venc s1" "ss_Store s1 = ss_Store s"
    "ss_view over s1 = (ss_view over s)(code_of kenc k := Some (code_of venc v))"
    using cached_store.ss_set [OF C assms(2-4)] by blast
  have "coded kenc kdom venc vdom (ss_view over s1)"
    unfolding s1(4) by (rule codecs.coded_set [OF K assms(5,3,4)])
  then have "ss_Get ch k s1 = Ok v"
    using cached_store.ss_get [OF C s1(2) assms(3)] codecs.content_set [OF K assms(3,4,3)]
    by (simp add: s1(4) or_nil_def)
  moreover obtain s2 where "ss_Flush ch s1 = (Ok (), s2)" "view (st_backend (ss_Store s2)) = ss_view over s1"
    using cached_store.ss_flush [OF C s1(2)] by blast
  ultimately show ?thesis
    using s1(1,3) cached_store.ss_reset(3) [OF C s1(2)] by auto
qed

theorem state_store_transaction_witness:
  "\<exists>s1. ss_Set (pebble_cache ref_engine) (GStr ''a'') (GStr ''b'') 0 sample_state = (Ok (), s1) \<and>
     ss_Get (pebble_cache ref_engine) (GStr ''a'') s1 = Ok (GStr ''b'') \<and>
     ss_view ref_over (ss_ResetCache (pebble_cache ref_engine) s1) = pb_view id sample_pebble"
proof -
  have d: "is_nonempty_str (GStr ''a'')" "is_nonempty_str (GStr ''b'')" by (simp_all add: is_nonempty_str_def)
  have c: "coded StringEncoder is_nonempty_str StringEncoder is_nonempty_str (ss_view ref_over sample_state)"
    by (simp add: sample_state_view coded_def)
  show ?thesis
    using state_store_transaction [OF pebss.cached_store_axioms sample_state_inv d c, of 0]
    by (auto simp: sample_state_def)
qed

text \<open>C8: The changelog is complete. As long as the operations on a loggable store succeed, its changelog, applied
  record by record, describes exactly what the store shows: every change was logged before it was made, in
  the same order, and a deletion as a tombstone.\<close>
theorem changelog_describes_store:
  assumes "cached_store ch view bok over kenc kdom venc vdom" "producer_logs pr logged"
    and "\<forall>op \<in> set ops. op_dom kdom vdom op" "ls_inv bok kenc venc over logged w0 s"
    and "forR (ls_run pr ch now) ops s = (Ok (), s')"
  shows "ss_view over (ls_StateStore s') = apply_changes (ls_log logged s') w0 \<and>
    ls_inv bok kenc venc over logged w0 s'"
  using cached_store.ls_run_inv [OF assms] by (simp add: ls_inv_def)

definition sample_loggable :: "(ref_db pebble, ref_op list, krecord list) loggable_store" where
  "sample_loggable = \<lparr>ls_StateStore = sample_state,
     ls_ChangeLogger = NewChangeLogger [] \<lparr>tp_Topic = ''s-changelog'', tp_Partition = 0\<rparr>\<rparr>"

lemma sample_loggable_inv:
  "ls_inv (pb_inv ref_inv) StringEncoder StringEncoder ref_over id (\<lambda>_. None) sample_loggable"
  by (simp add: ls_inv_def sample_loggable_def sample_state_inv sample_state_view ls_log_def NewChangeLogger_def)

theorem changelog_describes_store_witness:
  "\<exists>s'. forR (ls_run (list_producer True) (pebble_cache ref_engine) 0)
       [OpSet (GStr ''a'') (GStr ''b'') 0, OpDelete (GStr ''a'')] sample_loggable = (Ok (), s') \<and>
     ss_view ref_over (ls_StateStore s') = apply_changes (ls_log id s') (\<lambda>_. None) \<and> length (ls_log id s') = 2"
proof -
  let ?ops = "[OpSet (GStr ''a'') (GStr ''b'') 0, OpDelete (GStr ''a'')]"
  let ?run = "forR (ls_run (list_producer True) (pebble_cache ref_engine) 0) ?ops sample_loggable"
  have d: "\<forall>op \<in> set ?ops. op_dom is_nonempty_str is_nonempty_str op"
    by (simp add: op_dom_def is_nonempty_str_def)
  have r: "fst ?run = Ok () \<and> length (ls_log id (snd ?run)) = 2"
    by (simp add: ls_run_def ls_Set_def ls_Delete_def bindR_def wrapR_def pureR_def ls_Log_def cl_Log_def
        sample_loggable_def NewChangeLogger_def sample_state_def StringEncoder_def string_Encode_def
        list_producer_def on_cache_backend_def on_ss_cache_def on_cache_def pebble_cache_def pc_Set_def pc_Delete_def
        ref_engine_def ls_log_def)
  then have "?run = (Ok (), snd ?run)" by (simp add: prod_eq_iff)
  with changelog_describes_store [OF pebss.cached_store_axioms list_producer_logs d sample_loggable_inv this] r
  show ?thesis by blast
qed

text \<open>The offset store. After \<open>Commit\<close> of an offset for a topic partition, \<open>Committed\<close> returns it, and the
  offsets of other topic partitions are as before, provided the backend says it is persistent. When it says it is
  not, \<open>Committed\<close> always returns \<open>OffsetEarliest\<close>, and so it does with both backends of the repository,
  since the Pebble backend too says that it is not persistent.\<close>
theorem offset_store_roundtrip:
  assumes "typed_store bk view bok StringEncoder is_nonempty_str IntEncoder is_int"
    and "store_inv view bok StringEncoder is_nonempty_str IntEncoder is_int st"
    and "0 \<le> sint (tp_Partition tp)" "0 \<le> sint (tp_Partition tp')"
  shows "\<exists>st'. os_Commit bk tp off st = (Ok (), st') \<and>
    os_Committed bk tp' st' =
      (if \<not> bk_persistent bk then Ok OffsetEarliest
       else if tp' = tp then Ok off else os_Committed bk tp' st) \<and>
    \<not> bk_persistent memory_backend \<and> \<not> bk_persistent (pebble_backend db)"
proof -
  note T = assms(1)
  have ne: "is_nonempty_str (GStr (tp_String t))" for t by (simp add: is_nonempty_str_def tp_String_def)
  have i: "is_int (GInt off)" by (simp add: is_int_def)
  obtain st' where st': "store_Set bk (GStr (tp_String tp)) (GInt off) 0 st = (Ok (), st')"
    "store_inv view bok StringEncoder is_nonempty_str IntEncoder is_int st'"
    "\<forall>k'. is_nonempty_str k' \<longrightarrow> store_content view st' k'
       = (if k' = GStr (tp_String tp) then Some (GInt off) else store_content view st k')"
    using typed_store.set_content [OF T assms(2) ne i] by blast
  have "store_Get bk (GStr (tp_String tp')) st'
      = (if tp_String tp' = tp_String tp then Ok (GInt off) else store_Get bk (GStr (tp_String tp')) st)"
    using st'(3) ne by (simp add: typed_store.get_content [OF T st'(2) ne] typed_store.get_content [OF T assms(2) ne]
        or_nil_def)
  moreover have "(tp_String tp' = tp_String tp) = (tp' = tp)"
    using tp_String_eq [OF assms(4,3)] .
  ultimately show ?thesis
    using st'(1)
    by (simp add: os_Commit_def os_Committed_def memory_backend_def pebble_backend_def pb_Persistent_def)
qed

lemma persistent_memory:
  "typed_store (memory_backend\<lparr>bk_persistent := True\<rparr>) mem_view mem_inv StringEncoder is_nonempty_str IntEncoder is_int"
  using memb.get_view memb.set_view memb.delete_view by unfold_locales (auto simp: is_int_def)

theorem offset_store_roundtrip_witness:
  "\<exists>st'. os_Commit (memory_backend\<lparr>bk_persistent := True\<rparr>) \<lparr>tp_Topic = ''t'', tp_Partition = 3\<rparr> 42 sample_store = (Ok (), st') \<and>
     os_Committed (memory_backend\<lparr>bk_persistent := True\<rparr>) \<lparr>tp_Topic = ''t'', tp_Partition = 3\<rparr> st' = Ok 42"
  using offset_store_roundtrip [OF persistent_memory sample_store_inv,
      of "\<lparr>tp_Topic = ''t'', tp_Partition = 3\<rparr>" "\<lparr>tp_Topic = ''t'', tp_Partition = 3\<rparr>" 42]
  by auto

end
