(* ===== verification/Changelog.thy ===== *)
theory Changelog
  imports State_Store
begin

text \<open>
  \<open>src/streams/state_stores\<close>: the changelog syncer, which restores a store from its changelog topic
  and then follows it, and the builders of changelogs and state stores. The syncer's loop selects among a
  cancelled context, the stop signal and the events of a partition; what arrives, in which order, is the list
  of inputs the loop is run on. A store without indexes is an indexed store with none: the code asks
  \<open>len(Indexes()) > 0\<close>. Progress metrics are left out.
\<close>

section \<open>The syncer\<close>

record 'b syncer =
  sy_tp :: topic_partition
  sy_offsetStore :: "'b store"
  sy_store :: "'b indexed_store"
  sy_syncing :: bool
  sy_endOnce :: bool
  sy_syncedCount :: nat
  sy_synced :: nat
  sy_errors :: "gerror list"
  sy_closed :: bool

text \<open>\<open>sy_synced\<close> counts the values sent on the channel \<open>synced\<close>, \<open>sy_errors\<close> are the errors logged,
  \<open>sy_closed\<close> says that the channels \<open>running\<close> and \<open>synced\<close> are closed.\<close>

datatype sync_input = SyncCtxDone | SyncStop | SyncEvent kevent

definition sync_updateStore ::
  "('b, 'i) backend_ops \<Rightarrow> krecord \<Rightarrow> 'b indexed_store \<Rightarrow> unit res \<times> 'b indexed_store" where
  "sync_updateStore bk record =
     (if slice_len (kr_Value record) < 1 then
        wrapR ''Cannot delete(tombstone) message'' (on_store (on_backend (bk_delete bk (slice_bytes (kr_Key record)))))
      else
        wrapR ''Cannot write message''
          (on_store (on_backend (bk_set bk (slice_bytes (kr_Key record)) (kr_Value record) 0))))"

definition sync_updateStoreWithIndex ::
  "('b, 'i) backend_ops \<Rightarrow> krecord \<Rightarrow> 'b indexed_store \<Rightarrow> unit res \<times> 'b indexed_store" where
  "sync_updateStoreWithIndex bk record s =
     (let st = is_store s
      in if slice_len (kr_Value record) < 1 then
           bindR (wrapR ''key encode failed'' (pureR (enc_decode (st_keyEncoder st) (kr_Key record)))) (\<lambda>key.
             bindR (wrapR ''delete indexes failed'' (DeleteIndexes bk key)) (\<lambda>_.
               on_store (on_backend (bk_delete bk (slice_bytes (kr_Key record)))))) s
         else
           bindR (wrapR ''key decode failed'' (pureR (enc_decode (st_keyEncoder st) (kr_Key record)))) (\<lambda>key.
             bindR (wrapR ''value decode failed'' (pureR (enc_decode (st_valEncoder st) (kr_Value record)))) (\<lambda>val.
               bindR (wrapR ''update indexes failed'' (UpdateIndexes bk key val)) (\<lambda>_.
                 on_store (on_backend (bk_set bk (slice_bytes (kr_Key record)) (kr_Value record) 0))))) s)"

text \<open>An error inside the loop is logged and the loop goes on.\<close>

definition on_sync_store ::
  "('b indexed_store \<Rightarrow> unit res \<times> 'b indexed_store) \<Rightarrow> 'b syncer \<Rightarrow> unit res \<times> 'b syncer" where
  "on_sync_store f s = (case f (sy_store s) of
      (Ok _, st) \<Rightarrow> (Ok (), s\<lparr>sy_store := st\<rparr>)
    | (Err e, st) \<Rightarrow> (Ok (), s\<lparr>sy_store := st, sy_errors := sy_errors s @ [e]\<rparr>)
    | (Panic p, st) \<Rightarrow> (Panic p, s\<lparr>sy_store := st\<rparr>))"

definition sync_commit :: "('b, 'i) backend_ops \<Rightarrow> int64 \<Rightarrow> 'b syncer \<Rightarrow> unit res \<times> 'b syncer" where
  "sync_commit bk offset s = (case os_Commit bk (sy_tp s) offset (sy_offsetStore s) of
      (Ok _, st) \<Rightarrow> (Ok (), s\<lparr>sy_offsetStore := st\<rparr>)
    | (Err e, st) \<Rightarrow> (Ok (), s\<lparr>sy_offsetStore := st, sy_errors := sy_errors s @ [e]\<rparr>)
    | (Panic p, st) \<Rightarrow> (Panic p, s\<lparr>sy_offsetStore := st\<rparr>))"

definition sync_record :: "('b, 'i) backend_ops \<Rightarrow> krecord \<Rightarrow> 'b syncer \<Rightarrow> unit res \<times> 'b syncer" where
  "sync_record bk r s0 =
     (let s = s0\<lparr>sy_syncedCount := sy_syncedCount s0 + 1\<rparr>;
          commit = (if \<not> bk_persistent bk then retR () else sync_commit bk (kr_Offset r))
      in if is_indexes (sy_store s) \<noteq> [] then
           if sy_syncing s then on_sync_store (sync_updateStore bk r) s
           else bindR (on_sync_store (sync_updateStoreWithIndex bk r)) (\<lambda>_. commit) s
         else bindR (on_sync_store (sync_updateStore bk r)) (\<lambda>_. commit) s)"

definition sync_event :: "('b, 'i) backend_ops \<Rightarrow> kevent \<Rightarrow> 'b syncer \<Rightarrow> unit res \<times> 'b syncer" where
  "sync_event bk e s = (case e of
      ERecord r \<Rightarrow> sync_record bk r s
    | EPartitionEnd _ \<Rightarrow>
        (if sy_endOnce s then (Ok (), s)
         else (Ok (), s\<lparr>sy_endOnce := True, sy_synced := sy_synced s + 1, sy_syncing := False\<rparr>))
    | EError err \<Rightarrow> (Ok (), s\<lparr>sy_errors := sy_errors s @ [err]\<rparr>))"

text \<open>The loop; with the inputs used up it is waiting, not closed.\<close>

fun sync_loop :: "('b, 'i) backend_ops \<Rightarrow> sync_input list \<Rightarrow> 'b syncer \<Rightarrow> unit res \<times> 'b syncer" where
  "sync_loop bk [] s = (Ok (), s)"
| "sync_loop bk (SyncCtxDone # ins) s = (Ok (), s\<lparr>sy_endOnce := True, sy_closed := True\<rparr>)"
| "sync_loop bk (SyncStop # ins) s = (Ok (), s\<lparr>sy_endOnce := True, sy_closed := True\<rparr>)"
| "sync_loop bk (SyncEvent e # ins) s = bindR (sync_event bk e) (\<lambda>_. sync_loop bk ins) s"

text \<open>\<open>Sync\<close>; \<open>consume\<close> is \<open>ConsumePartition\<close>, giving what will arrive from the given offset on.\<close>

definition sync_Sync ::
  "('b, 'i) backend_ops \<Rightarrow> (string \<Rightarrow> int32 \<Rightarrow> int64 \<Rightarrow> sync_input list res) \<Rightarrow> 'b syncer \<Rightarrow> unit res \<times> 'b syncer" where
  "sync_Sync bk consume s =
     bindR (wrapR ''cannot get committed offset'' (pureR (os_Committed bk (sy_tp s) (sy_offsetStore s)))) (\<lambda>offset.
       bindR (wrapR ''partition consume failed''
           (pureR (consume (tp_Topic (sy_tp s)) (tp_Partition (sy_tp s)) offset))) (\<lambda>ins.
         sync_loop bk ins)) s"

section \<open>The changelog builder\<close>

record cl_topic_config =
  ct_Name :: string
  ct_Configs :: "(string \<rightharpoonup> string) option"
  ct_Replicas :: int
  ct_NameFormatter :: "(string \<Rightarrow> string) option"
  ct_internal :: bool

record 'b changelog_builder =
  cb_topic :: cl_topic_config
  cb_storeName :: string
  cb_offsetStore :: "'b store option"

type_synonym 'b changelog_option = "'b changelog_builder \<Rightarrow> 'b changelog_builder"

definition ChangelogWithTopicConfigs :: "(string \<rightharpoonup> string) option \<Rightarrow> 'b changelog_option" where
  "ChangelogWithTopicConfigs config b = b\<lparr>cb_topic := (cb_topic b)\<lparr>ct_Configs := config\<rparr>\<rparr>"

definition ChangelogWithTopicTopicNameFormatter :: "(string \<Rightarrow> string) option \<Rightarrow> 'b changelog_option" where
  "ChangelogWithTopicTopicNameFormatter fn b = b\<lparr>cb_topic := (cb_topic b)\<lparr>ct_NameFormatter := fn\<rparr>\<rparr>"

definition ChangelogWithTopicReplicaCount :: "int \<Rightarrow> 'b changelog_option" where
  "ChangelogWithTopicReplicaCount count b = b\<lparr>cb_topic := (cb_topic b)\<lparr>ct_Replicas := count\<rparr>\<rparr>"

definition ChangelogWithSourceTopic :: "string \<Rightarrow> 'b changelog_option" where
  "ChangelogWithSourceTopic topic b =
     b\<lparr>cb_topic := (cb_topic b)\<lparr>ct_Name := topic, ct_internal := False\<rparr>\<rparr>"

text \<open>Writing into a nil map of configurations panics.\<close>

definition NewChangelogBuilder :: "string \<Rightarrow> 'b changelog_option list \<Rightarrow> 'b changelog_builder res" where
  "NewChangelogBuilder storeName opts =
     (let b = fold (\<lambda>opt b. opt b) opts
            \<lparr>cb_topic = \<lparr>ct_Name = [], ct_Configs = Some (\<lambda>_. None), ct_Replicas = 0, ct_NameFormatter = None,
               ct_internal = False\<rparr>, cb_storeName = storeName, cb_offsetStore = None\<rparr>
      in case ct_Configs (cb_topic b) of
           None \<Rightarrow> Panic ''assignment to entry in nil map''
         | Some c \<Rightarrow> Ok (b\<lparr>cb_topic := (cb_topic b)\<lparr>ct_Configs := Some (c(''cleanup.policy'' \<mapsto> ''compact''))\<rparr>\<rparr>))"

text \<open>The name formatter gets the store name; the context it is applied to is fixed here.\<close>

definition cb_createChangelogTopic ::
  "(ktopic list \<Rightarrow> 'a \<Rightarrow> unit res \<times> 'a) \<Rightarrow> int32 \<Rightarrow> 'b changelog_builder \<times> 'a \<Rightarrow> unit res \<times> 'b changelog_builder \<times> 'a" where
  "cb_createChangelogTopic storeConfigs maxPartitions st = (case st of (b, adm) \<Rightarrow>
     (case ct_NameFormatter (cb_topic b) of
        None \<Rightarrow> (Panic ''nil pointer dereference'', b, adm)
      | Some nameFormatter \<Rightarrow>
          (let t = (cb_topic b)\<lparr>ct_Name := nameFormatter (cb_storeName b), ct_internal := True\<rparr>;
               topic = \<lparr>kt_Name = ct_Name t, kt_NumPartitions = maxPartitions,
                 kt_ReplicationFactor = ct_Replicas t,
                 kt_ConfigEntries = (case ct_Configs t of None \<Rightarrow> (\<lambda>_. None) | Some c \<Rightarrow> c)\<rparr>
           in case storeConfigs [topic] adm of
                (r, adm') \<Rightarrow> (wrap_res ''cannot create changelog topic'' r, b\<lparr>cb_topic := t\<rparr>, adm'))))"

text \<open>
  \<open>create\<close> is \<open>StoreRegistry().Create\<close>, \<open>storeConfigs\<close> is \<open>Admin().StoreConfigs\<close>; the state of the registry and of the
  admin client is \<open>'a\<close>.
\<close>

definition cb_Setup ::
  "(ktopic list \<Rightarrow> 'a \<Rightarrow> unit res \<times> 'a) \<Rightarrow> int32 \<Rightarrow> (string \<Rightarrow> encoder \<Rightarrow> encoder \<Rightarrow> 'a \<Rightarrow> 'b store res \<times> 'a)
    \<Rightarrow> 'b changelog_builder \<times> 'a \<Rightarrow> unit res \<times> 'b changelog_builder \<times> 'a" where
  "cb_Setup storeConfigs maxPartitions create =
     bindR (\<lambda>st. if ct_Name (cb_topic (fst st)) = [] then cb_createChangelogTopic storeConfigs maxPartitions st else (Ok (), st))
       (\<lambda>_ (b, adm). case wrapR ''cannot create offset store''
            (create (cb_storeName b @ ''-offsets'') StringEncoder IntEncoder) adm of
          (Ok store, adm') \<Rightarrow> (Ok (), b\<lparr>cb_offsetStore := Some store\<rparr>, adm')
        | (Err e, adm') \<Rightarrow> (Err e, b, adm')
        | (Panic p, adm') \<Rightarrow> (Panic p, b, adm'))"

definition cb_Build :: "int32 \<Rightarrow> 'b indexed_store \<Rightarrow> 'b changelog_builder \<Rightarrow> 'b syncer res" where
  "cb_Build part store b =
     (case cb_offsetStore b of
        None \<Rightarrow> Err (err_New ''Offset store for changelog is empty'')
      | Some ost \<Rightarrow> Ok \<lparr>sy_tp = \<lparr>tp_Topic = ct_Name (cb_topic b), tp_Partition = part\<rparr>,
          sy_offsetStore = ost, sy_store = store, sy_syncing = True, sy_endOnce = False,
          sy_syncedCount = 0, sy_synced = 0, sy_errors = [], sy_closed = False\<rparr>)"

definition cb_BuildLogger :: "'p \<Rightarrow> int32 \<Rightarrow> 'b changelog_builder \<Rightarrow> 'p change_logger res" where
  "cb_BuildLogger producer part b =
     Ok (NewChangeLogger producer \<lparr>tp_Topic = ct_Name (cb_topic b), tp_Partition = part\<rparr>)"

section \<open>The state store builder\<close>

record 'b state_store_builder =
  ssb_keyEnc :: encoder
  ssb_valEnc :: encoder
  ssb_options :: "'b store_option list"
  ssb_store :: "'b store_builder option"
  ssb_nameFormatter :: "string \<Rightarrow> string"
  ssb_syncerEnabled :: bool
  ssb_loggingEnabled :: bool
  ssb_clOptions :: "'b changelog_option list"
  ssb_builder :: "'b changelog_builder option"

type_synonym 'b ss_option = "'b state_store_builder \<Rightarrow> 'b state_store_builder"

definition WithChangelogSyncDisabled :: "'b ss_option" where
  "WithChangelogSyncDisabled b = b\<lparr>ssb_syncerEnabled := False\<rparr>"

definition ChangelogSyncEnabled :: "'b ss_option" where
  "ChangelogSyncEnabled b = b\<lparr>ssb_syncerEnabled := True\<rparr>"

definition LoggingDisabled :: "'b ss_option" where
  "LoggingDisabled b = b\<lparr>ssb_loggingEnabled := False\<rparr>"

definition WithNameFunc :: "(string \<Rightarrow> string) \<Rightarrow> 'b ss_option" where
  "WithNameFunc fn b = b\<lparr>ssb_nameFormatter := fn\<rparr>"

definition WithChangelogOptions :: "'b changelog_option list \<Rightarrow> 'b ss_option" where
  "WithChangelogOptions options b = b\<lparr>ssb_clOptions := ssb_clOptions b @ options\<rparr>"

definition UseStoreBuilder :: "'b store_builder option \<Rightarrow> 'b ss_option" where
  "UseStoreBuilder nativeBuilder b = b\<lparr>ssb_store := nativeBuilder\<rparr>"

definition StoreBuilderWithStoreOption :: "'b store_option list \<Rightarrow> 'b ss_option" where
  "StoreBuilderWithStoreOption options b = b\<lparr>ssb_options := options\<rparr>"

definition StoreBuilderWithKeyEncoder :: "encoder \<Rightarrow> 'b ss_option" where
  "StoreBuilderWithKeyEncoder enc b = b\<lparr>ssb_keyEnc := enc\<rparr>"

definition StoreBuilderWithValEncoder :: "encoder \<Rightarrow> 'b ss_option" where
  "StoreBuilderWithValEncoder enc b = b\<lparr>ssb_valEnc := enc\<rparr>"

text \<open>The default store builder gets the encoders passed in, not those the options set.\<close>

definition NewStoreBuilder ::
  "string \<Rightarrow> encoder \<Rightarrow> encoder \<Rightarrow> 'b ss_option list \<Rightarrow> 'b state_store_builder res" where
  "NewStoreBuilder name keyEncoder valEncoder options =
     (let b = fold (\<lambda>opt b. opt b) options
            \<lparr>ssb_keyEnc = keyEncoder, ssb_valEnc = valEncoder, ssb_options = [], ssb_store = None,
              ssb_nameFormatter = (\<lambda>store. store), ssb_syncerEnabled = True, ssb_loggingEnabled = True,
              ssb_clOptions = [], ssb_builder = None\<rparr>;
          st = (case ssb_store b of
              None \<Rightarrow> NewDefaultStoreBuilder name keyEncoder valEncoder (ssb_options b) | Some st \<Rightarrow> st)
      in bind_res (NewChangelogBuilder (sb_name st) (ssb_clOptions b))
           (\<lambda>cb. Ok (b\<lparr>ssb_store := Some st, ssb_builder := Some cb\<rparr>)))"

definition ssb_Name :: "'b state_store_builder \<Rightarrow> string" where
  "ssb_Name d = (case ssb_store d of None \<Rightarrow> [] | Some st \<Rightarrow> sb_name st)"

definition ssb_NameFormatter :: "int32 \<Rightarrow> string \<Rightarrow> string" where
  "ssb_NameFormatter part store = store @ ''-'' @ show_int (sint part)"

definition ssb_KeyEncoder :: "'b state_store_builder \<Rightarrow> encoder" where
  "ssb_KeyEncoder d = ssb_keyEnc d"

definition ssb_ValEncoder :: "'b state_store_builder \<Rightarrow> encoder" where
  "ssb_ValEncoder d = ssb_keyEnc d"

datatype ('b, 'c, 'p) store_instance =
    PlainInstance "('b, 'c) state_store" "'b syncer"
  | LoggableInstance "('b, 'c, 'p) loggable_store" "'b syncer"

text \<open>\<open>Build\<close>; the backend builder \<open>dflt\<close> is the store's default, \<open>cacheable\<close> as for \<open>Cache\<close>.\<close>

definition ssb_Build ::
  "(string \<Rightarrow> 'b res) \<Rightarrow> ('c, 'b, 'i) cache_ops option \<Rightarrow> int32 \<Rightarrow> 'p \<Rightarrow> 'b state_store_builder
    \<Rightarrow> ('b, 'c, 'p) store_instance res" where
  "ssb_Build dflt cacheable part producer d =
     (case (ssb_store d, ssb_builder d) of
        (Some sb, Some cb) \<Rightarrow>
          bind_res (wrap_res ''store build failed''
              (sb_Build dflt (ssb_NameFormatter part (sb_name sb)) (ssb_options d @ [WithCachingEnabled]) sb)) (\<lambda>store.
            bind_res (wrap_res ''changelogSyncer initiate failed''
                (cb_Build part \<lparr>is_store = store, is_indexes = []\<rparr> cb)) (\<lambda>syncer.
              bind_res (store_Cache cacheable store) (\<lambda>cache.
                let stor = \<lparr>ss_Store = store, ss_cache = cache\<rparr>
                in if \<not> ssb_loggingEnabled d then Ok (PlainInstance stor syncer)
                   else bind_res (wrap_res ''changelogSyncer build failed'' (cb_BuildLogger producer part cb))
                     (\<lambda>logger. Ok (LoggableInstance \<lparr>ls_StateStore = stor, ls_ChangeLogger = logger\<rparr> syncer)))))
      | _ \<Rightarrow> Panic ''nil pointer dereference'')"

section \<open>Lemmas\<close>

lemma set_raw:
  assumes "backend bk view bok" "bok (st_backend (is_store s))"
  obtains b where "on_store (on_backend (bk_set bk k (Some v) x)) s
      = (Ok (), s\<lparr>is_store := (is_store s)\<lparr>st_backend := b\<rparr>\<rparr>)" "bok b"
    "view b = (view (st_backend (is_store s)))(k := Some v)"
proof -
  obtain b where "bk_set bk k (Some v) x (st_backend (is_store s)) = (Ok (), b)" "bok b"
    "view b = (view (st_backend (is_store s)))(k := Some v)"
    using backend.setE [OF assms] by blast
  then show thesis using that by (simp add: on_store_def on_backend_def)
qed

lemma delete_raw:
  assumes "backend bk view bok" "bok (st_backend (is_store s))"
  obtains b where "on_store (on_backend (bk_delete bk k)) s
      = (Ok (), s\<lparr>is_store := (is_store s)\<lparr>st_backend := b\<rparr>\<rparr>)" "bok b"
    "view b = (view (st_backend (is_store s)))(k := None)"
proof -
  obtain b where "bk_delete bk k (st_backend (is_store s)) = (Ok (), b)" "bok b"
    "view b = (view (st_backend (is_store s)))(k := None)"
    using backend.deleteE [OF assms] by blast
  then show thesis using that by (simp add: on_store_def on_backend_def)
qed

text \<open>Without an index update, a changelog record is applied to the store as it is.\<close>

lemma updateStore_view:
  assumes "backend bk view bok" "bok (st_backend (is_store s))"
  obtains b where "sync_updateStore bk r s = (Ok (), s\<lparr>is_store := (is_store s)\<lparr>st_backend := b\<rparr>\<rparr>)" "bok b"
    "view b = apply_change r (view (st_backend (is_store s)))"
proof (cases "slice_len (kr_Value r) < 1")
  case True
  obtain b where "on_store (on_backend (bk_delete bk (slice_bytes (kr_Key r)))) s
      = (Ok (), s\<lparr>is_store := (is_store s)\<lparr>st_backend := b\<rparr>\<rparr>)" "bok b"
    "view b = (view (st_backend (is_store s)))(slice_bytes (kr_Key r) := None)"
    using delete_raw [OF assms] .
  with True show thesis using that [of b]
    by (simp add: sync_updateStore_def wrapR_def apply_change_def)
next
  case False
  then obtain v where v: "kr_Value r = Some v" by (cases "kr_Value r") auto
  obtain b where "on_store (on_backend (bk_set bk (slice_bytes (kr_Key r)) (Some v) 0)) s
      = (Ok (), s\<lparr>is_store := (is_store s)\<lparr>st_backend := b\<rparr>\<rparr>)" "bok b"
    "view b = (view (st_backend (is_store s)))(slice_bytes (kr_Key r) := Some v)"
    using set_raw [OF assms] .
  with False v show thesis using that [of b]
    by (simp add: sync_updateStore_def wrapR_def apply_change_def)
qed

definition sync_view :: "('b \<Rightarrow> bytes \<Rightarrow> slice) \<Rightarrow> 'b syncer \<Rightarrow> bytes \<Rightarrow> slice" where
  "sync_view view s = view (st_backend (is_store (sy_store s)))"

lemma sync_record_view:
  assumes "backend bk view bok" "\<not> bk_persistent bk" "bok (st_backend (is_store (sy_store s)))"
    and "is_indexes (sy_store s) = [] \<or> sy_syncing s"
  obtains b where "sync_record bk r s = (Ok (), s\<lparr>sy_syncedCount := sy_syncedCount s + 1,
      sy_store := (sy_store s)\<lparr>is_store := (is_store (sy_store s))\<lparr>st_backend := b\<rparr>\<rparr>\<rparr>)" "bok b"
    "view b = apply_change r (sync_view view s)"
proof -
  obtain b where b: "sync_updateStore bk r (sy_store s)
      = (Ok (), (sy_store s)\<lparr>is_store := (is_store (sy_store s))\<lparr>st_backend := b\<rparr>\<rparr>)" "bok b"
    "view b = apply_change r (view (st_backend (is_store (sy_store s))))"
    using updateStore_view [OF assms(1,3)] .
  show thesis
    by (rule that [of b]) (use assms(2,4) b in
        \<open>auto simp: sync_record_def on_sync_store_def bindR_def retR_def sync_view_def Let_def\<close>)
qed

lemma sync_records:
  assumes "backend bk view bok" "\<not> bk_persistent bk" "bok (st_backend (is_store (sy_store s)))"
    and "is_indexes (sy_store s) = [] \<or> sy_syncing s"
  obtains b where "sync_loop bk (map (\<lambda>r. SyncEvent (ERecord r)) rs @ ins) s =
      sync_loop bk ins (s\<lparr>sy_syncedCount := sy_syncedCount s + length rs,
        sy_store := (sy_store s)\<lparr>is_store := (is_store (sy_store s))\<lparr>st_backend := b\<rparr>\<rparr>\<rparr>)" "bok b"
    "view b = apply_changes rs (sync_view view s)"
proof -
  have "\<exists>b. sync_loop bk (map (\<lambda>r. SyncEvent (ERecord r)) rs @ ins) s =
      sync_loop bk ins (s\<lparr>sy_syncedCount := sy_syncedCount s + length rs,
        sy_store := (sy_store s)\<lparr>is_store := (is_store (sy_store s))\<lparr>st_backend := b\<rparr>\<rparr>\<rparr>) \<and> bok b \<and>
      view b = apply_changes rs (sync_view view s)"
    using assms(3,4)
  proof (induction rs arbitrary: s)
    case Nil
    have "s\<lparr>sy_syncedCount := sy_syncedCount s + length [],
        sy_store := (sy_store s)\<lparr>is_store := (is_store (sy_store s))\<lparr>st_backend := st_backend (is_store (sy_store s))\<rparr>\<rparr>\<rparr> = s"
      by simp
    with Nil show ?case by (intro exI [of _ "st_backend (is_store (sy_store s))"]) (simp add: sync_view_def)
  next
    case (Cons r rs)
    obtain b where b: "sync_record bk r s = (Ok (), s\<lparr>sy_syncedCount := sy_syncedCount s + 1,
      sy_store := (sy_store s)\<lparr>is_store := (is_store (sy_store s))\<lparr>st_backend := b\<rparr>\<rparr>\<rparr>)" "bok b"
      "view b = apply_change r (sync_view view s)"
      using sync_record_view [OF assms(1,2) Cons.prems] .
    let ?s = "s\<lparr>sy_syncedCount := sy_syncedCount s + 1,
      sy_store := (sy_store s)\<lparr>is_store := (is_store (sy_store s))\<lparr>st_backend := b\<rparr>\<rparr>\<rparr>"
    have "\<exists>b'. sync_loop bk (map (\<lambda>r. SyncEvent (ERecord r)) rs @ ins) ?s =
      sync_loop bk ins (?s\<lparr>sy_syncedCount := sy_syncedCount ?s + length rs,
        sy_store := (sy_store ?s)\<lparr>is_store := (is_store (sy_store ?s))\<lparr>st_backend := b'\<rparr>\<rparr>\<rparr>) \<and> bok b' \<and>
      view b' = apply_changes rs (sync_view view ?s)"
      by (rule Cons.IH) (use b(2) Cons.prems(2) in auto)
    then show ?case
      using b(1) by (simp add: bindR_def sync_event_def sync_view_def b(3))
  qed
  then show thesis using that by blast
qed

text \<open>The signal on \<open>synced\<close>.\<close>

definition once_inv :: "'b syncer \<Rightarrow> bool" where
  "once_inv s \<longleftrightarrow> sy_synced s = (if sy_syncing s then 0 else 1) \<and> sy_endOnce s = (\<not> sy_syncing s)"

lemma sync_event_frame:
  assumes "sync_event bk e s = (r, s')" "\<And>tps. e \<noteq> EPartitionEnd tps"
  shows "sy_synced s' = sy_synced s \<and> sy_syncing s' = sy_syncing s \<and> sy_endOnce s' = sy_endOnce s"
proof (cases e)
  case (ERecord rec)
  have f: "sy_synced t' = sy_synced t \<and> sy_syncing t' = sy_syncing t \<and> sy_endOnce t' = sy_endOnce t"
    if "on_sync_store f t = (r, t')" for f r t and t' :: "'a syncer"
    using that by (auto simp: on_sync_store_def split: prod.splits res.splits)
  have g: "sy_synced t' = sy_synced t \<and> sy_syncing t' = sy_syncing t \<and> sy_endOnce t' = sy_endOnce t"
    if "sync_commit bk off t = (r, t')" for off r t and t' :: "'a syncer"
    using that by (auto simp: sync_commit_def split: prod.splits res.splits)
  show ?thesis
    using assms(1) unfolding ERecord sync_event_def sync_record_def
    by (auto simp: Let_def bindR_def retR_def split: if_splits prod.splits res.splits dest!: f g)
qed (use assms in \<open>auto simp: sync_event_def\<close>)

lemma sync_loop_once:
  assumes "once_inv s" "sync_loop bk ins s = (r, s')"
    and "set ins \<inter> {SyncCtxDone, SyncStop} = {}"
  shows "once_inv s' \<and> (r = Ok () \<longrightarrow> sy_syncing s' = (sy_syncing s \<and> (\<forall>tps. SyncEvent (EPartitionEnd tps) \<notin> set ins)))"
  using assms
proof (induction ins arbitrary: s)
  case (Cons i ins)
  then obtain e where i: "i = SyncEvent e" by (cases i) auto
  note IH = Cons.IH and P = Cons.prems [unfolded i]
  obtain r1 s1 where s1: "sync_event bk e s = (r1, s1)" by force
  have o: "once_inv s1 \<and> sy_syncing s1 = (sy_syncing s \<and> (\<forall>tps. e \<noteq> EPartitionEnd tps))"
  proof (cases "\<exists>tps. e = EPartitionEnd tps")
    case True
    with s1 P(1) show ?thesis by (auto simp: sync_event_def once_inv_def split: if_splits)
  next
    case False
    with sync_event_frame [OF s1] P(1) show ?thesis by (simp add: once_inv_def)
  qed
  show ?case
  proof (cases r1)
    case (Ok u)
    then have "sync_loop bk ins s1 = (r, s')" using P(2) s1 by (simp add: bindR_def)
    then have "once_inv s' \<and> (r = Ok () \<longrightarrow> sy_syncing s' = (sy_syncing s1 \<and> (\<forall>tps. SyncEvent (EPartitionEnd tps) \<notin> set ins)))"
      using IH [of s1] o P(3) by auto
    with o i show ?thesis by auto
  qed (use P(2) s1 o in \<open>auto simp: bindR_def\<close>)
qed auto

lemma sync_loop_stops:
  "sync_loop bk (ins @ SyncStop # rest) s = sync_loop bk (ins @ [SyncStop]) s"
  "sync_loop bk (ins @ SyncCtxDone # rest) s = sync_loop bk (ins @ [SyncCtxDone]) s"
proof -
  show "sync_loop bk (ins @ SyncStop # rest) s = sync_loop bk (ins @ [SyncStop]) s"
  proof (induction ins arbitrary: s)
    case (Cons i ins)
    then show ?case by (cases i) (simp_all add: bindR_def cong: res.case_cong)
  qed simp
  show "sync_loop bk (ins @ SyncCtxDone # rest) s = sync_loop bk (ins @ [SyncCtxDone]) s"
  proof (induction ins arbitrary: s)
    case (Cons i ins)
    then show ?case by (cases i) (simp_all add: bindR_def cong: res.case_cong)
  qed simp
qed

text \<open>After the restore, a changelog record updates store and indexes together.\<close>

context typed_store
begin

definition changelog_record :: "goval \<Rightarrow> goval option \<Rightarrow> krecord \<Rightarrow> bool" where
  "changelog_record k v r \<longleftrightarrow> kdom k \<and> kr_Key r = Some (code_of kenc k) \<and>
     (case v of None \<Rightarrow> slice_len (kr_Value r) < 1 | Some x \<Rightarrow> vdom x \<and> kr_Value r = Some (code_of venc x))"

lemma on_store_inv:
  assumes s: "store_inv view inv kenc kdom venc vdom (is_store s)" and k: "kdom k"
    and v: "case v of None \<Rightarrow> True | Some x \<Rightarrow> vdom x"
  obtains b where "inv b"
    "(case v of None \<Rightarrow> bk_delete bk (code_of kenc k) | Some x \<Rightarrow> bk_set bk (code_of kenc k) (Some (code_of venc x)) 0)
       (st_backend (is_store s)) = (Ok (), b)"
    "store_inv view inv kenc kdom venc vdom ((is_store s)\<lparr>st_backend := b\<rparr>)"
    "\<And>k'. kdom k' \<Longrightarrow> store_content view ((is_store s)\<lparr>st_backend := b\<rparr>) k'
       = (if k' = k then v else store_content view (is_store s) k')"
proof -
  from s have i: "inv (st_backend (is_store s))" "st_keyEncoder (is_store s) = kenc" "st_valEncoder (is_store s) = venc"
    "coded kenc kdom venc vdom (view (st_backend (is_store s)))" by (simp_all add: store_inv_def)
  show thesis
  proof (cases v)
    case None
    obtain b where "bk_delete bk (code_of kenc k) (st_backend (is_store s)) = (Ok (), b)" "inv b"
      "view b = (view (st_backend (is_store s)))(code_of kenc k := None)" using deleteE [OF i(1)] by blast
    with None show thesis
      by (intro that [of b]) (simp_all add: store_inv_def store_content_def i coded_delete [OF i(4)] content_delete k)
  next
    case (Some x)
    with v have x: "vdom x" by simp
    obtain b where "bk_set bk (code_of kenc k) (Some (code_of venc x)) 0 (st_backend (is_store s)) = (Ok (), b)" "inv b"
      "view b = (view (st_backend (is_store s)))(code_of kenc k := Some (code_of venc x))" using setE [OF i(1)] by blast
    with Some x show thesis
      by (intro that [of b]) (simp_all add: store_inv_def store_content_def i coded_set [OF i(4) k x] content_set k)
  qed
qed

lemma sync_indexed_inv:
  assumes s: "ixs_inv view inv kenc kdom venc vdom s" and r: "changelog_record k v r"
  shows "\<exists>s'. sync_updateStoreWithIndex bk r s = (Ok (), s') \<and> ixs_inv view inv kenc kdom venc vdom s' \<and>
    (\<forall>k'. kdom k' \<longrightarrow> store_content view (is_store s') k'
       = (if k' = k then v else store_content view (is_store s) k'))"
proof -
  let ?c = "store_content view (is_store s)"
  from s have st: "store_inv view inv kenc kdom venc vdom (is_store s)"
    and ix: "list_all (index_inv view inv kenc kdom ?c) (is_indexes s)"
    by (simp_all add: ixs_inv_def)
  from st have i: "st_keyEncoder (is_store s) = kenc" "st_valEncoder (is_store s) = venc"
    by (simp_all add: store_inv_def)
  from r have k: "kdom k" "kr_Key r = Some (code_of kenc k)" by (simp_all add: changelog_record_def)
  obtain b where b: "inv b"
    "(case v of None \<Rightarrow> bk_delete bk (code_of kenc k) | Some x \<Rightarrow> bk_set bk (code_of kenc k) (Some (code_of venc x)) 0)
       (st_backend (is_store s)) = (Ok (), b)"
    "store_inv view inv kenc kdom venc vdom ((is_store s)\<lparr>st_backend := b\<rparr>)"
    "\<And>k'. kdom k' \<Longrightarrow> store_content view ((is_store s)\<lparr>st_backend := b\<rparr>) k' = (if k' = k then v else ?c k')"
    by (rule on_store_inv [OF st k(1), of v]) (use r in \<open>auto simp: changelog_record_def split: option.splits\<close>)
  let ?st = "(is_store s)\<lparr>st_backend := b\<rparr>"
  show ?thesis
  proof (cases v)
    case (Some x)
    with r have x: "vdom x" "kr_Value r = Some (code_of venc x)" "\<not> slice_len (kr_Value r) < 1"
      using valc.code_neq_Nil by (auto simp: changelog_record_def less_Suc_eq)
    obtain ixs where ixs: "on_indexes (wrapR ''index update failed'' (updateIndex bk k (or_nil (?c k)) x)) s
        = (Ok (), s\<lparr>is_indexes := ixs\<rparr>)" "list_all (index_inv view inv kenc kdom (store_content view ?st)) ixs"
      using on_indexes_inv [OF ix, of "updateIndex bk k (or_nil (?c k)) x" "store_content view ?st"]
        update_inv [of ?c _ k "store_content view ?st" x] k(1) content_not_nil [OF st k(1)] b(4) Some by auto
    have "sync_updateStoreWithIndex bk r s = (Ok (), s\<lparr>is_indexes := ixs, is_store := ?st\<rparr>)"
      using x k ixs(1) b(2) Some
      by (simp add: sync_updateStoreWithIndex_def i keyc.decode_code valc.decode_code bindR_def wrapR_def pureR_def
          UpdateIndexes_def get_content [OF st k(1)] on_store_def on_backend_def)
    with ixs(2) b(3,4) show ?thesis by (auto simp: ixs_inv_def)
  next
    case None
    with r have v: "slice_len (kr_Value r) < 1" by (simp add: changelog_record_def)
    show ?thesis
    proof (cases "?c k")
      case none: None
      have "list_all (index_inv view inv kenc kdom (store_content view ?st)) (is_indexes s)"
        using ix b(4) none None index_inv_cong [of kdom ?c "store_content view ?st" view inv kenc]
        by (auto simp: list_all_iff)
      moreover have "sync_updateStoreWithIndex bk r s = (Ok (), s\<lparr>is_store := ?st\<rparr>)"
        using v k b(2) None none
        by (simp add: sync_updateStoreWithIndex_def i keyc.decode_code bindR_def wrapR_def pureR_def retR_def
            DeleteIndexes_def get_content [OF st k(1)] or_nil_def on_store_def on_backend_def)
      ultimately show ?thesis using b(3,4) by (auto simp: ixs_inv_def)
    next
      case (Some w)
      obtain ixs where ixs: "on_indexes (wrapR ''indexed value delete error'' (idx_Delete bk k w)) s
          = (Ok (), s\<lparr>is_indexes := ixs\<rparr>)" "list_all (index_inv view inv kenc kdom (store_content view ?st)) ixs"
        using on_indexes_inv [OF ix, of "idx_Delete bk k w" "store_content view ?st"]
          delete_inv [of ?c _ k w "store_content view ?st"] k(1) b(4) Some None by auto
      have "w \<noteq> GNil" using content_not_nil [OF st k(1)] Some by blast
      then have "sync_updateStoreWithIndex bk r s = (Ok (), s\<lparr>is_indexes := ixs, is_store := ?st\<rparr>)"
        using v k ixs(1) b(2) None Some
        by (simp add: sync_updateStoreWithIndex_def i keyc.decode_code bindR_def wrapR_def pureR_def
            DeleteIndexes_def get_content [OF st k(1)] or_nil_def on_store_def on_backend_def)
      with ixs(2) b(3,4) show ?thesis by (auto simp: ixs_inv_def)
    qed
  qed
qed

end

section \<open>Properties\<close>

definition sample_syncer :: "memory indexed_store \<Rightarrow> memory syncer" where
  "sample_syncer st = \<lparr>sy_tp = \<lparr>tp_Topic = ''s-changelog'', tp_Partition = 0\<rparr>, sy_offsetStore = sample_store,
     sy_store = st, sy_syncing = True, sy_endOnce = False, sy_syncedCount = 0, sy_synced = 0, sy_errors = [],
     sy_closed = False\<rparr>"

lemma sample_syncer_view: "sync_view mem_view (sample_syncer \<lparr>is_store = sample_store, is_indexes = ixs\<rparr>) = (\<lambda>_. None)"
  by (simp add: fun_eq_iff sync_view_def sample_syncer_def sample_store_def mem_view_new)

text \<open>C2: Recovery. Take a loggable store that went through any sequence of successful changes, lose it, and run a
  syncer over a store in the state the changelog started from: when the syncer has read the changelog up to the
  end of the partition it holds, byte for byte, what the lost store showed, it has signalled completion once more, and
  nothing was logged as an error. The indexes of the new store, if it has any, are not touched on the way.\<close>
theorem changelog_recovery:
  assumes "cached_store ch view bok over kenc kdom venc vdom" "producer_logs pr logged"
    and "\<forall>op \<in> set ops. op_dom kdom vdom op" "ls_inv bok kenc venc over logged w0 s"
    and "forR (ls_run pr ch now) ops s = (Ok (), s')"
    and "backend bk view' bok'" "\<not> bk_persistent bk" "bok' (st_backend (is_store (sy_store y)))"
    and "sync_view view' y = w0" "is_indexes (sy_store y) = [] \<or> sy_syncing y" "\<not> sy_endOnce y"
  shows "\<exists>y'. sync_loop bk (map (\<lambda>r. SyncEvent (ERecord r)) (ls_log logged s') @ [SyncEvent (EPartitionEnd tps)]) y
      = (Ok (), y') \<and> sync_view view' y' = ss_view over (ls_StateStore s') \<and>
    sy_synced y' = sy_synced y + 1 \<and> \<not> sy_syncing y' \<and> sy_errors y' = sy_errors y \<and>
    is_indexes (sy_store y') = is_indexes (sy_store y)"
proof -
  have w: "ss_view over (ls_StateStore s') = apply_changes (ls_log logged s') w0"
    using cached_store.ls_run_inv [OF assms(1-5)] by (simp add: ls_inv_def)
  obtain b where b: "sync_loop bk (map (\<lambda>r. SyncEvent (ERecord r)) (ls_log logged s') @ [SyncEvent (EPartitionEnd tps)]) y =
      sync_loop bk [SyncEvent (EPartitionEnd tps)] (y\<lparr>sy_syncedCount := sy_syncedCount y + length (ls_log logged s'),
        sy_store := (sy_store y)\<lparr>is_store := (is_store (sy_store y))\<lparr>st_backend := b\<rparr>\<rparr>\<rparr>)" "bok' b"
    "view' b = apply_changes (ls_log logged s') (sync_view view' y)"
    using sync_records [OF assms(6-8,10)] .
  show ?thesis
    using assms(9,11) b(3) w
    by (simp add: b(1) sync_event_def bindR_def sync_view_def)
qed

theorem changelog_recovery_witness:
  "\<exists>s' y'. forR (ls_run (list_producer True) (pebble_cache ref_engine) 0)
       [OpSet (GStr ''a'') (GStr ''b'') 0] sample_loggable = (Ok (), s') \<and>
     sync_loop memory_backend (map (\<lambda>r. SyncEvent (ERecord r)) (ls_log id s') @ [SyncEvent (EPartitionEnd [])])
       (sample_syncer \<lparr>is_store = sample_store, is_indexes = []\<rparr>) = (Ok (), y') \<and>
     sync_view mem_view y' = ss_view ref_over (ls_StateStore s') \<and> length (ls_log id s') = 1"
proof -
  let ?ops = "[OpSet (GStr ''a'') (GStr ''b'') 0]"
  let ?run = "forR (ls_run (list_producer True) (pebble_cache ref_engine) 0) ?ops sample_loggable"
  let ?y = "sample_syncer \<lparr>is_store = sample_store, is_indexes = []\<rparr>"
  have d: "\<forall>op \<in> set ?ops. op_dom is_nonempty_str is_nonempty_str op"
    by (simp add: op_dom_def is_nonempty_str_def)
  have r: "fst ?run = Ok () \<and> length (ls_log id (snd ?run)) = 1"
    by (simp add: ls_run_def ls_Set_def bindR_def wrapR_def pureR_def ls_Log_def cl_Log_def
        sample_loggable_def NewChangeLogger_def sample_state_def StringEncoder_def string_Encode_def
        list_producer_def on_cache_backend_def on_ss_cache_def on_cache_def pebble_cache_def pc_Set_def
        ref_engine_def ls_log_def)
  then have run: "?run = (Ok (), snd ?run)" by (simp add: prod_eq_iff)
  have y: "\<not> bk_persistent memory_backend" "mem_inv (st_backend (is_store (sy_store ?y)))"
    "is_indexes (sy_store ?y) = [] \<or> sy_syncing ?y" "\<not> sy_endOnce ?y"
    by (simp_all add: memory_backend_def sample_syncer_def sample_store_def)
  from changelog_recovery [OF pebss.cached_store_axioms list_producer_logs d sample_loggable_inv run
      memb.backend_axioms y(1,2) sample_syncer_view y(3,4)] r run
  show ?thesis by blast
qed

text \<open>The completion signal. However many partition-end events, records and consumer errors arrive and in whatever
  order, a syncer sends on \<open>synced\<close> at most once, and, unless a panic ends it, exactly once if a partition end
  was among them; what arrives after a stop signal is not processed.\<close>
theorem sync_signals_once:
  assumes "sync_loop bk ins s = (r, s')" "sy_synced s = 0" "sy_syncing s" "\<not> sy_endOnce s"
    and "set ins \<inter> {SyncCtxDone, SyncStop} = {}"
  shows "sy_synced s' \<le> 1 \<and>
    (r = Ok () \<longrightarrow> (sy_synced s' = 1 \<longleftrightarrow> (\<exists>tps. SyncEvent (EPartitionEnd tps) \<in> set ins))) \<and>
    sync_loop bk (ins @ SyncStop # rest) s = sync_loop bk (ins @ [SyncStop]) s"
proof -
  have "once_inv s" using assms(2-4) by (simp add: once_inv_def)
  from sync_loop_once [OF this assms(1,5)] assms(3)
  have "sy_synced s' \<le> 1 \<and> (r = Ok () \<longrightarrow> (sy_synced s' = 1 \<longleftrightarrow> (\<exists>tps. SyncEvent (EPartitionEnd tps) \<in> set ins)))"
    by (simp add: once_inv_def)
  with sync_loop_stops(1) show ?thesis by blast
qed

theorem sync_signals_once_witness:
  "\<exists>s'. sync_loop memory_backend [SyncEvent (EPartitionEnd []), SyncEvent (EPartitionEnd [])]
      (sample_syncer \<lparr>is_store = sample_store, is_indexes = []\<rparr>) = (Ok (), s') \<and> sy_synced s' = 1"
proof -
  let ?s = "sample_syncer \<lparr>is_store = sample_store, is_indexes = []\<rparr>"
  let ?ins = "[SyncEvent (EPartitionEnd []), SyncEvent (EPartitionEnd [])]"
  obtain r s' where r: "sync_loop memory_backend ?ins ?s = (r, s')" by force
  moreover from r have "r = Ok ()" by (auto simp: sync_event_def bindR_def sample_syncer_def)
  moreover have "sy_synced ?s = 0" "sy_syncing ?s" "\<not> sy_endOnce ?s" by (simp_all add: sample_syncer_def)
  ultimately show ?thesis using sync_signals_once [OF r, of "[]"] by auto
qed

text \<open>Following the changelog with indexes. After the restore is over, applying a changelog record that a store
  wrote (a key with a value, or a tombstone) changes store and indexes together: indexes that were consistent
  stay so. While the restore is running the same record changes the records only and leaves every index as it is, so a
  store with indexes is inconsistent after a restore until its indexes are rebuilt.\<close>
theorem sync_keeps_indexes:
  assumes "typed_store bk view bok kenc kdom venc vdom"
    and "ixs_inv view bok kenc kdom venc vdom (sy_store s)" "typed_store.changelog_record kenc kdom venc vdom k v r"
    and "is_indexes (sy_store s) \<noteq> []" "\<not> bk_persistent bk"
  shows "(\<not> sy_syncing s \<longrightarrow> (\<exists>s'. sync_event bk (ERecord r) s = (Ok (), s') \<and>
      ixs_inv view bok kenc kdom venc vdom (sy_store s') \<and>
      (\<forall>k'. kdom k' \<longrightarrow> store_content view (is_store (sy_store s')) k'
         = (if k' = k then v else store_content view (is_store (sy_store s)) k')))) \<and>
    (sy_syncing s \<longrightarrow> (\<exists>s'. sync_event bk (ERecord r) s = (Ok (), s') \<and>
      is_indexes (sy_store s') = is_indexes (sy_store s) \<and>
      sync_view view s' = apply_change r (sync_view view s)))"
proof (intro conjI impI)
  assume "\<not> sy_syncing s"
  moreover obtain st where "sync_updateStoreWithIndex bk r (sy_store s) = (Ok (), st)"
    "ixs_inv view bok kenc kdom venc vdom st"
    "\<forall>k'. kdom k' \<longrightarrow> store_content view (is_store st) k' = (if k' = k then v else store_content view (is_store (sy_store s)) k')"
    using typed_store.sync_indexed_inv [OF assms(1-3)] by blast
  ultimately show "\<exists>s'. sync_event bk (ERecord r) s = (Ok (), s') \<and>
      ixs_inv view bok kenc kdom venc vdom (sy_store s') \<and>
      (\<forall>k'. kdom k' \<longrightarrow> store_content view (is_store (sy_store s')) k'
         = (if k' = k then v else store_content view (is_store (sy_store s)) k'))"
    using assms(4,5) by (auto simp: sync_event_def sync_record_def Let_def on_sync_store_def bindR_def retR_def)
next
  assume sy: "sy_syncing s"
  note B = typed_store.axioms(1) [OF assms(1)]
  have "bok (st_backend (is_store (sy_store s)))" using assms(2) by (simp add: ixs_inv_def store_inv_def)
  from sync_record_view [OF B assms(5) this, of r] sy
  obtain b where "sync_record bk r s = (Ok (), s\<lparr>sy_syncedCount := sy_syncedCount s + 1,
      sy_store := (sy_store s)\<lparr>is_store := (is_store (sy_store s))\<lparr>st_backend := b\<rparr>\<rparr>\<rparr>)"
    "view b = apply_change r (sync_view view s)" by blast
  then show "\<exists>s'. sync_event bk (ERecord r) s = (Ok (), s') \<and>
      is_indexes (sy_store s') = is_indexes (sy_store s) \<and> sync_view view s' = apply_change r (sync_view view s)"
    by (simp add: sync_event_def sync_view_def)
qed

theorem sync_keeps_indexes_witness:
  "\<exists>s'. sync_event memory_backend (ERecord \<lparr>kr_Key = Some (bytes_of ''a''), kr_Value = Some (bytes_of ''4''),
       kr_Topic = ''t'', kr_Partition = 0, kr_Offset = 0, kr_Timestamp = 0, kr_Headers = []\<rparr>)
       ((sample_syncer sample_indexed)\<lparr>sy_syncing := False\<rparr>) = (Ok (), s') \<and>
     ixs_inv mem_view mem_inv StringEncoder is_nonempty_str IntEncoder is_int (sy_store s')"
proof -
  let ?r = "\<lparr>kr_Key = Some (bytes_of ''a''), kr_Value = Some (bytes_of ''4''),
       kr_Topic = ''t'', kr_Partition = 0, kr_Offset = 0, kr_Timestamp = 0, kr_Headers = []\<rparr> :: krecord"
  let ?s = "(sample_syncer sample_indexed)\<lparr>sy_syncing := False\<rparr>"
  have i: "ixs_inv mem_view mem_inv StringEncoder is_nonempty_str IntEncoder is_int (sy_store ?s)"
    by (simp add: sample_syncer_def sample_indexed_inv)
  have n: "nat_digits 4 = ''4''" by code_simp
  have "code_of IntEncoder (GInt 4) = bytes_of ''4''"
    by (simp add: code_of_def IntEncoder_def int_Encode_def sprint_int_def show_int_def n)
  then have r: "typed_store.changelog_record StringEncoder is_nonempty_str IntEncoder is_int (GStr ''a'') (Some (GInt 4)) ?r"
    by (simp add: mems.changelog_record_def is_nonempty_str_def is_int_def string_code)
  have x: "is_indexes (sy_store ?s) \<noteq> []" "\<not> bk_persistent memory_backend" "\<not> sy_syncing ?s"
    by (simp_all add: sample_syncer_def sample_indexed_def memory_backend_def)
  show ?thesis
    using sync_keeps_indexes [OF mems.typed_store_axioms i r x(1,2)] x(3) by blast
qed

lemma new_changelog_compacted:
  "NewChangelogBuilder name opts = Ok b \<Longrightarrow> \<exists>c. ct_Configs (cb_topic b) = Some c \<and> c ''cleanup.policy'' = Some ''compact''"
  by (auto simp: NewChangelogBuilder_def Let_def split: option.splits)

lemma ssb_ValEncoder_is_key_encoder: "ssb_ValEncoder d = ssb_KeyEncoder d"
  by (simp add: ssb_ValEncoder_def ssb_KeyEncoder_def)

end
