(* ===== verification/Sub_Topology.thy ===== *)
theory Sub_Topology
  imports Node Changelog "HOL-Library.AList"
begin

text \<open>
  \<open>src/streams/ksub_topology_builder.go\<close>, \<open>ksub_topology.go\<close>, and the builder side of \<open>ksource.go\<close> and \<open>ksink_builder.go\<close>.
  Node builders and sub topology builders are objects that several handles point to and whose ids are changed later, so they live in
  a heap, a list of objects for each sort, with positions as addresses. A built sub topology is a list of nodes whose edges are
  positions in it.
\<close>

section \<open>Node builders\<close>

record ksink_builder =
  kb_Key :: "encoder option"
  kb_Value :: "encoder option"
  kb_formatter :: "topic_formatter option"
  kb_topic :: string
  kb_numPartitions :: int32
  kb_autoCreate :: bool
  kb_autoOpts :: auto_topic_opts
  kb_partitioner :: "(rec_ctx \<Rightarrow> goval \<Rightarrow> goval \<Rightarrow> int32 \<Rightarrow> int32 res) option"
  kb_headerExtractor :: "rec_ctx \<Rightarrow> goval \<Rightarrow> goval \<Rightarrow> record_header list"
  kb_tombstoneFiler :: "rec_ctx \<Rightarrow> goval \<Rightarrow> goval \<Rightarrow> bool"

datatype 'w builder_kind = BProc "'w processor" | BSink ksink_builder

record 'w node_builder =
  nb_id :: node_id
  nb_name :: string
  nb_kind :: "'w builder_kind"

definition nb_source :: "'w node_builder \<Rightarrow> ksource option" where
  "nb_source n = (case nb_kind n of BProc (PSource s) \<Rightarrow> Some s | _ \<Rightarrow> None)"

definition nb_sink :: "'w node_builder \<Rightarrow> ksink_builder option" where
  "nb_sink n = (case nb_kind n of BSink s \<Rightarrow> Some s | _ \<Rightarrow> None)"

definition nb_WrapErr :: "'w node_builder \<Rightarrow> gerror \<Rightarrow> gerror" where
  "nb_WrapErr n err = EWrap (''node error at ['' @ ni_subTopologyID (nb_id n) @ ''.'' @ node_id_String (nb_id n) @ ''(''
     @ nb_name n @ '')]'') err"

section \<open>Sub topology builders\<close>

record sub_id =
  sid_id :: int
  sid_name :: string

definition NewSubTopologyId :: "int \<Rightarrow> string \<Rightarrow> sub_id" where
  "NewSubTopologyId i name = \<lparr>sid_id = i, sid_name = name\<rparr>"

definition sub_id_String :: "sub_id \<Rightarrow> string" where
  "sub_id_String i = sid_name i @ ''|'' @ show_int (sid_id i)"

datatype sub_kind = KindStream | KindTable | KindGlobalTable

record 'b sub_builder =
  sb_id :: sub_id
  sb_kind :: sub_kind
  sb_nodeBuilders :: "nat list"
  sb_edges :: "(nat \<times> nat) list"
  sb_stores :: "(string \<times> 'b state_store_builder) list"

record ('w, 'b) heap =
  hp_nodes :: "'w node_builder list"
  hp_subs :: "'b sub_builder list"

definition upd_node :: "nat \<Rightarrow> ('w node_builder \<Rightarrow> 'w node_builder) \<Rightarrow> ('w, 'b) heap \<Rightarrow> ('w, 'b) heap" where
  "upd_node a f h = h\<lparr>hp_nodes := (hp_nodes h)[a := f (hp_nodes h ! a)]\<rparr>"

definition upd_sub :: "nat \<Rightarrow> ('b sub_builder \<Rightarrow> 'b sub_builder) \<Rightarrow> ('w, 'b) heap \<Rightarrow> ('w, 'b) heap" where
  "upd_sub s f h = h\<lparr>hp_subs := (hp_subs h)[s := f (hp_subs h ! s)]\<rparr>"

text \<open>\<open>new\<close>: the object goes to the end of the heap, its address is returned.\<close>

definition new_node :: "'w node_builder \<Rightarrow> ('w, 'b) heap \<Rightarrow> nat \<times> ('w, 'b) heap" where
  "new_node n h = (length (hp_nodes h), h\<lparr>hp_nodes := hp_nodes h @ [n]\<rparr>)"

definition node_Id :: "nat \<Rightarrow> ('w, 'b) heap \<Rightarrow> node_id" where
  "node_Id a h = nb_id (hp_nodes h ! a)"

definition sub_Nodes :: "nat \<Rightarrow> ('w, 'b) heap \<Rightarrow> nat list" where
  "sub_Nodes s h = sb_nodeBuilders (hp_subs h ! s)"

definition sub_Edges :: "nat \<Rightarrow> ('w, 'b) heap \<Rightarrow> (nat \<times> nat) list" where
  "sub_Edges s h = sb_edges (hp_subs h ! s)"

definition sub_Id :: "nat \<Rightarrow> ('w, 'b) heap \<Rightarrow> sub_id" where
  "sub_Id s h = sb_id (hp_subs h ! s)"

definition sub_SetId :: "nat \<Rightarrow> sub_id \<Rightarrow> ('w, 'b) heap \<Rightarrow> ('w, 'b) heap" where
  "sub_SetId s i = upd_sub s (\<lambda>b. b\<lparr>sb_id := i\<rparr>)"

definition sub_AddNode :: "nat \<Rightarrow> nat \<Rightarrow> ('w, 'b) heap \<Rightarrow> ('w, 'b) heap" where
  "sub_AddNode s node h =
     upd_sub s (\<lambda>b. b\<lparr>sb_nodeBuilders := sb_nodeBuilders b @ [node]\<rparr>)
       (upd_node node (\<lambda>n. n\<lparr>nb_id := NewNodeId (int (length (sub_Nodes s h))) ''test.path'' (sid_name (sub_Id s h))\<rparr>) h)"

definition sub_AddEdge :: "nat \<Rightarrow> nat \<Rightarrow> nat \<Rightarrow> ('w, 'b) heap \<Rightarrow> ('w, 'b) heap" where
  "sub_AddEdge s parent node = upd_sub s (\<lambda>b. b\<lparr>sb_edges := sb_edges b @ [(parent, node)]\<rparr>)"

definition sub_AddNodeWithEdge :: "nat \<Rightarrow> nat \<Rightarrow> nat \<Rightarrow> ('w, 'b) heap \<Rightarrow> ('w, 'b) heap" where
  "sub_AddNodeWithEdge s node edge h = sub_AddEdge s node edge (sub_AddNode s edge h)"

definition sub_AddSource :: "nat \<Rightarrow> nat \<Rightarrow> ('w, 'b) heap \<Rightarrow> ('w, 'b) heap" where
  "sub_AddSource s source = sub_AddNode s source"

text \<open>
  \<open>RemoveNode\<close>. The loop ranges over the slice as it was, while \<open>append(b[:i], b[i+1:]...)\<close> moves the elements of the shared array
  and shortens the builder's slice; \<open>len\<close> is that length. The ids of the other nodes are left as they are.
\<close>

fun remove_loop :: "(nat \<Rightarrow> bool) \<Rightarrow> nat \<Rightarrow> nat \<Rightarrow> nat list \<Rightarrow> nat \<Rightarrow> (nat list \<times> nat) res" where
  "remove_loop hit 0 i arr len = Ok (arr, len)"
| "remove_loop hit (Suc m) i arr len =
     (if hit (arr ! i) then
        (if len < i + 1 then Panic ''slice bounds out of range''
         else remove_loop hit m (i + 1) (take i arr @ drop (i + 1) (take len arr) @ drop (len - 1) arr) (len - 1))
      else remove_loop hit m (i + 1) arr len)"

definition sub_RemoveNode :: "nat \<Rightarrow> nat \<Rightarrow> ('w, 'b) heap \<Rightarrow> unit res \<times> ('w, 'b) heap" where
  "sub_RemoveNode s node h =
     (let xs = sub_Nodes s h
      in case remove_loop (\<lambda>nd. node_Id nd h = node_Id node h) (length xs) 0 xs (length xs) of
           Ok (arr, len) \<Rightarrow> (Ok (), upd_sub s (\<lambda>b. b\<lparr>sb_nodeBuilders := take len arr,
             sb_edges := filter (\<lambda>(p, n). \<not> (node_Id p h = node_Id node h \<or> node_Id n h = node_Id node h)) (sb_edges b)\<rparr>) h)
         | Err e \<Rightarrow> (Err e, h)
         | Panic p \<Rightarrow> (Panic p, h))"

definition sub_RemoveAll :: "nat \<Rightarrow> ('w, 'b) heap \<Rightarrow> ('w, 'b) heap" where
  "sub_RemoveAll s = upd_sub s (\<lambda>b. b\<lparr>sb_nodeBuilders := [], sb_edges := []\<rparr>)"

definition sub_Parent :: "nat \<Rightarrow> nat \<Rightarrow> ('w, 'b) heap \<Rightarrow> nat option" where
  "sub_Parent s node h = map_option fst (find (\<lambda>(p, n). node_Id n h = node_Id node h) (sub_Edges s h))"

text \<open>\<open>NodeSource\<close> climbs from parent to parent; the number is the depth of the stack.\<close>

fun sub_NodeSource :: "nat \<Rightarrow> nat \<Rightarrow> nat \<Rightarrow> ('w, 'b) heap \<Rightarrow> nat option res" where
  "sub_NodeSource 0 s node h = Panic ''stack overflow''"
| "sub_NodeSource (Suc depth) s node h =
     (if nb_source (hp_nodes h ! node) \<noteq> None then Ok (Some node)
      else (case sub_Parent s node h of
          None \<Rightarrow> Ok None
        | Some parent \<Rightarrow>
            if nb_source (hp_nodes h ! parent) \<noteq> None then Ok (Some parent) else sub_NodeSource depth s parent h))"

definition sub_Sources :: "nat \<Rightarrow> ('w, 'b) heap \<Rightarrow> nat list" where
  "sub_Sources s h = filter (\<lambda>a. nb_source (hp_nodes h ! a) \<noteq> None) (sub_Nodes s h)"

definition sub_AddStore :: "nat \<Rightarrow> 'b state_store_builder \<Rightarrow> ('w, 'b) heap \<Rightarrow> ('w, 'b) heap" where
  "sub_AddStore s builder = upd_sub s (\<lambda>b. b\<lparr>sb_stores := AList.update (ssb_Name builder) builder (sb_stores b)\<rparr>)"

definition sub_MergeSubTopology :: "nat \<Rightarrow> nat \<Rightarrow> ('w, 'b) heap \<Rightarrow> ('w, 'b) heap" where
  "sub_MergeSubTopology s subTp h =
     (let h1 = fold (sub_AddNode s) (sub_Nodes subTp h) h;
          h2 = fold (\<lambda>(parent, node). sub_AddEdge s parent node) (sub_Edges subTp h1) h1;
          h3 = fold (\<lambda>(_, stor). sub_AddStore s stor) (sb_stores (hp_subs h2 ! subTp)) h2
      in sub_RemoveAll subTp h3)"

section \<open>Setting up\<close>

text \<open>
  What a setup reaches: the application id, the admin client and the store registry, whose state is \<open>'a\<close>. \<open>FetchInfo\<close> gives for a
  topic its error, if any, and its description.
\<close>

record ('a, 'b) setup_env =
  se_ApplicationId :: string
  se_FetchInfo :: "string list \<Rightarrow> 'a \<Rightarrow> (string \<times> gerror option \<times> ktopic) list res \<times> 'a"
  se_StoreConfigs :: "ktopic list \<Rightarrow> 'a \<Rightarrow> unit res \<times> 'a"
  se_ApplyConfigs :: "'a \<Rightarrow> unit res \<times> 'a"
  se_DeleteTopics :: "string list \<Rightarrow> 'a \<Rightarrow> unit res \<times> 'a"
  se_Create :: "string \<Rightarrow> encoder \<Rightarrow> encoder \<Rightarrow> 'a \<Rightarrow> 'b store res \<times> 'a"

record setup_ctx =
  sx_topicMeta :: "(string \<times> topic_config) list"
  sx_partitionCount :: int32

type_synonym ('w, 'b, 'a) setup_state = "('w, 'b) heap \<times> 'a"

definition set_source :: "nat \<Rightarrow> ksource \<Rightarrow> ('w, 'b) heap \<Rightarrow> ('w, 'b) heap" where
  "set_source a s = upd_node a (\<lambda>n. n\<lparr>nb_kind := BProc (PSource s)\<rparr>)"

definition source_Setup :: "('a, 'b) setup_env \<Rightarrow> setup_ctx \<Rightarrow> nat \<Rightarrow> ksource \<Rightarrow> ('w, 'b, 'a) setup_state
    \<Rightarrow> unit res \<times> ('w, 'b, 'a) setup_state" where
  "source_Setup env ctx a s st = (case st of (h, adm) \<Rightarrow>
     if src_global s then (Ok (), h, adm)
     else if src_autoCreate s then
       (let topic = (case src_formatter s of None \<Rightarrow> src_topic s | Some f \<Rightarrow> f (src_topic s) (se_ApplicationId env) (node_Id a h));
            s' = s\<lparr>src_topic := topic, src_configs_name := topic,
              src_configs := (src_configs s)\<lparr>tc_NumPartitions := sx_partitionCount ctx,
                tc_ReplicationFactor := ao_replicaCount (src_autoOpts s), tc_ConfigEntries := ao_configEntries (src_autoOpts s)\<rparr>\<rparr>;
            h' = set_source a s' h;
            parts = (if sint (sx_partitionCount ctx) < 1 then
                (case ao_partitionAs (src_autoOpts s) of
                   None \<Rightarrow> sx_partitionCount ctx
                 | Some p \<Rightarrow> (case nb_source (hp_nodes h' ! p) of None \<Rightarrow> 0 | Some ps \<Rightarrow> tc_NumPartitions (src_configs ps)))
              else sx_partitionCount ctx)
        in case se_StoreConfigs env [\<lparr>kt_Name = topic, kt_NumPartitions = parts,
               kt_ReplicationFactor = ao_replicaCount (src_autoOpts s), kt_ConfigEntries = ao_configEntries (src_autoOpts s)\<rparr>] adm of
             (Err e, adm') \<Rightarrow> (Err (nb_WrapErr (hp_nodes h' ! a) e), h', adm')
           | (r, adm') \<Rightarrow> (r, h', adm'))
     else
       (let s1 = s\<lparr>src_configs_name := src_topic s\<rparr>
        in case map_of (sx_topicMeta ctx) (src_topic s) of
             None \<Rightarrow> (Err (err_New (''metadata unavailable for topic '' @ src_topic s)), set_source a s1 h, adm)
           | Some meta \<Rightarrow> (Ok (), set_source a (s1\<lparr>src_configs := (src_configs s1)\<lparr>tc_NumPartitions := tc_NumPartitions meta\<rparr>\<rparr>) h, adm)))"

definition sink_Setup :: "('a, 'b) setup_env \<Rightarrow> setup_ctx \<Rightarrow> nat \<Rightarrow> ksink_builder \<Rightarrow> ('w, 'b, 'a) setup_state
    \<Rightarrow> unit res \<times> ('w, 'b, 'a) setup_state" where
  "sink_Setup env ctx a s st = (case st of (h, adm) \<Rightarrow>
     (let topic = (case kb_formatter s of None \<Rightarrow> kb_topic s | Some f \<Rightarrow> f (kb_topic s) (se_ApplicationId env) (node_Id a h));
          h' = upd_node a (\<lambda>n. n\<lparr>nb_kind := BSink (s\<lparr>kb_topic := topic\<rparr>)\<rparr>) h;
          store = (\<lambda>parts. case se_StoreConfigs env [\<lparr>kt_Name = topic, kt_NumPartitions = parts,
               kt_ReplicationFactor = ao_replicaCount (kb_autoOpts s), kt_ConfigEntries = ao_configEntries (kb_autoOpts s)\<rparr>] adm of
             (Err e, adm') \<Rightarrow> (Err (nb_WrapErr (hp_nodes h' ! a) e), h', adm')
           | (r, adm') \<Rightarrow> (r, h', adm'))
      in if \<not> kb_autoCreate s then (Ok (), h', adm)
         else if sint (sx_partitionCount ctx) < 1 \<and> ao_partitionAs (kb_autoOpts s) \<noteq> None then
           (case nb_source (hp_nodes h' ! the (ao_partitionAs (kb_autoOpts s))) of
              None \<Rightarrow> (Panic ''nil pointer dereference'', h', adm)
            | Some ps \<Rightarrow> (case map_of (sx_topicMeta ctx) (src_topic ps) of
                None \<Rightarrow> (Panic ''nil pointer dereference'', h', adm)
              | Some meta \<Rightarrow> store (tc_NumPartitions meta)))
         else store (ao_partitionCount (kb_autoOpts s))))"

text \<open>The other nodes have the default \<open>Setup\<close>, which does nothing.\<close>

definition node_Setup :: "('a, 'b) setup_env \<Rightarrow> setup_ctx \<Rightarrow> nat \<Rightarrow> ('w, 'b, 'a) setup_state
    \<Rightarrow> unit res \<times> ('w, 'b, 'a) setup_state" where
  "node_Setup env ctx a st = (case nb_kind (hp_nodes (fst st) ! a) of
      BProc (PSource s) \<Rightarrow> source_Setup env ctx a s st
    | BSink s \<Rightarrow> sink_Setup env ctx a s st
    | _ \<Rightarrow> (Ok (), st))"

text \<open>
  Co-partitioning. The sources are collected by topic, the last of a topic counting; each must have as many partitions as the
  source it is to be co-partitioned with. The code ranges over a map; here the order is that of first occurrence.
\<close>

definition co_partitioned :: "('w, 'b) heap \<Rightarrow> ksource \<Rightarrow> bool" where
  "co_partitioned h src = (case src_coPartitionedWith src of
      None \<Rightarrow> True
    | Some p \<Rightarrow> (case nb_source (hp_nodes h ! p) of
        None \<Rightarrow> True
      | Some ps \<Rightarrow> tc_NumPartitions (src_configs src) = tc_NumPartitions (src_configs ps)))"

definition sources_by_topic :: "nat \<Rightarrow> ('w, 'b) heap \<Rightarrow> (string \<times> ksource) list" where
  "sources_by_topic s h = fold (\<lambda>a m. case nb_source (hp_nodes h ! a) of None \<Rightarrow> m | Some src \<Rightarrow> AList.update (src_topic src) src m)
     (sub_Sources s h) []"

definition sub_check :: "nat \<Rightarrow> ('w, 'b, 'a) setup_state \<Rightarrow> unit res \<times> ('w, 'b, 'a) setup_state" where
  "sub_check s st =
     (case find (\<lambda>(_, src). \<not> co_partitioned (fst st) src) (sources_by_topic s (fst st)) of
        None \<Rightarrow> (Ok (), st)
      | Some (topic, _) \<Rightarrow> (Err (err_New (''Topology '' @ sub_id_String (sub_Id s (fst st)) @ '', topics must be co-partitioned. Topic ''
          @ topic)), st))"

text \<open>\<open>Changelog().Setup\<close> of the store at position \<open>i\<close> changes its builder.\<close>

definition store_Setup :: "('a, 'b) setup_env \<Rightarrow> setup_ctx \<Rightarrow> nat \<Rightarrow> nat \<Rightarrow> ('w, 'b, 'a) setup_state
    \<Rightarrow> unit res \<times> ('w, 'b, 'a) setup_state" where
  "store_Setup env ctx s i st = (case st of (h, adm) \<Rightarrow>
     (let sb = snd (sb_stores (hp_subs h ! s) ! i)
      in case ssb_builder sb of
           None \<Rightarrow> (Panic ''nil pointer dereference'', h, adm)
         | Some cb \<Rightarrow> (case cb_Setup (se_StoreConfigs env) (sx_partitionCount ctx) (se_Create env) (cb, adm) of
             (r, cb', adm') \<Rightarrow> (wrap_res ''topologyBuilder setup failed'' r,
               upd_sub s (\<lambda>b. b\<lparr>sb_stores := (sb_stores b)[i := (fst (sb_stores b ! i), sb\<lparr>ssb_builder := Some cb'\<rparr>)]\<rparr>) h, adm'))))"

definition sub_Setup :: "('a, 'b) setup_env \<Rightarrow> setup_ctx \<Rightarrow> nat \<Rightarrow> ('w, 'b, 'a) setup_state
    \<Rightarrow> unit res \<times> ('w, 'b, 'a) setup_state" where
  "sub_Setup env ctx s st =
     bindR (forR (\<lambda>a st. wrapR (''topologyBuilder setup failed on node ['' @ node_id_String (node_Id a (fst st)) @ '']'')
         (node_Setup env ctx a) st) (sub_Nodes s (fst st)))
       (\<lambda>_. bindR (sub_check s)
         (\<lambda>_ st. forR (store_Setup env ctx s) [0..<length (sb_stores (hp_subs (fst st) ! s))] st)) st"

section \<open>Building\<close>

text \<open>Topic metadata is that of the task's assignment; a topic that is not in it gives a nil pointer.\<close>

definition sink_Build :: "(string \<Rightarrow> ktopic option) \<Rightarrow> 'w node_builder \<Rightarrow> ksink_builder \<Rightarrow> 'w node res" where
  "sink_Build topicMeta n s = (case topicMeta (kb_topic s) of
      None \<Rightarrow> Panic ''nil pointer dereference''
    | Some meta \<Rightarrow> Ok \<lparr>nd_id = nb_id n, nd_name = nb_name n, nd_edges = [], nd_proc = PSink \<lparr>snk_Key = kb_Key s,
        snk_Value = kb_Value s, snk_topic = kb_topic s, snk_numOfPartitions = kt_NumPartitions meta,
        snk_partitioner = kb_partitioner s, snk_tombstoner = kb_tombstoneFiler s,
        snk_headerExtractor = kb_headerExtractor s\<rparr>\<rparr>)"

definition node_Build :: "('w, 'm) node_env \<Rightarrow> (string \<Rightarrow> ktopic option) \<Rightarrow> 'w node_builder \<Rightarrow> 'w node res" where
  "node_Build env topicMeta n = (case nb_kind n of
      BProc p \<Rightarrow> processor_Build env (nb_id n) (nb_name n) p
    | BSink s \<Rightarrow> sink_Build topicMeta n s)"

fun mapE :: "('x \<Rightarrow> 'y res) \<Rightarrow> 'x list \<Rightarrow> 'y list res" where
  "mapE f [] = Ok []"
| "mapE f (x # xs) = bind_res (f x) (\<lambda>y. bind_res (mapE f xs) (\<lambda>ys. Ok (y # ys)))"

definition is_sink_node :: "'w node \<Rightarrow> bool" where
  "is_sink_node n = (case nd_proc n of PSink _ \<Rightarrow> True | _ \<Rightarrow> False)"

definition node_source :: "'w node \<Rightarrow> ksource option" where
  "node_source n = (case nd_proc n of PSource s \<Rightarrow> Some s | _ \<Rightarrow> None)"

definition node_AddEdge :: "nat \<Rightarrow> 'w node \<Rightarrow> 'w node res" where
  "node_AddEdge child n =
     (if is_sink_node n then Panic ''sink does not support edges'' else Ok (n\<lparr>nd_edges := nd_edges n @ [child]\<rparr>))"

definition edge_index :: "nat \<Rightarrow> ('w, 'b) heap \<Rightarrow> 'x list \<Rightarrow> nat res" where
  "edge_index a h nds = (let i = ni_id (node_Id a h)
     in if 0 \<le> i \<and> nat i < length nds then Ok (nat i) else Panic ''index out of range'')"

fun connect_edges :: "('w, 'b) heap \<Rightarrow> (nat \<times> nat) list \<Rightarrow> 'v node list \<Rightarrow> 'v node list res" where
  "connect_edges h [] nds = Ok nds"
| "connect_edges h ((parent, node) # es) nds =
     bind_res (edge_index parent h nds) (\<lambda>i. bind_res (edge_index node h nds) (\<lambda>j.
       bind_res (node_AddEdge j (nds ! i)) (\<lambda>n. connect_edges h es (nds[i := n]))))"

record ('w, 'st) ksub_topology =
  ks_id :: sub_id
  ks_edges :: "(nat \<times> nat) list"
  ks_nodes :: "'w node list"
  ks_sources :: "nat list"
  ks_sinks :: "nat list"
  ks_stores :: "(string \<times> 'st) list"

text \<open>\<open>buildStore\<close> is \<open>Build\<close> of a state store builder in the task's context.\<close>

definition sub_Build :: "('w, 'm) node_env \<Rightarrow> (string \<Rightarrow> ktopic option) \<Rightarrow> ('b state_store_builder \<Rightarrow> 'st res) \<Rightarrow> nat
    \<Rightarrow> ('w, 'b) heap \<Rightarrow> ('w, 'st) ksub_topology res" where
  "sub_Build env topicMeta buildStore s h =
     bind_res (mapE (\<lambda>a. node_Build env topicMeta (hp_nodes h ! a)) (sub_Nodes s h)) (\<lambda>nds0.
       bind_res (connect_edges h (sub_Edges s h) nds0) (\<lambda>nds.
         bind_res (mapE (\<lambda>(_, b). bind_res (buildStore b) (\<lambda>st. Ok (ssb_Name b, st))) (sb_stores (hp_subs h ! s))) (\<lambda>stores.
           Ok \<lparr>ks_id = sub_Id s h, ks_edges = sub_Edges s h, ks_nodes = nds,
             ks_sources = filter (\<lambda>i. node_source (nds ! i) \<noteq> None) [0..<length nds],
             ks_sinks = filter (\<lambda>i. is_sink_node (nds ! i)) [0..<length nds], ks_stores = stores\<rparr>)))"

section \<open>The built sub topology\<close>

definition ks_Source :: "string \<Rightarrow> ('w, 'st) ksub_topology \<Rightarrow> nat option" where
  "ks_Source topic t = find (\<lambda>i. map_option src_topic (node_source (ks_nodes t ! i)) = Some topic) (ks_sources t)"

definition ks_Store :: "string \<Rightarrow> ('w, 'st) ksub_topology \<Rightarrow> 'st res" where
  "ks_Store name t = (case map_of (ks_stores t) name of
      None \<Rightarrow> Panic (sub_id_String (ks_id t) @ '' - store ['' @ name @ ''], does not exist'')
    | Some st \<Rightarrow> Ok st)"

text \<open>\<open>Init\<close> of the nodes that have one: they look their stores up. \<open>registry\<close> is \<open>StoreRegistry().Store\<close>.\<close>

definition node_Init :: "(string \<Rightarrow> unit res) \<Rightarrow> ('w, 'st) ksub_topology \<Rightarrow> 'w node \<Rightarrow> unit res" where
  "node_Init registry t n = (let lookup = (\<lambda>name. bind_res (ks_Store name t) (\<lambda>_. Ok ())) in case nd_proc n of
      PAggregator _ st \<Rightarrow> lookup st
    | PTableConverter st \<Rightarrow> lookup st
    | PGlobalTable st \<Rightarrow> lookup st
    | PStreamJoiner sj \<Rightarrow> lookup (sj_OtherStoreName sj)
    | PWindowJoiner wj \<Rightarrow> bind_res (lookup (wj_StoreName wj)) (\<lambda>_. lookup (wj_OtherStoreName wj))
    | PGlobalTableJoiner gj \<Rightarrow> wrap_res ''GlobalTable Init failed'' (registry (gj_Store gj))
    | _ \<Rightarrow> Ok ())"

definition ks_Init :: "(string \<Rightarrow> unit res) \<Rightarrow> ('w, 'st) ksub_topology \<Rightarrow> unit res" where
  "ks_Init registry t = bind_res (mapE (node_Init registry t) (ks_nodes t)) (\<lambda>_. Ok ())"

text \<open>Of the nodes only sinks can be closed, which does nothing.\<close>

definition ks_Close :: "('w, 'st) ksub_topology \<Rightarrow> unit res" where
  "ks_Close t = bind_res (mapE (\<lambda>n. if is_sink_node n then Ok () else Ok ()) (ks_nodes t)) (\<lambda>_. Ok ())"

text \<open>What a task does with a consumed record, \<open>coreProcess\<close> of \<open>ktask.go\<close>.\<close>

definition ks_process :: "('w, 'm) node_env \<Rightarrow> nat \<Rightarrow> ('w, 'st) ksub_topology \<Rightarrow> krecord \<Rightarrow> 'w \<Rightarrow> unit res \<times> 'w" where
  "ks_process env depth t rec = (case ks_Source (kr_Topic rec) t of
      None \<Rightarrow> pureR (Panic ''nil pointer dereference'')
    | Some i \<Rightarrow> bindR (node_Run env (ks_nodes t) depth i (NewRecordContext rec) (GBytes (kr_Key rec)) (GBytes (kr_Value rec)))
        (\<lambda>_. retR ()))"

end
