(* ===== verification/Wiring.thy ===== *)
theory Wiring
  imports Sub_Topology
begin

text \<open>
  The invariant of the sub topology builders and what it gives: node ids are positions, edges run from older to newer nodes, and no
  node is in two live sub topologies. Every operation of the builders the stream API uses keeps it; with it \<open>Build\<close> connects
  exactly the nodes the edges name, and the result has no cycles, so that runs through it end.
\<close>

section \<open>The invariant\<close>

definition node_placed :: "nat \<Rightarrow> nat list \<Rightarrow> ('w, 'b) heap \<Rightarrow> bool" where
  "node_placed a ns h \<longleftrightarrow> a < length (hp_nodes h) \<and> 0 \<le> ni_id (node_Id a h) \<and> nat (ni_id (node_Id a h)) < length ns \<and>
     ns ! nat (ni_id (node_Id a h)) = a"

definition sub_wf :: "nat \<Rightarrow> ('w, 'b) heap \<Rightarrow> bool" where
  "sub_wf s h \<longleftrightarrow> s < length (hp_subs h) \<and> (\<forall>a \<in> set (sub_Nodes s h). node_placed a (sub_Nodes s h) h) \<and>
     (\<forall>(p, c) \<in> set (sub_Edges s h). p \<in> set (sub_Nodes s h) \<and> c \<in> set (sub_Nodes s h) \<and> p < c)"

text \<open>\<open>live\<close>: the sub topologies of the topology, by address.\<close>

definition heap_wf :: "nat list \<Rightarrow> ('w, 'b) heap \<Rightarrow> bool" where
  "heap_wf live h \<longleftrightarrow> distinct live \<and> (\<forall>s \<in> set live. sub_wf s h) \<and>
     (\<forall>s \<in> set live. \<forall>t \<in> set live. s \<noteq> t \<longrightarrow> set (sub_Nodes s h) \<inter> set (sub_Nodes t h) = {})"

named_theorems heap_simps \<open>reading the heap after an update\<close>

lemma upd_sub_simps [heap_simps]:
  "hp_nodes (upd_sub s f h) = hp_nodes h" "length (hp_subs (upd_sub s f h)) = length (hp_subs h)"
  "node_Id a (upd_sub s f h) = node_Id a h"
  "s < length (hp_subs h) \<Longrightarrow> hp_subs (upd_sub s f h) ! t = (if t = s then f (hp_subs h ! s) else hp_subs h ! t)"
  by (auto simp: upd_sub_def node_Id_def)

lemma upd_node_simps [heap_simps]:
  "hp_subs (upd_node a f h) = hp_subs h" "length (hp_nodes (upd_node a f h)) = length (hp_nodes h)"
  "sub_Nodes s (upd_node a f h) = sub_Nodes s h" "sub_Edges s (upd_node a f h) = sub_Edges s h"
  "sub_Id s (upd_node a f h) = sub_Id s h"
  "a < length (hp_nodes h) \<Longrightarrow> node_Id b (upd_node a f h) = (if b = a then nb_id (f (hp_nodes h ! a)) else node_Id b h)"
  by (auto simp: upd_node_def sub_Nodes_def sub_Edges_def sub_Id_def node_Id_def)

lemma AddNode_simps [heap_simps]:
  assumes "s < length (hp_subs h)"
  shows "length (hp_nodes (sub_AddNode s a h)) = length (hp_nodes h)" "length (hp_subs (sub_AddNode s a h)) = length (hp_subs h)"
    "sub_Nodes t (sub_AddNode s a h) = (if t = s then sub_Nodes s h @ [a] else sub_Nodes t h)"
    "sub_Edges t (sub_AddNode s a h) = sub_Edges t h" "sub_Id t (sub_AddNode s a h) = sub_Id t h"
    "sb_stores (hp_subs (sub_AddNode s a h) ! t) = sb_stores (hp_subs h ! t)"
    "a < length (hp_nodes h) \<Longrightarrow> node_Id b (sub_AddNode s a h) =
       (if b = a then NewNodeId (int (length (sub_Nodes s h))) ''test.path'' (sid_name (sub_Id s h)) else node_Id b h)"
  using assms by (auto simp: sub_AddNode_def sub_Nodes_def sub_Edges_def sub_Id_def heap_simps)

lemma AddEdge_simps [heap_simps]:
  assumes "s < length (hp_subs h)"
  shows "hp_nodes (sub_AddEdge s p c h) = hp_nodes h" "length (hp_subs (sub_AddEdge s p c h)) = length (hp_subs h)"
    "sub_Nodes t (sub_AddEdge s p c h) = sub_Nodes t h" "sub_Id t (sub_AddEdge s p c h) = sub_Id t h"
    "sub_Edges t (sub_AddEdge s p c h) = (if t = s then sub_Edges s h @ [(p, c)] else sub_Edges t h)"
    "node_Id b (sub_AddEdge s p c h) = node_Id b h"
    "sb_stores (hp_subs (sub_AddEdge s p c h) ! t) = sb_stores (hp_subs h ! t)"
  using assms by (auto simp: sub_AddEdge_def sub_Nodes_def sub_Edges_def sub_Id_def heap_simps)

lemma AddStore_simps [heap_simps]:
  assumes "s < length (hp_subs h)"
  shows "hp_nodes (sub_AddStore s b h) = hp_nodes h" "length (hp_subs (sub_AddStore s b h)) = length (hp_subs h)"
    "sub_Nodes t (sub_AddStore s b h) = sub_Nodes t h" "sub_Edges t (sub_AddStore s b h) = sub_Edges t h"
    "sub_Id t (sub_AddStore s b h) = sub_Id t h" "node_Id a (sub_AddStore s b h) = node_Id a h"
  using assms by (auto simp: sub_AddStore_def sub_Nodes_def sub_Edges_def sub_Id_def heap_simps)

lemma RemoveAll_simps [heap_simps]:
  assumes "s < length (hp_subs h)"
  shows "hp_nodes (sub_RemoveAll s h) = hp_nodes h" "length (hp_subs (sub_RemoveAll s h)) = length (hp_subs h)"
    "sub_Nodes t (sub_RemoveAll s h) = (if t = s then [] else sub_Nodes t h)"
    "sub_Edges t (sub_RemoveAll s h) = (if t = s then [] else sub_Edges t h)"
    "sub_Id t (sub_RemoveAll s h) = sub_Id t h" "node_Id a (sub_RemoveAll s h) = node_Id a h"
  using assms by (auto simp: sub_RemoveAll_def sub_Nodes_def sub_Edges_def sub_Id_def heap_simps)

section \<open>Adding nodes and edges\<close>

lemma placed_AddNode:
  assumes "s < length (hp_subs h)" "a < length (hp_nodes h)" "b = a \<or> node_placed b (sub_Nodes s h) h"
  shows "node_placed b (sub_Nodes s h @ [a]) (sub_AddNode s a h)"
  using assms by (auto simp: node_placed_def heap_simps NewNodeId_def nth_append)

text \<open>Adding nodes one after the other places them all, also one that is added twice, and moves no other node.\<close>

lemma fold_AddNode_all:
  assumes "s < length (hp_subs h)" "\<forall>a \<in> set as. a < length (hp_nodes h)"
  shows "sub_Nodes t (fold (sub_AddNode s) as h) = (if t = s then sub_Nodes s h @ as else sub_Nodes t h) \<and>
    sub_Edges t (fold (sub_AddNode s) as h) = sub_Edges t h \<and>
    length (hp_nodes (fold (sub_AddNode s) as h)) = length (hp_nodes h) \<and>
    length (hp_subs (fold (sub_AddNode s) as h)) = length (hp_subs h) \<and>
    sub_Id t (fold (sub_AddNode s) as h) = sub_Id t h \<and>
    sb_stores (hp_subs (fold (sub_AddNode s) as h) ! t) = sb_stores (hp_subs h ! t) \<and>
    (b \<notin> set as \<longrightarrow> node_Id b (fold (sub_AddNode s) as h) = node_Id b h) \<and>
    (b \<in> set as \<or> node_placed b (sub_Nodes s h) h \<longrightarrow> node_placed b (sub_Nodes s h @ as) (fold (sub_AddNode s) as h))"
  using assms
proof (induction as arbitrary: h)
  case (Cons a as)
  let ?h = "sub_AddNode s a h"
  have p: "s < length (hp_subs ?h)" "\<forall>a \<in> set as. a < length (hp_nodes ?h)" "a < length (hp_nodes h)"
    using Cons.prems by (simp_all add: heap_simps)
  have "b = a \<or> node_placed b (sub_Nodes s h) h \<Longrightarrow> node_placed b (sub_Nodes s ?h) ?h"
    using placed_AddNode [OF Cons.prems(1) p(3), of b] Cons.prems(1) by (simp add: heap_simps)
  then show ?case using Cons.IH [OF p(1,2)] Cons.prems(1) p(3) by (auto simp: heap_simps)
qed simp

lemmas fold_AddNode = fold_AddNode_all [THEN conjunct1]
  fold_AddNode_all [THEN conjunct2, THEN conjunct1]
  fold_AddNode_all [THEN conjunct2, THEN conjunct2, THEN conjunct1]
  fold_AddNode_all [THEN conjunct2, THEN conjunct2, THEN conjunct2, THEN conjunct1]
  fold_AddNode_all [THEN conjunct2, THEN conjunct2, THEN conjunct2, THEN conjunct2, THEN conjunct1]
  fold_AddNode_all [THEN conjunct2, THEN conjunct2, THEN conjunct2, THEN conjunct2, THEN conjunct2, THEN conjunct1]
lemmas fold_AddNode_Id = fold_AddNode_all [THEN conjunct2, THEN conjunct2, THEN conjunct2, THEN conjunct2, THEN conjunct2,
    THEN conjunct2, THEN conjunct1, THEN mp]
lemmas fold_AddNode_placed = fold_AddNode_all [THEN conjunct2, THEN conjunct2, THEN conjunct2, THEN conjunct2, THEN conjunct2,
    THEN conjunct2, THEN conjunct2, THEN mp]

lemma fold_AddEdge:
  fixes es :: "(nat \<times> nat) list" and h :: "('w, 'b) heap"
  assumes "s < length (hp_subs h)"
  defines "h' \<equiv> fold (\<lambda>(p, c). sub_AddEdge s p c) es h"
  shows "sub_Edges t h' = (if t = s then sub_Edges s h @ es else sub_Edges t h)" "sub_Nodes t h' = sub_Nodes t h"
    "hp_nodes h' = hp_nodes h" "length (hp_subs h') = length (hp_subs h)" "sub_Id t h' = sub_Id t h"
    "node_Id b h' = node_Id b h" "sb_stores (hp_subs h' ! t) = sb_stores (hp_subs h ! t)"
  using assms(1) unfolding h'_def by (induction es arbitrary: h) (auto simp: heap_simps)

lemma fold_AddStore:
  fixes bs :: "('x \<times> 'b state_store_builder) list" and h :: "('w, 'b) heap"
  assumes "s < length (hp_subs h)"
  defines "h' \<equiv> fold (\<lambda>(_, b). sub_AddStore s b) bs h"
  shows "sub_Edges t h' = sub_Edges t h" "sub_Nodes t h' = sub_Nodes t h"
    "hp_nodes h' = hp_nodes h" "length (hp_subs h') = length (hp_subs h)" "sub_Id t h' = sub_Id t h"
    "node_Id b h' = node_Id b h"
  using assms(1) unfolding h'_def by (induction bs arbitrary: h) (auto simp: heap_simps)

lemma sub_wf_frame:
  assumes "sub_wf t h" "length (hp_subs h') = length (hp_subs h)" "length (hp_nodes h') = length (hp_nodes h)"
    and "sub_Nodes t h' = sub_Nodes t h" "sub_Edges t h' = sub_Edges t h"
    and "\<And>b. b \<in> set (sub_Nodes t h) \<Longrightarrow> node_Id b h' = node_Id b h"
  shows "sub_wf t h'"
  using assms(1,6) unfolding sub_wf_def node_placed_def by (simp add: assms(2-5))

lemma sub_wf_grow:
  assumes "s < length (hp_subs h)" "\<And>b. b \<in> set (sub_Nodes s h) \<Longrightarrow> node_placed b (sub_Nodes s h) h"
    and "\<And>p c. (p, c) \<in> set (sub_Edges s h) \<Longrightarrow> p \<in> set (sub_Nodes s h) \<and> c \<in> set (sub_Nodes s h) \<and> p < c"
  shows "sub_wf s h"
  using assms unfolding sub_wf_def by blast

lemma sub_wfD:
  assumes "sub_wf s h"
  shows "s < length (hp_subs h)" "b \<in> set (sub_Nodes s h) \<Longrightarrow> node_placed b (sub_Nodes s h) h"
    "(p, c) \<in> set (sub_Edges s h) \<Longrightarrow> p \<in> set (sub_Nodes s h) \<and> c \<in> set (sub_Nodes s h) \<and> p < c"
  using assms unfolding sub_wf_def by blast+

lemma heap_wfD:
  assumes "heap_wf live h"
  shows "distinct live" "s \<in> set live \<Longrightarrow> sub_wf s h"
    "\<lbrakk>s \<in> set live; t \<in> set live; s \<noteq> t; x \<in> set (sub_Nodes s h)\<rbrakk> \<Longrightarrow> x \<notin> set (sub_Nodes t h)"
  using assms unfolding heap_wf_def by blast+

lemma heap_wfI:
  assumes "distinct live" "\<And>s. s \<in> set live \<Longrightarrow> sub_wf s h"
    and "\<And>s t x. \<lbrakk>s \<in> set live; t \<in> set live; s \<noteq> t; x \<in> set (sub_Nodes s h); x \<in> set (sub_Nodes t h)\<rbrakk> \<Longrightarrow> False"
  shows "heap_wf live h"
  using assms unfolding heap_wf_def by blast

lemma heap_wf_AddNode:
  assumes wf: "heap_wf live h" and "s \<in> set live" "a < length (hp_nodes h)"
    and "\<forall>t \<in> set live. t \<noteq> s \<longrightarrow> a \<notin> set (sub_Nodes t h)"
  shows "heap_wf live (sub_AddNode s a h)"
proof -
  have s: "s < length (hp_subs h)" using wf assms(2) by (simp add: heap_wf_def sub_wf_def)
  have "sub_wf t (sub_AddNode s a h)" if t: "t \<in> set live" for t
  proof -
    have w: "sub_wf t h" using wf t by (simp add: heap_wf_def)
    show ?thesis
    proof (cases "t = s")
      case True
      show ?thesis unfolding True
        using placed_AddNode [OF s assms(3)] sub_wfD(2,3) [OF w] True s
        by (intro sub_wf_grow) (auto simp: heap_simps)
    next
      case False
      then have "\<forall>b \<in> set (sub_Nodes t h). b \<noteq> a" using assms(4) t by auto
      with False s assms(3) show ?thesis by (intro sub_wf_frame [OF w]) (auto simp: heap_simps)
    qed
  qed
  moreover have False
    if "t \<in> set live" "u \<in> set live" "t \<noteq> u" "x \<in> set (sub_Nodes t (sub_AddNode s a h))"
      "x \<in> set (sub_Nodes u (sub_AddNode s a h))" for t u x
    using that heap_wfD(3) [OF wf, of t u x] assms(4) s by (auto simp: heap_simps split: if_splits)
  ultimately show ?thesis using heap_wfD(1) [OF wf] by (intro heap_wfI) blast+
qed

lemma heap_wf_AddEdge:
  assumes "heap_wf live h" "s \<in> set live" "p \<in> set (sub_Nodes s h)" "c \<in> set (sub_Nodes s h)" "p < c"
  shows "heap_wf live (sub_AddEdge s p c h)"
proof -
  have s: "s < length (hp_subs h)" using assms(1,2) by (simp add: heap_wf_def sub_wf_def)
  have "sub_wf t (sub_AddEdge s p c h)" if w: "sub_wf t h" for t
  proof (cases "t = s")
    case True
    show ?thesis unfolding True
      using sub_wfD(2,3) [OF w] True s assms(3-5) by (intro sub_wf_grow) (auto simp: heap_simps node_placed_def)
  next
    case False
    with s show ?thesis by (intro sub_wf_frame [OF w]) (auto simp: heap_simps)
  qed
  then show ?thesis using assms(1) s by (simp add: heap_wf_def heap_simps)
qed

lemma heap_wf_AddStore:
  assumes "heap_wf live h" "s < length (hp_subs h)"
  shows "heap_wf live (sub_AddStore s b h)"
proof -
  have "sub_wf t (sub_AddStore s b h)" if w: "sub_wf t h" for t
    using assms(2) by (intro sub_wf_frame [OF w]) (auto simp: heap_simps)
  then show ?thesis using assms by (simp add: heap_wf_def heap_simps)
qed

text \<open>The usual step: a node just created goes below a node that is there.\<close>

lemma heap_wf_AddNodeWithEdge:
  assumes wf: "heap_wf live h" and s: "s \<in> set live" and "p \<in> set (sub_Nodes s h)" and a: "a < length (hp_nodes h)" "p < a"
    and "\<forall>t \<in> set live. t \<noteq> s \<longrightarrow> a \<notin> set (sub_Nodes t h)"
  shows "heap_wf live (sub_AddNodeWithEdge s p a h)"
proof -
  have "s < length (hp_subs h)" using wf s by (simp add: heap_wf_def sub_wf_def)
  then show ?thesis
    using heap_wf_AddEdge [OF heap_wf_AddNode [OF wf s a(1) assms(6)] s, of p a] assms(3) a(2)
    by (simp add: sub_AddNodeWithEdge_def heap_simps)
qed

section \<open>Merging\<close>

lemma Merge_eq:
  assumes wf: "heap_wf live h" and s: "s \<in> set live" "t \<in> set live" "s \<noteq> t"
  defines "h' \<equiv> sub_MergeSubTopology s t h"
  shows "sub_Nodes u h' = (if u = s then sub_Nodes s h @ sub_Nodes t h else if u = t then [] else sub_Nodes u h)"
    and "sub_Edges u h' = (if u = s then sub_Edges s h @ sub_Edges t h else if u = t then [] else sub_Edges u h)"
    and "length (hp_nodes h') = length (hp_nodes h)" "length (hp_subs h') = length (hp_subs h)" "sub_Id u h' = sub_Id u h"
    and "b \<notin> set (sub_Nodes t h) \<Longrightarrow> node_Id b h' = node_Id b h"
    and "b \<in> set (sub_Nodes s h) \<union> set (sub_Nodes t h) \<Longrightarrow> node_placed b (sub_Nodes s h @ sub_Nodes t h) h'"
proof -
  let ?h1 = "fold (sub_AddNode s) (sub_Nodes t h) h"
  let ?h2 = "fold (\<lambda>(parent, node). sub_AddEdge s parent node) (sub_Edges t ?h1) ?h1"
  let ?h3 = "fold (\<lambda>(_, stor). sub_AddStore s stor) (sb_stores (hp_subs ?h2 ! t)) ?h2"
  note w = sub_wfD [OF heap_wfD(2) [OF wf s(1)]] sub_wfD [OF heap_wfD(2) [OF wf s(2)]]
  have p: "\<forall>a \<in> set (sub_Nodes t h). a < length (hp_nodes h)" using w(5) by (auto simp: node_placed_def)
  note A = fold_AddNode [OF w(1) p]
  have l1: "s < length (hp_subs ?h1)" using w(1) A(4) by simp
  note E = fold_AddEdge [OF l1]
  have l2: "s < length (hp_subs ?h2)" using l1 E(4) by simp
  note S = fold_AddStore [OF l2]
  have l3: "t < length (hp_subs ?h3)" using w(4) by (simp add: A(4) E(4) S(4))
  have h': "h' = sub_RemoveAll t ?h3" by (simp add: h'_def sub_MergeSubTopology_def Let_def)
  note R = RemoveAll_simps [OF l3]
  have n3: "sub_Nodes u ?h3 = (if u = s then sub_Nodes s h @ sub_Nodes t h else sub_Nodes u h)"
    unfolding S(2) E(2) by (rule A(1))
  have "sub_Edges u ?h3 = sub_Edges u ?h2" by (rule S(1))
  also have "\<dots> = (if u = s then sub_Edges s ?h1 @ sub_Edges t ?h1 else sub_Edges u ?h1)" by (rule E(1))
  also have "\<dots> = (if u = s then sub_Edges s h @ sub_Edges t h else sub_Edges u h)" by (simp only: A(2))
  finally have e3: "sub_Edges u ?h3 = (if u = s then sub_Edges s h @ sub_Edges t h else sub_Edges u h)" .
  show "sub_Nodes u h' = (if u = s then sub_Nodes s h @ sub_Nodes t h else if u = t then [] else sub_Nodes u h)"
    unfolding h' R(3) n3 using s(3) by simp
  show "sub_Edges u h' = (if u = s then sub_Edges s h @ sub_Edges t h else if u = t then [] else sub_Edges u h)"
    unfolding h' R(4) e3 using s(3) by simp
  show n: "length (hp_nodes h') = length (hp_nodes h)" unfolding h' R(1) S(3) E(3) by (rule A(3))
  show "length (hp_subs h') = length (hp_subs h)" unfolding h' R(2) S(4) E(4) by (rule A(4))
  show "sub_Id u h' = sub_Id u h" unfolding h' R(5) S(5) E(5) by (rule A(5))
  have i: "node_Id b h' = node_Id b ?h1" unfolding h' R(6) S(6) E(6) by (rule refl)
  show "b \<notin> set (sub_Nodes t h) \<Longrightarrow> node_Id b h' = node_Id b h" using fold_AddNode_Id [OF w(1) p] i by simp
  show "node_placed b (sub_Nodes s h @ sub_Nodes t h) h'" if "b \<in> set (sub_Nodes s h) \<union> set (sub_Nodes t h)"
  proof -
    have "node_placed b (sub_Nodes s h @ sub_Nodes t h) ?h1"
      using fold_AddNode_placed [OF w(1) p, of b] that w(2) by blast
    then show ?thesis using i n A(3) by (simp add: node_placed_def)
  qed
qed

lemma heap_wf_Merge:
  assumes wf: "heap_wf live h" and s: "s \<in> set live" "t \<in> set live" "s \<noteq> t"
  shows "heap_wf live (sub_MergeSubTopology s t h)"
proof (rule heap_wfI)
  note M = Merge_eq [OF wf s]
  show "distinct live" by (rule heap_wfD(1) [OF wf])
  show "sub_wf u (sub_MergeSubTopology s t h)" if u: "u \<in> set live" for u
  proof -
    note w = heap_wfD(2) [OF wf u]
    consider "u = s" | "u = t" | "u \<noteq> s" "u \<noteq> t" by blast
    then show ?thesis
    proof cases
      case 1
      show ?thesis unfolding 1
        using M(7) sub_wfD(1,3) [OF heap_wfD(2) [OF wf s(1)]] sub_wfD(3) [OF heap_wfD(2) [OF wf s(2)]]
        by (intro sub_wf_grow) (auto simp: M)
    next
      case 2
      then show ?thesis using s(3) sub_wfD(1) [OF w] by (intro sub_wf_grow) (auto simp: M)
    next
      case 3
      then have "b \<notin> set (sub_Nodes t h)" if "b \<in> set (sub_Nodes u h)" for b
        using heap_wfD(3) [OF wf u s(2)] that by blast
      with 3 show ?thesis by (intro sub_wf_frame [OF w]) (auto simp: M)
    qed
  qed
  show False if "u \<in> set live" "v \<in> set live" "u \<noteq> v" "x \<in> set (sub_Nodes u (sub_MergeSubTopology s t h))"
    "x \<in> set (sub_Nodes v (sub_MergeSubTopology s t h))" for u v x
    using that heap_wfD(3) [OF wf that(1,2,3), of x] heap_wfD(3) [OF wf s(2) that(1), of x] heap_wfD(3) [OF wf s(2) that(2), of x]
    by (simp add: M(1) split: if_splits) blast+
qed

lemma heap_wf_subset: "heap_wf live h \<Longrightarrow> distinct live' \<Longrightarrow> set live' \<subseteq> set live \<Longrightarrow> heap_wf live' h"
  unfolding heap_wf_def by blast

section \<open>What Build connects\<close>

definition node_pos :: "('w, 'b) heap \<Rightarrow> nat \<Rightarrow> nat" where
  "node_pos h a = nat (ni_id (node_Id a h))"

definition builder_is_sink :: "'w node_builder \<Rightarrow> bool" where
  "builder_is_sink n = (case nb_kind n of BSink _ \<Rightarrow> True | BProc p \<Rightarrow> (case p of PSink _ \<Rightarrow> True | _ \<Rightarrow> False))"

lemma node_Build_fresh:
  assumes "node_Build env topicMeta n = Ok nd"
  shows "nd_edges nd = []" "is_sink_node nd = builder_is_sink n"
proof -
  have "nd_edges nd = [] \<and> is_sink_node nd = builder_is_sink n"
  proof (cases "nb_kind n")
    case (BProc p)
    then show ?thesis using assms
      by (cases p) (auto simp: node_Build_def processor_Build_def source_Build_def Let_def is_sink_node_def builder_is_sink_def
          split: if_splits)
  next
    case (BSink s)
    then show ?thesis using assms
      by (auto simp: node_Build_def sink_Build_def is_sink_node_def builder_is_sink_def split: option.splits)
  qed
  then show "nd_edges nd = []" "is_sink_node nd = builder_is_sink n" by blast+
qed

lemma mapE_Ok: "mapE f xs = Ok ys \<longleftrightarrow> length ys = length xs \<and> (\<forall>i < length xs. f (xs ! i) = Ok (ys ! i))"
proof (induction xs arbitrary: ys)
  case (Cons x xs)
  show ?case
  proof (cases ys)
    case (Cons y ys')
    then show ?thesis using Cons.IH [of ys']
      by (auto simp: bind_res_Ok_iff nth_Cons' less_Suc_eq_0_disj)
  qed (auto simp: bind_res_Ok_iff)
qed auto

lemma edge_index_placed:
  "node_placed a ns h \<Longrightarrow> length nds = length ns \<Longrightarrow> edge_index a h nds = Ok (node_pos h a) \<and> node_pos h a < length nds"
  by (simp add: edge_index_def node_placed_def node_pos_def)

lemma connect_edges_Ok:
  assumes "\<forall>(p, c) \<in> set es. node_placed p ns h \<and> node_placed c ns h \<and> \<not> is_sink_node (nds ! node_pos h p)"
    and "length nds = length ns"
  shows "\<exists>nds'. connect_edges h es nds = Ok nds' \<and> length nds' = length nds \<and>
    (\<forall>i < length nds. nds' ! i = (nds ! i)\<lparr>nd_edges := nd_edges (nds ! i) @
      map (node_pos h \<circ> snd) (filter (\<lambda>(p, c). node_pos h p = i) es)\<rparr>)"
  using assms
proof (induction es arbitrary: nds)
  case (Cons e es)
  obtain p c where e: "e = (p, c)" by force
  let ?i = "node_pos h p"
  have pc: "edge_index p h nds = Ok ?i" "?i < length nds" "edge_index c h nds = Ok (node_pos h c)" "\<not> is_sink_node (nds ! ?i)"
    using Cons.prems e edge_index_placed by force+
  let ?n = "(nds ! ?i)\<lparr>nd_edges := nd_edges (nds ! ?i) @ [node_pos h c]\<rparr>"
  have sink: "is_sink_node (nds[?i := ?n] ! j) = is_sink_node (nds ! j)" for j
    using pc(2) by (cases "j = ?i") (simp_all add: is_sink_node_def)
  have "\<exists>nds'. connect_edges h es (nds[?i := ?n]) = Ok nds' \<and> length nds' = length (nds[?i := ?n]) \<and>
    (\<forall>i < length (nds[?i := ?n]). nds' ! i = (nds[?i := ?n] ! i)\<lparr>nd_edges := nd_edges (nds[?i := ?n] ! i) @
      map (node_pos h \<circ> snd) (filter (\<lambda>(p, c). node_pos h p = i) es)\<rparr>)"
    by (rule Cons.IH) (use Cons.prems in \<open>simp_all add: sink\<close>)
  then obtain nds' where nds': "connect_edges h es (nds[?i := ?n]) = Ok nds'" "length nds' = length nds"
    "\<forall>i < length nds. nds' ! i = (nds[?i := ?n] ! i)\<lparr>nd_edges := nd_edges (nds[?i := ?n] ! i) @
      map (node_pos h \<circ> snd) (filter (\<lambda>(p, c). node_pos h p = i) es)\<rparr>" by auto
  have "connect_edges h (e # es) nds = Ok nds'" using pc nds'(1) by (simp add: e node_AddEdge_def)
  moreover have "nds' ! i = (nds ! i)\<lparr>nd_edges := nd_edges (nds ! i) @
      map (node_pos h \<circ> snd) (filter (\<lambda>(p, c). node_pos h p = i) (e # es))\<rparr>" if "i < length nds" for i
    using nds'(3) that by (cases "i = ?i") (auto simp: e)
  ultimately show ?case using nds'(2) by blast
qed simp

lemma pos_inject:
  assumes "node_placed a ns h" "node_placed b ns h"
  shows "node_pos h a = node_pos h b \<longleftrightarrow> a = b"
  using assms unfolding node_placed_def node_pos_def by metis

text \<open>The edges a node of the built topology has.\<close>

definition wired :: "('w, 'b) heap \<Rightarrow> nat \<Rightarrow> nat list \<Rightarrow> (nat \<times> nat) list \<Rightarrow> 'v node list \<Rightarrow> bool" where
  "wired h n ns es nds \<longleftrightarrow> length nds = n \<and>
     (\<forall>a \<in> set ns. nd_edges (nds ! node_pos h a) = map (node_pos h) (map snd (filter (\<lambda>(p, c). p = a) es))) \<and>
     (\<forall>i < n. (\<forall>a \<in> set ns. node_pos h a \<noteq> i) \<longrightarrow> nd_edges (nds ! i) = [])"

lemma sub_Build_wired:
  assumes wf: "sub_wf s h" and sinks: "\<forall>(p, c) \<in> set (sub_Edges s h). \<not> builder_is_sink (hp_nodes h ! p)"
    and nds0: "mapE (\<lambda>a. node_Build env topicMeta (hp_nodes h ! a)) (sub_Nodes s h) = Ok nds0"
  shows "\<exists>nds. connect_edges h (sub_Edges s h) nds0 = Ok nds \<and> wired h (length (sub_Nodes s h)) (sub_Nodes s h) (sub_Edges s h) nds"
proof -
  let ?ns = "sub_Nodes s h" and ?es = "sub_Edges s h"
  note w = sub_wfD [OF wf]
  have len: "length nds0 = length ?ns" and b: "\<And>i. i < length ?ns \<Longrightarrow> node_Build env topicMeta (hp_nodes h ! (?ns ! i)) = Ok (nds0 ! i)"
    using nds0 by (simp_all add: mapE_Ok)
  have at: "?ns ! node_pos h a = a" "node_pos h a < length ?ns" if "a \<in> set ?ns" for a
    using w(2) [OF that] by (simp_all add: node_placed_def node_pos_def)
  have pre: "\<forall>(p, c) \<in> set ?es. node_placed p ?ns h \<and> node_placed c ?ns h \<and> \<not> is_sink_node (nds0 ! node_pos h p)"
  proof (intro ballI)
    fix e assume "e \<in> set ?es"
    moreover obtain p c where "e = (p, c)" by force
    ultimately show "case e of (p, c) \<Rightarrow> node_placed p ?ns h \<and> node_placed c ?ns h \<and> \<not> is_sink_node (nds0 ! node_pos h p)"
      using w(2) w(3) [of p c] sinks at [of p] node_Build_fresh(2) [OF b, of "node_pos h p"] by auto
  qed
  obtain nds where nds: "connect_edges h ?es nds0 = Ok nds" "length nds = length nds0"
    "\<And>i. i < length nds0 \<Longrightarrow> nds ! i = (nds0 ! i)\<lparr>nd_edges := nd_edges (nds0 ! i) @
      map (node_pos h \<circ> snd) (filter (\<lambda>(p, c). node_pos h p = i) ?es)\<rparr>"
    using connect_edges_Ok [OF pre len] by blast
  have e: "nd_edges (nds ! i) = map (node_pos h \<circ> snd) (filter (\<lambda>(p, c). node_pos h p = i) ?es)" if "i < length ?ns" for i
    using nds(3) [of i] that len node_Build_fresh(1) [OF b [OF that]] by simp
  have "nd_edges (nds ! node_pos h a) = map (node_pos h) (map snd (filter (\<lambda>(p, c). p = a) ?es))" if a: "a \<in> set ?ns" for a
  proof -
    have "filter (\<lambda>(p, c). node_pos h p = node_pos h a) ?es = filter (\<lambda>(p, c). p = a) ?es"
      using pos_inject [OF w(2) w(2) [OF a]] w(3) by (intro filter_cong) auto
    then show ?thesis using e [OF at(2) [OF a]] by simp
  qed
  moreover have "nd_edges (nds ! i) = []" if "i < length ?ns" "\<forall>a \<in> set ?ns. node_pos h a \<noteq> i" for i
  proof -
    have "filter (\<lambda>(p, c). node_pos h p = i) ?es = []" using that(2) w(3) by (auto simp: filter_empty_conv)
    then show ?thesis using e [OF that(1)] by simp
  qed
  ultimately show ?thesis using nds(1,2) len unfolding wired_def by metis
qed

section \<open>Runs end\<close>

lemma node_Forward_cong:
  assumes "\<And>c ctx k v. c \<in> set (nd_edges n) \<Longrightarrow> run c ctx k v = run' c ctx k v"
  shows "node_Forward run n ctx k v cont = node_Forward run' n ctx k v cont"
proof -
  have "forR (\<lambda>child. bindR (run child ctx k v) (\<lambda>_. retR ())) cs = forR (\<lambda>child. bindR (run' child ctx k v) (\<lambda>_. retR ())) cs"
    if "set cs \<subseteq> set (nd_edges n)" for cs
    using that
  proof (induction cs)
    case (Cons c cs)
    then show ?case by (intro ext) (simp add: assms [of c ctx k v])
  qed (simp add: fun_eq_iff)
  then show ?thesis by (simp add: node_Forward_def)
qed

lemma flat_loop_cong:
  assumes "\<And>ctx k v. node_Forward run n ctx k v True = node_Forward run' n ctx k v True"
  shows "flat_loop err run n ctx kvs nxt = flat_loop err run' n ctx kvs nxt"
proof (induction kvs arbitrary: nxt)
  case (Cons kv kvs)
  have "(\<lambda>(_ :: goval, _ :: goval, nxt'). flat_loop err run n ctx kvs nxt') = (\<lambda>(_, _, nxt'). flat_loop err run' n ctx kvs nxt')"
    by (rule ext) (auto simp: Cons.IH)
  then show ?case by (cases kv) (simp only: flat_loop.simps assms)
qed simp

lemma branch_loop_cong:
  assumes "\<And>c ctx k v. c \<in> set cs \<Longrightarrow> run c ctx k v = run' c ctx k v"
  shows "branch_loop g run n ctx k v cs = branch_loop g run' n ctx k v cs"
  using assms by (induction cs) (auto split: processor.splits cong: if_cong)

lemma processor_Run_cong:
  assumes "\<And>c ctx k v. c \<in> set (nd_edges n) \<Longrightarrow> run c ctx k v = run' c ctx k v"
  shows "processor_Run env g run n ctx k v = processor_Run env g run' n ctx k v"
proof -
  have F: "node_Forward run n ctx k v True = node_Forward run' n ctx k v True" for ctx k v
    by (rule node_Forward_cong) (rule assms)
  have B: "branch_loop g run n ctx k v (nd_edges n) = branch_loop g run' n ctx k v (nd_edges n)"
    by (rule branch_loop_cong) (rule assms)
  note L = flat_loop_cong [of run n run', OF F]
  show ?thesis
    by (cases "nd_proc n") (simp_all add: processor_Run_def fun_eq_iff F B L map_Run_def value_mapper_Run_def key_selector_Run_def
      filter_Run_def each_Run_def flat_map_Run_def flat_map_values_Run_def merger_Run_def branch_Run_def
      branch_child_Run_def stream_converter_Run_def table_converter_Run_def aggregator_Run_def stream_joiner_Run_def
      window_joiner_Run_def global_table_joiner_Run_def global_table_Run_def source_Run_def sink_Run_def cong: if_cong option.case_cong prod.case_cong)
qed

definition ranked :: "(nat \<Rightarrow> nat) \<Rightarrow> 'w node list \<Rightarrow> bool" where
  "ranked rank g \<longleftrightarrow> (\<forall>i < length g. \<forall>c \<in> set (nd_edges (g ! i)). c < length g \<and> rank c < rank i)"

lemma node_Run_depth:
  assumes "ranked rank g" "i < length g" "rank i < d"
  shows "node_Run env g (d + e) i ctx k v = node_Run env g d i ctx k v"
  using assms(2,3)
proof (induction d arbitrary: i ctx k v)
  case (Suc d)
  have "node_Run env g (d + e) c ctx k v = node_Run env g d c ctx k v" if "c \<in> set (nd_edges (g ! i))" for c ctx k v
  proof (rule Suc.IH)
    from that assms(1) Suc.prems(1) have "c < length g" "rank c < rank i" unfolding ranked_def by blast+
    with Suc.prems(2) show "c < length g" "rank c < d" by simp_all
  qed
  then show ?case by (simp add: processor_Run_cong [of "g ! i" "node_Run env g (d + e)" "node_Run env g d"])
qed simp

end
