(* ===== verification/Topology_Builder.thy ===== *)
theory Topology_Builder
  imports Wiring
begin

text \<open>
  \<open>src/streams/ktopology_builder.go\<close>, \<open>ktopology.go\<close> and \<open>topology/topology_builder.go\<close>: the builder of the whole topology, its
  setup (which partition counts and topics the brokers are asked for), and the lookups in the finished topology. Maps are
  association lists here; where the code ranges over a map, the model goes in the order of insertion.
\<close>

section \<open>The builder\<close>

record ('w, 'b) topology_builder =
  tb_heap :: "('w, 'b) heap"
  tb_subTopologies :: "nat list"
  tb_counter :: int

definition NewKTopologyBuilder :: "('w, 'b) topology_builder" where
  "NewKTopologyBuilder = \<lparr>tb_heap = \<lparr>hp_nodes = [], hp_subs = []\<rparr>, tb_subTopologies = [], tb_counter = 1\<rparr>"

definition on_heap :: "(('w, 'b) heap \<Rightarrow> ('w, 'b) heap) \<Rightarrow> ('w, 'b) topology_builder \<Rightarrow> ('w, 'b) topology_builder" where
  "on_heap f k = k\<lparr>tb_heap := f (tb_heap k)\<rparr>"

definition addSubTopology :: "nat \<Rightarrow> ('w, 'b) topology_builder \<Rightarrow> ('w, 'b) topology_builder" where
  "addSubTopology s k =
     (let i = tb_counter k
      in (on_heap (sub_SetId s (NewSubTopologyId i (''SUB-TOPOLOGY-'' @ show_int i)))
            (k\<lparr>tb_subTopologies := tb_subTopologies k @ [s]\<rparr>))\<lparr>tb_counter := i + 1\<rparr>)"

definition NewKSubTopologyBuilder :: "sub_kind \<Rightarrow> ('w, 'b) topology_builder \<Rightarrow> nat \<times> ('w, 'b) topology_builder" where
  "NewKSubTopologyBuilder kind k =
     (let s = length (hp_subs (tb_heap k));
          tp = \<lparr>sb_id = NewSubTopologyId 0 [], sb_kind = kind, sb_nodeBuilders = [], sb_edges = [], sb_stores = []\<rparr>
      in (s, addSubTopology s (on_heap (\<lambda>h. h\<lparr>hp_subs := hp_subs h @ [tp]\<rparr>) k)))"

definition RemoveSubTopology :: "nat \<Rightarrow> ('w, 'b) topology_builder \<Rightarrow> ('w, 'b) topology_builder" where
  "RemoveSubTopology s k = k\<lparr>tb_subTopologies :=
     filter (\<lambda>t. sub_Id t (tb_heap k) \<noteq> sub_Id s (tb_heap k)) (tb_subTopologies k)\<rparr>"

definition tb_StateStores :: "('w, 'b) topology_builder \<Rightarrow> (string \<times> 'b state_store_builder) list" where
  "tb_StateStores k = fold (\<lambda>s m. fold (\<lambda>(_, store). AList.update (ssb_Name store) store) (sb_stores (hp_subs (tb_heap k) ! s)) m)
     (tb_subTopologies k) []"

section \<open>Topics of sub topologies\<close>

definition builder_topic :: "'w node_builder \<Rightarrow> string option" where
  "builder_topic n = (case nb_kind n of BProc (PSource s) \<Rightarrow> Some (src_topic s) | BSink s \<Rightarrow> Some (kb_topic s) | _ \<Rightarrow> None)"

definition source_topics :: "('w, 'b) heap \<Rightarrow> nat \<Rightarrow> string list" where
  "source_topics h s = map (\<lambda>a. case nb_source (hp_nodes h ! a) of Some src \<Rightarrow> src_topic src | None \<Rightarrow> []) (sub_Sources s h)"

definition subs_SourceTopics :: "('w, 'b) heap \<Rightarrow> nat list \<Rightarrow> string list" where
  "subs_SourceTopics h subs = concat (map (source_topics h) subs)"

definition subs_Topics :: "('w, 'b) heap \<Rightarrow> nat list \<Rightarrow> string list" where
  "subs_Topics h subs = concat (map (\<lambda>s. List.map_filter (\<lambda>a. builder_topic (hp_nodes h ! a)) (sub_Nodes s h)) subs)"

definition subs_SourceTopicsFor :: "('w, 'b) heap \<Rightarrow> sub_kind \<Rightarrow> nat list \<Rightarrow> string list" where
  "subs_SourceTopicsFor h kind subs = concat (map (source_topics h) (filter (\<lambda>s. sb_kind (hp_subs h ! s) = kind) subs))"

section \<open>Setup\<close>

type_synonym topic_map = "(string \<times> topic_config) list"
type_synonym topic_info = "(string \<times> gerror option \<times> ktopic) list"

definition zero_topic_config :: topic_config where
  "zero_topic_config = \<lparr>tc_NumPartitions = 0, tc_ReplicationFactor = 0, tc_ConfigEntries = Map.empty, tc_Internal = False,
     tc_AutoCreate = False\<rparr>"

definition topic_at :: "string \<Rightarrow> topic_map \<Rightarrow> topic_config" where
  "topic_at topic m = (case map_of m topic of None \<Rightarrow> zero_topic_config | Some c \<Rightarrow> c)"

text \<open>First pass: the topics of sources and sinks, outside global tables. \<open>Internal()\<close> of a source returns its auto-create flag.\<close>

definition collect_topic :: "'w node_builder \<Rightarrow> topic_map \<Rightarrow> topic_map" where
  "collect_topic nd m = (case nb_kind nd of
      BProc (PSource s) \<Rightarrow> AList.update (src_topic s)
        ((topic_at (src_topic s) m)\<lparr>tc_AutoCreate := src_autoCreate s, tc_Internal := src_autoCreate s\<rparr>) m
    | BSink s \<Rightarrow> (if map_of m (kb_topic s) = None then
        AList.update (kb_topic s) (zero_topic_config\<lparr>tc_AutoCreate := kb_autoCreate s\<rparr>) m else m)
    | _ \<Rightarrow> m)"

definition collect_topics :: "('w, 'b) topology_builder \<Rightarrow> topic_map" where
  "collect_topics k = (let h = tb_heap k in
     fold (\<lambda>s m. if sb_kind (hp_subs h ! s) = KindGlobalTable then m
       else fold (\<lambda>a. collect_topic (hp_nodes h ! a)) (sub_Nodes s h) m) (tb_subTopologies k) [])"

definition fetch_info :: "('a, 'b) setup_env \<Rightarrow> topic_map \<Rightarrow> 'a \<Rightarrow> topic_info res \<times> 'a" where
  "fetch_info env m = (let topics = map fst (filter (\<lambda>(_, info). \<not> tc_AutoCreate info) m)
     in if topics \<noteq> [] then wrapR ''Metadata fetch failed. Topics'' (se_FetchInfo env topics) else retR [])"

text \<open>A topic the brokers describe under a name that was not asked for gives a nil pointer.\<close>

fun apply_info :: "topic_info \<Rightarrow> topic_map \<Rightarrow> topic_map res" where
  "apply_info [] m = Ok m"
| "apply_info ((_, err, info) # rest) m =
     (case err of
        Some e \<Rightarrow> Err (err_Wrap e (''Metadata fetch failed on topic '' @ kt_Name info))
      | None \<Rightarrow> (case map_of m (kt_Name info) of
          None \<Rightarrow> Panic ''nil pointer dereference''
        | Some c \<Rightarrow> apply_info rest (AList.update (kt_Name info) (c\<lparr>tc_NumPartitions := kt_NumPartitions info\<rparr>) m)))"

definition info_of :: "string \<Rightarrow> topic_info \<Rightarrow> ktopic res" where
  "info_of topic tpInfo = (case map_of tpInfo topic of
      None \<Rightarrow> Panic ''nil pointer dereference'' | Some (_, info) \<Rightarrow> Ok info)"

text \<open>
  Third pass, for one node of a sub topology: the partition counts so far are \<open>(topicMap, maxPartitions, autoMaxPartitions)\<close>,
  compared as signed numbers.
\<close>

definition set_described :: "string \<Rightarrow> ktopic \<Rightarrow> topic_map \<Rightarrow> topic_map" where
  "set_described topic info m = AList.update topic ((topic_at topic m)\<lparr>tc_NumPartitions := kt_NumPartitions info,
     tc_ReplicationFactor := kt_ReplicationFactor info, tc_ConfigEntries := kt_ConfigEntries info\<rparr>) m"

definition max_int32 :: "int32 \<Rightarrow> int32 \<Rightarrow> int32" where
  "max_int32 x y = (if sint x > sint y then x else y)"

type_synonym counts = "topic_map \<times> int32 \<times> int32"

definition source_counts :: "('w, 'b) heap \<Rightarrow> topic_info \<Rightarrow> ksource \<Rightarrow> counts \<Rightarrow> counts res" where
  "source_counts h tpInfo s c = (case c of (m, mx, automx) \<Rightarrow>
     (case map_of m (src_topic s) of
        None \<Rightarrow> Panic ''nil pointer dereference''
      | Some cfg \<Rightarrow>
          if tc_AutoCreate cfg then
            (case ao_partitionAs (src_autoOpts s) of
               None \<Rightarrow> Ok c
             | Some p \<Rightarrow>
                 bind_res (info_of (case nb_source (hp_nodes h ! p) of Some ps \<Rightarrow> src_topic ps | None \<Rightarrow> []) tpInfo) (\<lambda>info.
                   let automx' = max_int32 (kt_NumPartitions info) automx
                   in Ok (AList.update (src_topic s) (cfg\<lparr>tc_NumPartitions := automx'\<rparr>) m, mx, automx')))
          else bind_res (info_of (src_topic s) tpInfo) (\<lambda>info.
                 Ok (set_described (src_topic s) info m, max_int32 (kt_NumPartitions info) mx, automx))))"

definition sink_counts :: "topic_info \<Rightarrow> ksink_builder \<Rightarrow> counts \<Rightarrow> counts res" where
  "sink_counts tpInfo s c = (case c of (m, mx, automx) \<Rightarrow>
     (case map_of m (kb_topic s) of
        None \<Rightarrow> Panic ''nil pointer dereference''
      | Some cfg \<Rightarrow>
          if tc_AutoCreate cfg then Ok c
          else bind_res (info_of (kb_topic s) tpInfo) (\<lambda>info. Ok (set_described (kb_topic s) info m, mx, automx))))"

definition node_counts :: "('w, 'b) heap \<Rightarrow> topic_info \<Rightarrow> nat \<Rightarrow> counts \<Rightarrow> counts res" where
  "node_counts h tpInfo a c = (case nb_kind (hp_nodes h ! a) of
      BProc (PSource s) \<Rightarrow> source_counts h tpInfo s c | BSink s \<Rightarrow> sink_counts tpInfo s c | _ \<Rightarrow> Ok c)"

fun foldE :: "('x \<Rightarrow> 's \<Rightarrow> 's res) \<Rightarrow> 'x list \<Rightarrow> 's \<Rightarrow> 's res" where
  "foldE f [] s = Ok s"
| "foldE f (x # xs) s = bind_res (f x s) (foldE f xs)"

definition sub_counts :: "('w, 'b) heap \<Rightarrow> topic_info \<Rightarrow> nat \<Rightarrow> topic_map \<Rightarrow> (topic_map \<times> int32) res" where
  "sub_counts h tpInfo s m =
     bind_res (if sb_kind (hp_subs h ! s) = KindGlobalTable then Ok (m, 0, 0)
         else foldE (node_counts h tpInfo) (sub_Nodes s h) (m, 0, 0))
       (\<lambda>(m, mx, automx). Ok (m, if sint mx < 1 then automx else mx))"

text \<open>The sub topologies one after the other, each with its own setup context.\<close>

fun setup_subs :: "('a, 'b) setup_env \<Rightarrow> topic_info \<Rightarrow> nat list \<Rightarrow> topic_map \<Rightarrow> ('w, 'b, 'a) setup_state
    \<Rightarrow> unit res \<times> ('w, 'b, 'a) setup_state" where
  "setup_subs env tpInfo [] m st = (Ok (), st)"
| "setup_subs env tpInfo (s # ss) m st =
     (case sub_counts (fst st) tpInfo s m of
        Err e \<Rightarrow> (Err e, st)
      | Panic p \<Rightarrow> (Panic p, st)
      | Ok (m', parts) \<Rightarrow>
          bindR (wrapR (''sub topology['' @ sid_name (sub_Id s (fst st)) @ ''] setup error'')
              (sub_Setup env \<lparr>sx_topicMeta = m', sx_partitionCount = parts\<rparr> s))
            (\<lambda>_. setup_subs env tpInfo ss m') st)"

definition tb_setup :: "('a, 'b) setup_env \<Rightarrow> ('w, 'b) topology_builder \<Rightarrow> 'a \<Rightarrow> unit res \<times> ('w, 'b) topology_builder \<times> 'a" where
  "tb_setup env k adm =
     (let m = collect_topics k
      in case fetch_info env m adm of
           (Err e, adm1) \<Rightarrow> (Err e, k, adm1)
         | (Panic p, adm1) \<Rightarrow> (Panic p, k, adm1)
         | (Ok tpInfo, adm1) \<Rightarrow>
             (case apply_info tpInfo m of
                Err e \<Rightarrow> (Err e, k, adm1)
              | Panic p \<Rightarrow> (Panic p, k, adm1)
              | Ok m1 \<Rightarrow> (case setup_subs env tpInfo (tb_subTopologies k) m1 (tb_heap k, adm1) of
                  (r, h, adm2) \<Rightarrow> (r, k\<lparr>tb_heap := h\<rparr>, adm2))))"

definition tb_Build :: "('a, 'b) setup_env \<Rightarrow> ('w, 'b) topology_builder \<Rightarrow> 'a \<Rightarrow> unit res \<times> ('w, 'b) topology_builder \<times> 'a" where
  "tb_Build env k adm = (case tb_setup env k adm of
      (Ok _, k1, adm1) \<Rightarrow> (case wrapR ''config apply failed'' (se_ApplyConfigs env) adm1 of (r, adm2) \<Rightarrow> (r, k1, adm2))
    | (r, k1, adm1) \<Rightarrow> (wrap_res ''TopologyBuilder setup failed'' r, k1, adm1))"

text \<open>\<open>Reset\<close> deletes the changelog topics that are internal and the source topics the application creates.\<close>

definition reset_topics :: "('w, 'b) topology_builder \<Rightarrow> string list" where
  "reset_topics k = (let h = tb_heap k in concat (map (\<lambda>s.
     List.map_filter (\<lambda>(_, b). case ssb_builder b of
         Some cb \<Rightarrow> if ct_internal (cb_topic cb) then Some (ct_Name (cb_topic cb)) else None | None \<Rightarrow> None)
       (sb_stores (hp_subs h ! s)) @
     List.map_filter (\<lambda>a. case nb_source (hp_nodes h ! a) of
         Some src \<Rightarrow> if src_autoCreate src then Some (src_topic src) else None | None \<Rightarrow> None) (sub_Nodes s h))
     (tb_subTopologies k)))"

definition tb_Reset :: "('a, 'b) setup_env \<Rightarrow> ('w, 'b) topology_builder \<Rightarrow> 'a \<Rightarrow> unit res \<times> ('w, 'b) topology_builder \<times> 'a" where
  "tb_Reset env k adm = (case tb_setup env k adm of
      (Ok _, k1, adm1) \<Rightarrow> (case se_DeleteTopics env (reset_topics k1) adm1 of (r, adm2) \<Rightarrow> (r, k1, adm2))
    | (r, k1, adm1) \<Rightarrow> (r, k1, adm1))"

section \<open>The finished topology\<close>

definition kt_StreamTopologies :: "('w, 'b) topology_builder \<Rightarrow> nat list" where
  "kt_StreamTopologies k = filter (\<lambda>s. sb_kind (hp_subs (tb_heap k) ! s) \<in> {KindStream, KindTable}) (tb_subTopologies k)"

definition kt_GlobalTableTopologies :: "('w, 'b) topology_builder \<Rightarrow> nat list" where
  "kt_GlobalTableTopologies k = filter (\<lambda>s. sb_kind (hp_subs (tb_heap k) ! s) = KindGlobalTable) (tb_subTopologies k)"

definition source_with_topic :: "('w, 'b) heap \<Rightarrow> string \<Rightarrow> nat \<Rightarrow> nat option" where
  "source_with_topic h topic s =
     find (\<lambda>a. map_option src_topic (nb_source (hp_nodes h ! a)) = Some topic) (sub_Sources s h)"

definition kt_SourceByTopic :: "string \<Rightarrow> ('w, 'b) topology_builder \<Rightarrow> nat option" where
  "kt_SourceByTopic topic k =
     find (\<lambda>a. map_option src_topic (nb_source (hp_nodes (tb_heap k) ! a)) = Some topic)
       (concat (map (\<lambda>s. sub_Sources s (tb_heap k)) (kt_StreamTopologies k)))"

definition kt_SubTopology :: "sub_id \<Rightarrow> ('w, 'b) topology_builder \<Rightarrow> nat res" where
  "kt_SubTopology i k = (case find (\<lambda>s. sub_Id s (tb_heap k) = i) (tb_subTopologies k) of
      Some s \<Rightarrow> Ok s | None \<Rightarrow> Panic (''Subtopology ['' @ sub_id_String i @ ''] does not exist''))"

definition kt_SubTopologyByTopic :: "string \<Rightarrow> ('w, 'b) topology_builder \<Rightarrow> nat res" where
  "kt_SubTopologyByTopic topic k =
     (case find (\<lambda>s. source_with_topic (tb_heap k) topic s \<noteq> None) (tb_subTopologies k) of
        Some s \<Rightarrow> Ok s | None \<Rightarrow> Panic (''Subtopology with topic ['' @ topic @ ''] does not exist''))"

end
