(* ===== verification/Config.thy ===== *)
theory Config
  imports Node
begin

text \<open>
  \<open>src/streams/config.go\<close> with the client configurations of \<open>src/kafka\<close>: defaults, \<open>setUp\<close> and \<open>validate\<close>. Loggers and metrics
  reporters are left out. The changelog topic name formatter is taken at the application's builder context.
\<close>

section \<open>Client configurations\<close>

datatype isolation_level = ReadUncommitted | ReadCommitted

definition Second :: int where "Second = 1000000000"

record consumer_config =
  cc_Id :: string
  cc_BootstrapServers :: "string list"
  cc_IsolationLevel :: isolation_level
  cc_TopicMetaFetchTimeout :: int
  cc_EOSEnabled :: bool
  cc_MaxPollInterval :: int
  cc_ConsumerMessageChanSize :: int

record group_consumer_config =
  gc_ConsumerConfig :: consumer_config
  gc_GroupId :: string
  gc_Initial :: int64
  gc_CommitAuto :: bool
  gc_CommitInterval :: int

record producer_config =
  pc_Id :: string
  pc_BootstrapServers :: "string list"
  pc_Acks :: int
  pc_TxEnabled :: bool
  pc_TxId :: string
  pc_Idempotent :: bool

definition WaitForAll :: int where "WaitForAll = - 1"

definition cc_Copy :: "consumer_config \<Rightarrow> consumer_config" where
  "cc_Copy conf = \<lparr>cc_Id = cc_Id conf, cc_BootstrapServers = cc_BootstrapServers conf, cc_IsolationLevel = cc_IsolationLevel conf,
     cc_TopicMetaFetchTimeout = cc_TopicMetaFetchTimeout conf, cc_EOSEnabled = cc_EOSEnabled conf,
     cc_MaxPollInterval = cc_MaxPollInterval conf, cc_ConsumerMessageChanSize = cc_ConsumerMessageChanSize conf\<rparr>"

definition gc_Copy :: "group_consumer_config \<Rightarrow> group_consumer_config" where
  "gc_Copy conf = \<lparr>gc_ConsumerConfig = cc_Copy (gc_ConsumerConfig conf), gc_GroupId = gc_GroupId conf, gc_Initial = gc_Initial conf,
     gc_CommitAuto = gc_CommitAuto conf, gc_CommitInterval = gc_CommitInterval conf\<rparr>"

definition pc_Copy :: "producer_config \<Rightarrow> producer_config" where
  "pc_Copy conf = \<lparr>pc_Id = pc_Id conf, pc_BootstrapServers = pc_BootstrapServers conf, pc_Acks = pc_Acks conf,
     pc_TxEnabled = pc_TxEnabled conf, pc_TxId = pc_TxId conf, pc_Idempotent = pc_Idempotent conf\<rparr>"

definition NewPartitionConsumerConfig :: consumer_config where
  "NewPartitionConsumerConfig = \<lparr>cc_Id = [], cc_BootstrapServers = [], cc_IsolationLevel = ReadCommitted,
     cc_TopicMetaFetchTimeout = 10 * Second, cc_EOSEnabled = True, cc_MaxPollInterval = 1 * Second, cc_ConsumerMessageChanSize = 1000\<rparr>"

definition NewConfig :: group_consumer_config where
  "NewConfig = \<lparr>gc_ConsumerConfig = NewPartitionConsumerConfig, gc_GroupId = [], gc_Initial = OffsetLatest, gc_CommitAuto = True,
     gc_CommitInterval = 5 * Second\<rparr>"

definition NewProducerConfig :: producer_config where
  "NewProducerConfig = \<lparr>pc_Id = [], pc_BootstrapServers = [], pc_Acks = WaitForAll, pc_TxEnabled = False, pc_TxId = [],
     pc_Idempotent = False\<rparr>"

section \<open>The application's configuration\<close>

datatype processing_guarantee = AtLeastOnce | ExactlyOnce

type_synonym partitioner = "rec_ctx \<Rightarrow> goval \<Rightarrow> goval \<Rightarrow> int32 \<Rightarrow> int32 res"

text \<open>The failed message handler may add to a log of errors.\<close>

type_synonym failed_handler = "gerror \<Rightarrow> krecord \<Rightarrow> gerror list \<Rightarrow> gerror list"

record stream_config =
  cf_ApplicationId :: string
  cf_BootstrapServers :: "string list"
  cf_StateDir :: string
  cf_ChangelogReplicaCount :: int
  cf_InternalTopicsDefaultReplicaCount :: int
  cf_ConsumerCount :: int
  cf_Guarantee :: processing_guarantee
  cf_FlushInterval :: int
  cf_BufferSize :: int
  cf_FailedMessageHandler :: "failed_handler option"
  cf_Consumer :: group_consumer_config
  cf_Producer :: producer_config
  cf_RepartitionTopicNameFormatter :: "topic_formatter option"
  cf_DefaultPartitioner :: "partitioner option"
  cf_ChangelogTopicNameFormatter :: "(string \<Rightarrow> string \<Rightarrow> string) option"

definition repartition_topic_name :: topic_formatter where
  "repartition_topic_name topic applicationId nodeId = applicationId @ ''-'' @ topic @ ''-repartition''"

definition changelog_topic_name :: "string \<Rightarrow> string \<Rightarrow> string" where
  "changelog_topic_name storeName applicationId = applicationId @ ''-'' @ storeName @ ''-store-changelog''"

definition NewStreamBuilderConfig :: stream_config where
  "NewStreamBuilderConfig = \<lparr>cf_ApplicationId = [], cf_BootstrapServers = [], cf_StateDir = ''storage'',
     cf_ChangelogReplicaCount = 0, cf_InternalTopicsDefaultReplicaCount = 1, cf_ConsumerCount = 1, cf_Guarantee = ExactlyOnce,
     cf_FlushInterval = Second, cf_BufferSize = 90000, cf_FailedMessageHandler = None,
     cf_Consumer = NewConfig\<lparr>gc_ConsumerConfig := (gc_ConsumerConfig NewConfig)\<lparr>cc_IsolationLevel := ReadCommitted\<rparr>,
       gc_Initial := OffsetLatest, gc_CommitAuto := False\<rparr>,
     cf_Producer = NewProducerConfig\<lparr>pc_Acks := WaitForAll, pc_Idempotent := True, pc_TxEnabled := True\<rparr>,
     cf_RepartitionTopicNameFormatter = Some repartition_topic_name, cf_DefaultPartitioner = None,
     cf_ChangelogTopicNameFormatter = Some changelog_topic_name\<rparr>"

definition log_failed :: failed_handler where
  "log_failed err record log = log @ [err]"

definition config_setUp :: "stream_config \<Rightarrow> stream_config" where
  "config_setUp c =
     (let consumer = (cf_Consumer c)\<lparr>gc_GroupId := cf_ApplicationId c,
            gc_ConsumerConfig := (gc_ConsumerConfig (cf_Consumer c))\<lparr>cc_BootstrapServers := cf_BootstrapServers c\<rparr>\<rparr>;
          producer = (cf_Producer c)\<lparr>pc_BootstrapServers := cf_BootstrapServers c\<rparr>;
          eos = (cf_Guarantee c = ExactlyOnce);
          consumer = (if eos then consumer\<lparr>gc_ConsumerConfig := (gc_ConsumerConfig consumer)\<lparr>cc_IsolationLevel := ReadCommitted\<rparr>,
            gc_CommitAuto := False\<rparr> else consumer);
          producer = (if eos then producer\<lparr>pc_Acks := WaitForAll, pc_Idempotent := True, pc_TxEnabled := True\<rparr> else producer)
      in c\<lparr>cf_Consumer := consumer, cf_Producer := producer,
           cf_FailedMessageHandler := (case cf_FailedMessageHandler c of None \<Rightarrow> Some log_failed | h \<Rightarrow> h),
           cf_ChangelogReplicaCount := (if cf_ChangelogReplicaCount c < 1 then cf_InternalTopicsDefaultReplicaCount c
             else cf_ChangelogReplicaCount c)\<rparr>)"

definition config_validate :: "stream_config \<Rightarrow> unit res" where
  "config_validate c =
     (let eos = (cf_Guarantee c = ExactlyOnce); fail = (\<lambda>msg. Err (err_New msg)) in
      if cf_ApplicationId c = [] then fail ''[ApplicationId] cannot be empty''
      else if length (cf_BootstrapServers c) < 1 then fail ''[BootstrapServers] cannot be empty''
      else if cf_ChangelogReplicaCount c < 1 then fail ''[Store.Changelog.ReplicaCount] needs to be greater than zero''
      else if cf_InternalTopicsDefaultReplicaCount c < 1 then
        fail ''[InternalTopicsDefaultReplicaCount] needs to be greater than zero''
      else if eos \<and> cc_IsolationLevel (gc_ConsumerConfig (cf_Consumer c)) \<noteq> ReadCommitted then
        fail ''[GroupConsumer.IsolationLevel] needs to be ReadCommitted when Processing.Guarantee == ExactlyOnce''
      else if eos \<and> pc_Acks (cf_Producer c) \<noteq> WaitForAll then
        fail ''[Producer.Acks] needs to be WaitForAll when Processing.Guarantee == ExactlyOnce''
      else if eos \<and> \<not> pc_Idempotent (cf_Producer c) then
        fail ''[Producer.Idempotent] needs to be true when Processing.Guarantee == ExactlyOnce''
      else if eos \<and> \<not> pc_TxEnabled (cf_Producer c) then
        fail ''[Producer.Transactional.Enabled] needs to be true when Processing.Guarantee == ExactlyOnce''
      else if eos \<and> gc_CommitAuto (cf_Consumer c) then
        fail ''[GroupConsumer.Offsets.Commit.Auto] needs to be false when Processing.Guarantee == ExactlyOnce''
      else if cf_StateDir c = [] then fail ''[Store.StateDir] cannot be empty''
      else Ok ())"



end
