(* ===== verification/Dsl_Options.thy ===== *)
theory Dsl_Options
  imports Topology_Builder Config
begin

text \<open>
  The options of the stream API: \<open>src/streams/topic_opts.go\<close>, \<open>repartition_opts.go\<close>, \<open>dsl_options.go\<close>, the options and constructors
  of \<open>ksource.go\<close> and \<open>ksink_builder.go\<close>, and those of tables and aggregations in \<open>kstream.go\<close>. An option is a function on
  the record it configures; a list of options is applied in order. Loggers are left out.
\<close>

definition apply_opts :: "('a \<Rightarrow> 'a) list \<Rightarrow> 'a \<Rightarrow> 'a" where
  "apply_opts opts = fold (\<lambda>opt a. opt a) opts"

lemma apply_opts_simps [simp]:
  "apply_opts [] a = a" "apply_opts (f # fs) a = apply_opts fs (f a)" "apply_opts (fs @ gs) a = apply_opts gs (apply_opts fs a)"
  by (simp_all add: apply_opts_def)

section \<open>Topics created by the application\<close>

definition zero_auto_opts :: auto_topic_opts where
  "zero_auto_opts = \<lparr>ao_nameFormatter = None, ao_partitionAs = None, ao_partitionCount = 0, ao_replicaCount = 0,
     ao_configEntries = Map.empty\<rparr>"

type_synonym topic_opt = "auto_topic_opts \<Rightarrow> auto_topic_opts"

definition PartitionAs :: "nat \<Rightarrow> topic_opt" where
  "PartitionAs src o' = o'\<lparr>ao_partitionAs := Some src\<rparr>"

definition WithPartitionCount :: "int32 \<Rightarrow> topic_opt" where
  "WithPartitionCount count o' = o'\<lparr>ao_partitionCount := count\<rparr>"

definition WithReplicaCount :: "int \<Rightarrow> topic_opt" where
  "WithReplicaCount count o' = o'\<lparr>ao_replicaCount := count\<rparr>"

definition WithTopicConfigs :: "(string \<rightharpoonup> string) \<Rightarrow> topic_opt" where
  "WithTopicConfigs configs o' = o'\<lparr>ao_configEntries := configs\<rparr>"

section \<open>Sources\<close>

type_synonym source_opt = "ksource \<Rightarrow> ksource"

definition ConsumeWithContextParamExtractors :: "(krecord \<Rightarrow> string \<times> goval) list \<Rightarrow> source_opt" where
  "ConsumeWithContextParamExtractors fn s = s\<lparr>src_binders := fn\<rparr>"

definition ConsumeWithAutoTopicCreateEnabled :: "topic_opt list \<Rightarrow> source_opt" where
  "ConsumeWithAutoTopicCreateEnabled options s = s\<lparr>src_autoCreate := True, src_autoOpts := apply_opts options (src_autoOpts s)\<rparr>"

definition ConsumeWithTopicNameFormatterFunc :: "topic_formatter option \<Rightarrow> source_opt" where
  "ConsumeWithTopicNameFormatterFunc fn s = s\<lparr>src_formatter := fn\<rparr>"

definition ConsumeWithOffset :: "int64 \<Rightarrow> source_opt" where
  "ConsumeWithOffset offset s = s\<lparr>src_offsetReset := offset\<rparr>"

definition ConsumeWithKeyEncoder :: "encoder option \<Rightarrow> source_opt" where
  "ConsumeWithKeyEncoder enc s = s\<lparr>src_Key := enc\<rparr>"

definition ConsumeWithValEncoder :: "encoder option \<Rightarrow> source_opt" where
  "ConsumeWithValEncoder enc s = s\<lparr>src_Value := enc\<rparr>"

definition markAsInternal :: source_opt where
  "markAsInternal s = s\<lparr>src_internal := True\<rparr>"

definition markAsGlobal :: source_opt where
  "markAsGlobal s = s\<lparr>src_global := True\<rparr>"

definition NewKSource :: "string \<Rightarrow> source_opt list \<Rightarrow> ksource" where
  "NewKSource topic opts = apply_opts opts \<lparr>src_Key = None, src_Value = None, src_topic = topic, src_offsetReset = OffsetStored,
     src_coPartitionedWith = None, src_binders = [], src_configs_name = [], src_configs = zero_topic_config,
     src_autoCreate = False, src_autoOpts = zero_auto_opts, src_internal = False, src_global = False, src_formatter = None\<rparr>"

section \<open>Sinks\<close>

type_synonym sink_opt = "ksink_builder \<Rightarrow> ksink_builder"

definition ProduceWithPartitioner :: "partitioner \<Rightarrow> sink_opt" where
  "ProduceWithPartitioner p s = s\<lparr>kb_partitioner := Some p\<rparr>"

definition ProduceWithHeadersExtractor :: "(rec_ctx \<Rightarrow> goval \<Rightarrow> goval \<Rightarrow> record_header list) \<Rightarrow> sink_opt" where
  "ProduceWithHeadersExtractor h s = s\<lparr>kb_headerExtractor := h\<rparr>"

definition ProduceWithTombstoneFilter :: "(rec_ctx \<Rightarrow> goval \<Rightarrow> goval \<Rightarrow> bool) \<Rightarrow> sink_opt" where
  "ProduceWithTombstoneFilter f s = s\<lparr>kb_tombstoneFiler := f\<rparr>"

definition ProduceWithTopicNameFormatter :: "topic_formatter option \<Rightarrow> sink_opt" where
  "ProduceWithTopicNameFormatter f s = s\<lparr>kb_formatter := f\<rparr>"

definition ProduceWithKeyEncoder :: "encoder option \<Rightarrow> sink_opt" where
  "ProduceWithKeyEncoder enc s = s\<lparr>kb_Key := enc\<rparr>"

definition ProduceWithValEncoder :: "encoder option \<Rightarrow> sink_opt" where
  "ProduceWithValEncoder enc s = s\<lparr>kb_Value := enc\<rparr>"

definition NewKSinkBuilder :: "string \<Rightarrow> sink_opt list \<Rightarrow> ksink_builder" where
  "NewKSinkBuilder topic options = apply_opts options \<lparr>kb_Key = None, kb_Value = None, kb_formatter = None, kb_topic = topic,
     kb_numPartitions = 0, kb_autoCreate = False, kb_autoOpts = zero_auto_opts, kb_partitioner = None,
     kb_headerExtractor = (\<lambda>ctx key val. kr_Headers (RecordFromContext ctx)), kb_tombstoneFiler = (\<lambda>ctx key val. False)\<rparr>"

section \<open>Repartitioning\<close>

record repart_opts =
  rp_topicName :: string
  rp_topicNameFormatter :: "topic_formatter option"
  rp_dueTo_node :: "nat option"
  rp_dueTo_source :: "nat option"
  rp_sourceOpts :: "source_opt list"
  rp_sinkOpts :: "sink_opt list"

type_synonym repart_opt = "repart_opts \<Rightarrow> repart_opts"

definition RePartitionAs :: "string \<Rightarrow> repart_opt" where
  "RePartitionAs topic r = r\<lparr>rp_topicName := topic\<rparr>"

definition RePartitionWithKeyEncoder :: "encoder option \<Rightarrow> repart_opt" where
  "RePartitionWithKeyEncoder enc r = r\<lparr>rp_sinkOpts := rp_sinkOpts r @ [ProduceWithKeyEncoder enc],
     rp_sourceOpts := rp_sourceOpts r @ [ConsumeWithKeyEncoder enc]\<rparr>"

definition RePartitionWithValEncoder :: "encoder option \<Rightarrow> repart_opt" where
  "RePartitionWithValEncoder enc r = r\<lparr>rp_sinkOpts := rp_sinkOpts r @ [ProduceWithValEncoder enc],
     rp_sourceOpts := rp_sourceOpts r @ [ConsumeWithValEncoder enc]\<rparr>"

definition RePartitionWithPartitioner :: "partitioner \<Rightarrow> repart_opt" where
  "RePartitionWithPartitioner p r = r\<lparr>rp_sinkOpts := rp_sinkOpts r @ [ProduceWithPartitioner p]\<rparr>"

definition rePartitionedDueTo :: "nat \<Rightarrow> nat \<Rightarrow> repart_opt" where
  "rePartitionedDueTo node source r = r\<lparr>rp_dueTo_node := Some node, rp_dueTo_source := Some source\<rparr>"

definition rePartitionedWithSourceOpts :: "source_opt list \<Rightarrow> repart_opt" where
  "rePartitionedWithSourceOpts opts r = r\<lparr>rp_sourceOpts := rp_sourceOpts r @ opts\<rparr>"

definition RePartitionWithTopicNameFormatter :: "topic_formatter option \<Rightarrow> repart_opt" where
  "RePartitionWithTopicNameFormatter f r = r\<lparr>rp_topicNameFormatter := f\<rparr>"

text \<open>The options kept with a stream whose key has changed; an empty list stands for a nil slice.\<close>

record re_partitioned =
  rpd_must :: "repart_opt list"
  rpd_mayBe :: "repart_opt list"

definition rePartitioned_Apply :: "re_partitioned \<Rightarrow> repart_opt list" where
  "rePartitioned_Apply rp = (if rpd_mayBe rp = [] then [] else rpd_mayBe rp @ rpd_must rp)"

section \<open>Nodes, joins and tables\<close>

record stream_options =
  sto_nodeName :: string
  sto_disableRepartition :: bool

type_synonym stream_option = "stream_options \<Rightarrow> stream_options"

definition Named :: "string \<Rightarrow> stream_option" where
  "Named name o' = o'\<lparr>sto_nodeName := name\<rparr>"

definition DisableRepartition :: stream_option where
  "DisableRepartition o' = o'\<lparr>sto_disableRepartition := True\<rparr>"

text \<open>The node with its name, and the options.\<close>

definition applyNodeOptions :: "'w builder_kind \<Rightarrow> stream_option list \<Rightarrow> 'w node_builder \<times> stream_options" where
  "applyNodeOptions nd options =
     (let opts = apply_opts options \<lparr>sto_nodeName = [], sto_disableRepartition = False\<rparr>
      in (\<lparr>nb_id = NewNodeId 0 [] [], nb_name = sto_nodeName opts, nb_kind = nd\<rparr>, opts))"

record 'w join_options =
  jo_streamOptions :: "stream_option list"
  jo_leftLookupFunc :: "'w lookup_fun option"
  jo_rightLookupFunc :: "'w lookup_fun option"

type_synonym 'w join_option = "'w join_options \<Rightarrow> 'w join_options"

definition JoinWithStreamOptions :: "stream_option list \<Rightarrow> 'w join_option" where
  "JoinWithStreamOptions opts o' = o'\<lparr>jo_streamOptions := jo_streamOptions o' @ opts\<rparr>"

definition JoinWithValueLookupFunc :: "'w lookup_fun \<Rightarrow> 'w join_option" where
  "JoinWithValueLookupFunc fn o' = o'\<lparr>jo_rightLookupFunc := Some fn\<rparr>"

definition JoinWithLeftValLookupFunc :: "'w lookup_fun \<Rightarrow> 'w join_option" where
  "JoinWithLeftValLookupFunc fn o' = o'\<lparr>jo_leftLookupFunc := Some fn\<rparr>"

definition JoinWithRightValLookupFunc :: "'w lookup_fun \<Rightarrow> 'w join_option" where
  "JoinWithRightValLookupFunc fn o' = o'\<lparr>jo_rightLookupFunc := Some fn\<rparr>"

definition join_opts :: "'w join_option list \<Rightarrow> 'w join_options" where
  "join_opts opts = apply_opts opts \<lparr>jo_streamOptions = [], jo_leftLookupFunc = None, jo_rightLookupFunc = None\<rparr>"

record 'b table_opts =
  to_streamOpts :: "stream_option list"
  to_storeBuilderOpts :: "'b ss_option list"
  to_key :: "encoder option"
  to_val :: "encoder option"
  to_useSourceAsChangelog :: bool

type_synonym 'b table_opt = "'b table_opts \<Rightarrow> 'b table_opts"

definition newTableOptsApplier :: "stream_config \<Rightarrow> 'b table_opts" where
  "newTableOptsApplier config = \<lparr>to_streamOpts = [],
     to_storeBuilderOpts = [WithChangelogOptions [ChangelogWithTopicReplicaCount (cf_ChangelogReplicaCount config)]],
     to_key = None, to_val = None, to_useSourceAsChangelog = False\<rparr>"

definition TableWithStoreOptions :: "'b ss_option list \<Rightarrow> 'b table_opt" where
  "TableWithStoreOptions options o' = o'\<lparr>to_storeBuilderOpts := to_storeBuilderOpts o' @ options\<rparr>"

definition TableWithStreamOptions :: "stream_option list \<Rightarrow> 'b table_opt" where
  "TableWithStreamOptions options o' = o'\<lparr>to_streamOpts := to_streamOpts o' @ options\<rparr>"

definition TableWithSourceAsChangelog :: "'b table_opt" where
  "TableWithSourceAsChangelog o' = o'\<lparr>to_useSourceAsChangelog := True\<rparr>"

definition TableWithKeyEncoder :: "encoder option \<Rightarrow> 'b table_opt" where
  "TableWithKeyEncoder enc o' = o'\<lparr>to_key := enc\<rparr>"

definition TableWithValEncoder :: "encoder option \<Rightarrow> 'b table_opt" where
  "TableWithValEncoder enc o' = o'\<lparr>to_val := enc\<rparr>"

record 'b aggregate_opts =
  ag_streamOpts :: "stream_option list"
  ag_storeBuilderOpts :: "'b ss_option list"
  ag_key :: "encoder option"
  ag_val :: "encoder option"

type_synonym 'b aggregate_opt = "'b aggregate_opts \<Rightarrow> 'b aggregate_opts"

definition AggregateWithKeyEncoder :: "encoder option \<Rightarrow> 'b aggregate_opt" where
  "AggregateWithKeyEncoder enc o' = o'\<lparr>ag_key := enc\<rparr>"

definition AggregateWithValEncoder :: "encoder option \<Rightarrow> 'b aggregate_opt" where
  "AggregateWithValEncoder enc o' = o'\<lparr>ag_val := enc\<rparr>"

text \<open>The store options replace those that are there, among them the replica count of the changelog.\<close>

definition AggregateWithStoreOptions :: "'b ss_option list \<Rightarrow> 'b aggregate_opt" where
  "AggregateWithStoreOptions options o' = o'\<lparr>ag_storeBuilderOpts := options\<rparr>"

definition AggregateWithStreamOptions :: "stream_option list \<Rightarrow> 'b aggregate_opt" where
  "AggregateWithStreamOptions streamOptions o' = o'\<lparr>ag_streamOpts := streamOptions\<rparr>"

record dsl_options =
  do_kSinkOptions :: "sink_opt list"
  do_kSourceOptions :: "source_opt list"

type_synonym dsl_option = "dsl_options \<Rightarrow> dsl_options"

definition DslOptsSinkOptions :: "sink_opt list \<Rightarrow> dsl_option" where
  "DslOptsSinkOptions opts o' = o'\<lparr>do_kSinkOptions := do_kSinkOptions o' @ opts\<rparr>"

definition DslWithSinkOptions :: "sink_opt list \<Rightarrow> dsl_option" where
  "DslWithSinkOptions opts o' = o'\<lparr>do_kSinkOptions := do_kSinkOptions o' @ opts\<rparr>"

definition DslOptsSourceOptions :: "source_opt list \<Rightarrow> dsl_option" where
  "DslOptsSourceOptions opts o' = o'\<lparr>do_kSourceOptions := do_kSourceOptions o' @ opts\<rparr>"

end
