(* ===== verification/Stream_DSL.thy ===== *)
theory Stream_DSL
  imports Dsl_Options
begin

text \<open>
  The stream API: \<open>src/streams/kstream.go\<close>, \<open>stream.go\<close>, \<open>ktable_stream.go\<close>, \<open>global_table_stream.go\<close> and the part of
  \<open>stream_builder.go\<close> that creates streams. A stream is an object that handles point to: the sub topology it is in, its node, its
  source and what is known about repartitioning. The objects live in a heap beside that of the builders, since merging two
  streams changes the object of one of them and the repartition options are shared by all streams derived from one.
\<close>

section \<open>Streams\<close>

record kstream =
  str_stp :: nat
  str_source :: nat
  str_root :: nat
  str_rePartitioned :: bool
  str_repartitionOpts :: "nat option"
  str_key :: "encoder option"
  str_val :: "encoder option"

record ('w, 'b) dsl =
  dsl_tb :: "('w, 'b) topology_builder"
  dsl_config :: stream_config
  dsl_backend :: "string \<Rightarrow> 'b res"
  dsl_streams :: "kstream list"
  dsl_reparts :: "re_partitioned list"

definition dsl_heap :: "('w, 'b) dsl \<Rightarrow> ('w, 'b) heap" where
  "dsl_heap st = tb_heap (dsl_tb st)"

definition on_builders :: "(('w, 'b) heap \<Rightarrow> ('w, 'b) heap) \<Rightarrow> ('w, 'b) dsl \<Rightarrow> ('w, 'b) dsl" where
  "on_builders f st = st\<lparr>dsl_tb := on_heap f (dsl_tb st)\<rparr>"

definition stream_at :: "nat \<Rightarrow> ('w, 'b) dsl \<Rightarrow> kstream" where
  "stream_at k st = dsl_streams st ! k"

definition upd_stream :: "nat \<Rightarrow> (kstream \<Rightarrow> kstream) \<Rightarrow> ('w, 'b) dsl \<Rightarrow> ('w, 'b) dsl" where
  "upd_stream k f st = st\<lparr>dsl_streams := (dsl_streams st)[k := f (stream_at k st)]\<rparr>"

definition new_stream :: "kstream \<Rightarrow> ('w, 'b) dsl \<Rightarrow> nat \<times> ('w, 'b) dsl" where
  "new_stream s st = (length (dsl_streams st), st\<lparr>dsl_streams := dsl_streams st @ [s]\<rparr>)"

definition setSubTopology :: "nat \<Rightarrow> nat \<Rightarrow> ('w, 'b) dsl \<Rightarrow> ('w, 'b) dsl" where
  "setSubTopology k s = upd_stream k (\<lambda>x. x\<lparr>str_stp := s\<rparr>)"

definition source_of :: "nat \<Rightarrow> ('w, 'b) dsl \<Rightarrow> ksource option" where
  "source_of k st = nb_source (hp_nodes (dsl_heap st) ! str_source (stream_at k st))"

definition keyEncoder :: "nat \<Rightarrow> ('w, 'b) dsl \<Rightarrow> encoder option" where
  "keyEncoder k st = (case str_key (stream_at k st) of Some e \<Rightarrow> Some e
     | None \<Rightarrow> (case source_of k st of Some s \<Rightarrow> src_Key s | None \<Rightarrow> None))"

definition valEncoder :: "nat \<Rightarrow> ('w, 'b) dsl \<Rightarrow> encoder option" where
  "valEncoder k st = (case str_val (stream_at k st) of Some e \<Rightarrow> Some e
     | None \<Rightarrow> (case source_of k st of Some s \<Rightarrow> src_Value s | None \<Rightarrow> None))"

text \<open>Creating a node builder below another one in the sub topology of a stream.\<close>

definition add_below :: "nat \<Rightarrow> nat \<Rightarrow> 'w node_builder \<Rightarrow> ('w, 'b) dsl \<Rightarrow> nat \<times> ('w, 'b) dsl" where
  "add_below k parent nb st =
     (case new_node nb (dsl_heap st) of (a, h) \<Rightarrow>
        (a, on_builders (\<lambda>_. sub_AddNodeWithEdge (str_stp (stream_at k st)) parent a h) st))"

definition newChildStream :: "nat \<Rightarrow> nat \<Rightarrow> (kstream \<Rightarrow> kstream) list \<Rightarrow> ('w, 'b) dsl \<Rightarrow> nat \<times> ('w, 'b) dsl" where
  "newChildStream k node opts st =
     new_stream (apply_opts opts ((stream_at k st)\<lparr>str_root := node, str_key := keyEncoder k st, str_val := valEncoder k st\<rparr>)) st"

definition child_of :: "nat \<Rightarrow> 'w builder_kind \<Rightarrow> stream_option list \<Rightarrow> ('w, 'b) dsl \<Rightarrow> nat \<times> ('w, 'b) dsl" where
  "child_of k p opts st =
     (case add_below k (str_root (stream_at k st)) (fst (applyNodeOptions p opts)) st of (a, st1) \<Rightarrow> newChildStream k a [] st1)"

section \<open>Repartitioning options\<close>

definition maybeRepartitioned :: "nat \<Rightarrow> repart_opt list \<Rightarrow> ('w, 'b) dsl \<Rightarrow> ('w, 'b) dsl" where
  "maybeRepartitioned k opts st =
     (let (r, st1) = (case str_repartitionOpts (stream_at k st) of
            Some r \<Rightarrow> (r, st)
          | None \<Rightarrow> (length (dsl_reparts st), upd_stream k (\<lambda>x. x\<lparr>str_repartitionOpts := Some (length (dsl_reparts st))\<rparr>)
              (st\<lparr>dsl_reparts := dsl_reparts st @ [\<lparr>rpd_must = [], rpd_mayBe = []\<rparr>]\<rparr>)));
          rp = dsl_reparts st1 ! r;
          auto = rePartitionedWithSourceOpts [ConsumeWithAutoTopicCreateEnabled
            [WithReplicaCount (cf_InternalTopicsDefaultReplicaCount (dsl_config st))]]
      in st1\<lparr>dsl_reparts := (dsl_reparts st1)[r := rp\<lparr>rpd_mayBe := rpd_mayBe rp @ [auto] @ opts\<rparr>]\<rparr>)"

definition marked_opts :: "nat \<Rightarrow> ('w, 'b) dsl \<Rightarrow> re_partitioned option" where
  "marked_opts k st = map_option (nth (dsl_reparts st)) (str_repartitionOpts (stream_at k st))"

definition markedForRepartition :: "nat \<Rightarrow> ('w, 'b) dsl \<Rightarrow> bool" where
  "markedForRepartition k st = (case marked_opts k st of None \<Rightarrow> False | Some rp \<Rightarrow> rpd_must rp \<noteq> [] \<or> rpd_mayBe rp \<noteq> [])"

definition as_source :: "nat \<Rightarrow> ('w, 'b) dsl \<Rightarrow> repart_opt" where
  "as_source k st = rePartitionedWithSourceOpts [ConsumeWithAutoTopicCreateEnabled [PartitionAs (str_source (stream_at k st))]]"

section \<open>Stateless operations\<close>

definition str_NewProcessor :: "nat \<Rightarrow> 'w processor \<Rightarrow> stream_option list \<Rightarrow> ('w, 'b) dsl \<Rightarrow> nat \<times> ('w, 'b) dsl" where
  "str_NewProcessor k node opts = child_of k (BProc node) opts"

definition str_TransformValues :: "nat \<Rightarrow> 'w processor \<Rightarrow> ('w, 'b) dsl \<Rightarrow> nat \<times> ('w, 'b) dsl" where
  "str_TransformValues k node = child_of k (BProc node) []"

definition str_MapValue :: "nat \<Rightarrow> ('w, goval) user_fun \<Rightarrow> stream_option list \<Rightarrow> ('w, 'b) dsl \<Rightarrow> nat \<times> ('w, 'b) dsl" where
  "str_MapValue k f opts = child_of k (BProc (PValueMapper f)) opts"

definition str_Filter :: "nat \<Rightarrow> ('w, bool) user_fun \<Rightarrow> stream_option list \<Rightarrow> ('w, 'b) dsl \<Rightarrow> nat \<times> ('w, 'b) dsl" where
  "str_Filter k f opts = child_of k (BProc (PFilter f)) opts"

definition str_Each :: "nat \<Rightarrow> (rec_ctx \<Rightarrow> goval \<Rightarrow> goval \<Rightarrow> 'w \<Rightarrow> 'w) \<Rightarrow> stream_option list \<Rightarrow> ('w, 'b) dsl \<Rightarrow> nat \<times> ('w, 'b) dsl" where
  "str_Each k f opts = child_of k (BProc (PEach f)) opts"

definition str_FlatMapValues :: "nat \<Rightarrow> ('w, goval list) user_fun \<Rightarrow> stream_option list \<Rightarrow> ('w, 'b) dsl \<Rightarrow> nat \<times> ('w, 'b) dsl" where
  "str_FlatMapValues k f opts = child_of k (BProc (PFlatMapValues f)) opts"

text \<open>The operations that may change the key.\<close>

definition rekeyed :: "nat \<Rightarrow> 'w processor \<Rightarrow> stream_option list \<Rightarrow> ('w, 'b) dsl \<Rightarrow> nat \<times> ('w, 'b) dsl" where
  "rekeyed k node opts st =
     (case child_of k (BProc node) opts st of (c, st1) \<Rightarrow>
        (c, if sto_disableRepartition (snd (applyNodeOptions (BProc node) opts)) then st1
            else maybeRepartitioned c [as_source k st] st1))"

definition str_Map :: "nat \<Rightarrow> ('w, goval \<times> goval) user_fun \<Rightarrow> stream_option list \<Rightarrow> ('w, 'b) dsl \<Rightarrow> nat \<times> ('w, 'b) dsl" where
  "str_Map k f opts = rekeyed k (PMap f) opts"

definition str_SelectKey :: "nat \<Rightarrow> ('w, goval) user_fun \<Rightarrow> stream_option list \<Rightarrow> ('w, 'b) dsl \<Rightarrow> nat \<times> ('w, 'b) dsl" where
  "str_SelectKey k f opts = rekeyed k (PKeySelector f) opts"

definition str_FlatMap :: "nat \<Rightarrow> ('w, (goval \<times> goval) list) user_fun \<Rightarrow> stream_option list \<Rightarrow> ('w, 'b) dsl \<Rightarrow> nat \<times> ('w, 'b) dsl" where
  "str_FlatMap k f opts st =
     (case child_of k (BProc (PFlatMap f)) opts st of (c, st1) \<Rightarrow>
        (c, maybeRepartitioned c [rePartitionedDueTo (str_root (stream_at c st1)) (str_source (stream_at k st)), as_source k st] st1))"

section \<open>Branching\<close>

fun add_branches :: "nat \<Rightarrow> nat \<Rightarrow> (string \<times> ('w, bool) user_fun) list \<Rightarrow> ('w, 'b) dsl \<Rightarrow> nat list \<times> ('w, 'b) dsl" where
  "add_branches k br [] st = ([], st)"
| "add_branches k br ((name, predicate) # branches) st =
     (case add_below k br (fst (applyNodeOptions (BProc (PBranchChild name predicate)) [])) st of (a, st1) \<Rightarrow>
       (case newChildStream k a [] st1 of (c, st2) \<Rightarrow>
         (case add_branches k br branches st2 of (cs, st3) \<Rightarrow> (c # cs, st3))))"

definition str_Branch :: "nat \<Rightarrow> (string \<times> ('w, bool) user_fun) list \<Rightarrow> ('w, 'b) dsl \<Rightarrow> nat list \<times> ('w, 'b) dsl" where
  "str_Branch k branches st =
     (case add_below k (str_root (stream_at k st)) (fst (applyNodeOptions (BProc PBranch) [])) st of (br, st1) \<Rightarrow>
        add_branches k br branches st1)"

record branched_stream =
  brs_parentStream :: nat
  brs_parent :: nat
  brs_branches :: "(string \<times> nat) list"

definition str_Split :: "nat \<Rightarrow> stream_option list \<Rightarrow> ('w, 'b) dsl \<Rightarrow> branched_stream \<times> ('w, 'b) dsl" where
  "str_Split k opts st =
     (case add_below k (str_root (stream_at k st)) (fst (applyNodeOptions (BProc PBranch) opts)) st of (br, st1) \<Rightarrow>
        (\<lparr>brs_parentStream = k, brs_parent = br, brs_branches = []\<rparr>, st1))"

definition brs_New :: "string \<Rightarrow> ('w, bool) user_fun \<Rightarrow> branched_stream \<Rightarrow> ('w, 'b) dsl \<Rightarrow> nat \<times> branched_stream \<times> ('w, 'b) dsl" where
  "brs_New name predicate brs st =
     (case add_below (brs_parentStream brs) (brs_parent brs) (fst (applyNodeOptions (BProc (PBranchChild name predicate)) [])) st of
        (a, st1) \<Rightarrow> (case newChildStream (brs_parentStream brs) a [] st1 of
          (c, st2) \<Rightarrow> (c, brs\<lparr>brs_branches := brs_branches brs @ [(name, c)]\<rparr>, st2)))"

definition brs_Branch :: "string \<Rightarrow> branched_stream \<Rightarrow> nat option" where
  "brs_Branch name brs = map_of (brs_branches brs) name"

section \<open>Sinks, intermediate topics, repartitioning\<close>

definition str_To :: "nat \<Rightarrow> string \<Rightarrow> sink_opt list \<Rightarrow> ('w, 'b) dsl \<Rightarrow> ('w, 'b) dsl" where
  "str_To k topic options st =
     (let opts = [ProduceWithKeyEncoder (keyEncoder k st), ProduceWithValEncoder (valEncoder k st)] @
            (case cf_DefaultPartitioner (dsl_config st) of None \<Rightarrow> [] | Some p \<Rightarrow> [ProduceWithPartitioner p]);
          sink = NewKSinkBuilder topic (opts @ options)
      in snd (add_below k (str_root (stream_at k st)) \<lparr>nb_id = NewNodeId 0 [] [], nb_name = [], nb_kind = BSink sink\<rparr> st))"

text \<open>A new sub topology with a source in it.\<close>

definition new_sub :: "sub_kind \<Rightarrow> ksource \<Rightarrow> ('w, 'b) dsl \<Rightarrow> nat \<times> nat \<times> ('w, 'b) dsl" where
  "new_sub kind source st =
     (case NewKSubTopologyBuilder kind (dsl_tb st) of (s, tb) \<Rightarrow>
       (case new_node \<lparr>nb_id = NewNodeId 0 [] [], nb_name = [], nb_kind = BProc (PSource source)\<rparr> (tb_heap tb) of (a, h) \<Rightarrow>
         (s, a, st\<lparr>dsl_tb := on_heap (\<lambda>_. sub_AddSource s a h) tb\<rparr>)))"

definition str_Through :: "nat \<Rightarrow> string \<Rightarrow> dsl_option list \<Rightarrow> ('w, 'b) dsl \<Rightarrow> nat \<times> ('w, 'b) dsl" where
  "str_Through k topic options st =
     (let dslOpts = apply_opts options \<lparr>do_kSinkOptions = [], do_kSourceOptions = []\<rparr>;
          st1 = str_To k topic (do_kSinkOptions dslOpts) st;
          source = NewKSource topic (do_kSourceOptions dslOpts)
      in case new_sub KindStream source st1 of (s, a, st2) \<Rightarrow>
           new_stream \<lparr>str_stp = s, str_source = a, str_root = a, str_rePartitioned = False, str_repartitionOpts = None,
             str_key = src_Key source, str_val = src_Value source\<rparr> st2)"

text \<open>\<open>String\<close> of a node, and the panic of a repartitioning that was given no topic.\<close>

definition node_String :: "'w node_builder \<Rightarrow> string" where
  "node_String n = (if nb_name n \<noteq> [] then nb_name n
     else ni_subTopologyID (nb_id n) @ ''-'' @ node_id_String (nb_id n))"

definition type_Name :: "'w builder_kind \<Rightarrow> string" where
  "type_Name n = (case n of BSink s \<Rightarrow> ''sink'' | BProc p \<Rightarrow> (case p of
      PMap f \<Rightarrow> ''map'' | PValueMapper f \<Rightarrow> ''value_mapper'' | PKeySelector f \<Rightarrow> ''key_selector'' | PFilter f \<Rightarrow> ''filter''
    | PEach f \<Rightarrow> ''for'' | PFlatMap f \<Rightarrow> ''flatmap'' | PFlatMapValues f \<Rightarrow> ''flatmap_values'' | PMerger \<Rightarrow> ''merger''
    | PBranch \<Rightarrow> ''splitter'' | PBranchChild nm f \<Rightarrow> ''branch'' | PStreamConverter \<Rightarrow> ''to_stream'' | PTableConverter s \<Rightarrow> ''to_table''
    | PAggregator f s \<Rightarrow> ''aggregator'' | PStreamJoiner s \<Rightarrow> ''joiner'' | PWindowJoiner s \<Rightarrow> ''joiner''
    | PGlobalTableJoiner s \<Rightarrow> ''GTableJoiner'' | PGlobalTable s \<Rightarrow> ''global_table_processor'' | PSource s \<Rightarrow> ''kSource''
    | PSink s \<Rightarrow> ''sink''))"

definition repartition_panic :: "nat \<Rightarrow> repart_opts \<Rightarrow> ('w, 'b) dsl \<Rightarrow> string" where
  "repartition_panic k rp st = (let node = (\<lambda>a. hp_nodes (dsl_heap st) ! a) in case rp_dueTo_node rp of
      None \<Rightarrow> ''nil pointer dereference''
    | Some a \<Rightarrow> ''Stream ('' @ node_String (node (str_root (stream_at k st))) @ '') should repartition due to '' @
        type_Name (nb_kind (node a)) @ ''('' @ node_String (node a) @ '')'')"

definition repartition_opts :: "nat \<Rightarrow> string \<Rightarrow> repart_opt list \<Rightarrow> ('w, 'b) dsl \<Rightarrow> repart_opts" where
  "repartition_opts k topic opts st =
     (let opts1 = (case marked_opts k st of
            Some rp \<Rightarrow> if markedForRepartition k st then rePartitioned_Apply rp @ opts else opts | None \<Rightarrow> opts);
          opts2 = (if topic \<noteq> [] then opts1 @ [RePartitionAs topic] else opts1)
      in apply_opts opts2 \<lparr>rp_topicName = [], rp_topicNameFormatter = cf_RepartitionTopicNameFormatter (dsl_config st),
           rp_dueTo_node = None, rp_dueTo_source = None,
           rp_sourceOpts = [ConsumeWithKeyEncoder (keyEncoder k st), ConsumeWithValEncoder (valEncoder k st),
             ConsumeWithAutoTopicCreateEnabled [WithReplicaCount (cf_InternalTopicsDefaultReplicaCount (dsl_config st)),
               PartitionAs (str_source (stream_at k st))]],
           rp_sinkOpts = [ProduceWithKeyEncoder (keyEncoder k st), ProduceWithValEncoder (valEncoder k st)]\<rparr>)"

definition str_Repartition :: "nat \<Rightarrow> string \<Rightarrow> repart_opt list \<Rightarrow> ('w, 'b) dsl \<Rightarrow> nat res \<times> ('w, 'b) dsl" where
  "str_Repartition k topic opts st =
     (let rp = repartition_opts k topic opts st in
      if rp_topicName rp = [] then (Panic (repartition_panic k rp st), st)
      else
        (let srcOpts = [ConsumeWithTopicNameFormatterFunc (rp_topicNameFormatter rp), markAsInternal] @ rp_sourceOpts rp;
             sinkOpts = [ProduceWithTopicNameFormatter (rp_topicNameFormatter rp)] @ rp_sinkOpts rp
         in case str_Through k (rp_topicName rp) [DslOptsSourceOptions srcOpts, DslOptsSinkOptions sinkOpts] st of
              (c, st1) \<Rightarrow> (Ok c, upd_stream c (\<lambda>x. x\<lparr>str_rePartitioned := True\<rparr>) st1)))"

section \<open>Merging\<close>

definition ShouldCoPartitionedWith :: "nat \<Rightarrow> nat \<Rightarrow> ('w, 'b) heap \<Rightarrow> ('w, 'b) heap" where
  "ShouldCoPartitionedWith a source h = (case nb_source (hp_nodes h ! a) of
      None \<Rightarrow> h | Some s \<Rightarrow> set_source a (s\<lparr>src_coPartitionedWith := Some source\<rparr>) h)"

definition mark_co_partitioned :: "nat \<Rightarrow> nat \<Rightarrow> ('w, 'b) dsl \<Rightarrow> ('w, 'b) dsl" where
  "mark_co_partitioned other k st =
     on_builders (ShouldCoPartitionedWith (str_source (stream_at other st)) (str_source (stream_at k st))) st"

definition str_merge :: "nat \<Rightarrow> nat \<Rightarrow> ('w, 'b) dsl \<Rightarrow> ('w, 'b) dsl" where
  "str_merge k other st =
     (let s = str_stp (stream_at k st); t = str_stp (stream_at other st);
          st1 = on_builders (sub_MergeSubTopology s t) st
      in setSubTopology other s (st1\<lparr>dsl_tb := RemoveSubTopology t (dsl_tb st1)\<rparr>))"

definition different_topologies :: "nat \<Rightarrow> nat \<Rightarrow> ('w, 'b) dsl \<Rightarrow> bool" where
  "different_topologies k other st \<longleftrightarrow>
     sub_Id (str_stp (stream_at k st)) (dsl_heap st) \<noteq> sub_Id (str_stp (stream_at other st)) (dsl_heap st)"

definition join_topologies :: "nat \<Rightarrow> nat \<Rightarrow> ('w, 'b) dsl \<Rightarrow> ('w, 'b) dsl" where
  "join_topologies k other st = (if different_topologies k other st then str_merge k other st else st)"

text \<open>The merger is added twice, once below each of the streams.\<close>

definition str_Merge :: "nat \<Rightarrow> nat \<Rightarrow> ('w, 'b) dsl \<Rightarrow> nat \<times> ('w, 'b) dsl" where
  "str_Merge k other st =
     (let st1 = join_topologies k other (mark_co_partitioned other k st)
      in case add_below k (str_root (stream_at k st1)) (fst (applyNodeOptions (BProc PMerger) [])) st1 of
           (merger, st2) \<Rightarrow>
             newChildStream k merger []
               (on_builders (sub_AddNodeWithEdge (str_stp (stream_at k st2)) (str_root (stream_at other st2)) merger) st2))"

section \<open>Stores and tables\<close>

definition nil_encoder :: encoder where
  "nil_encoder = \<lparr>enc_encode = (\<lambda>_. Panic ''nil pointer dereference''), enc_decode = (\<lambda>_. Panic ''nil pointer dereference'')\<rparr>"

definition encoder_or_nil :: "encoder option \<Rightarrow> encoder" where
  "encoder_or_nil e = (case e of None \<Rightarrow> nil_encoder | Some e \<Rightarrow> e)"

definition changelog_formatter :: "stream_config \<Rightarrow> (string \<Rightarrow> string) option" where
  "changelog_formatter c = map_option (\<lambda>f storeName. f storeName (cf_ApplicationId c)) (cf_ChangelogTopicNameFormatter c)"

definition store_builder_for :: "string \<Rightarrow> encoder option \<Rightarrow> encoder option \<Rightarrow> 'b changelog_option list \<Rightarrow> 'b ss_option list
    \<Rightarrow> ('w, 'b) dsl \<Rightarrow> 'b state_store_builder res" where
  "store_builder_for name key val clOpts opts st =
     NewStoreBuilder name (encoder_or_nil key) (encoder_or_nil val)
       ([StoreBuilderWithStoreOption [WithBackendBuilder (dsl_backend st)],
         WithChangelogOptions (ChangelogWithTopicTopicNameFormatter (changelog_formatter (dsl_config st)) # clOpts)] @ opts)"

definition add_store :: "nat \<Rightarrow> 'b state_store_builder \<Rightarrow> ('w, 'b) dsl \<Rightarrow> ('w, 'b) dsl" where
  "add_store k store st = on_builders (sub_AddStore (str_stp (stream_at k st)) store) st"

definition str_AddStateStore :: "nat \<Rightarrow> string \<Rightarrow> encoder option \<Rightarrow> encoder option \<Rightarrow> 'b ss_option list
    \<Rightarrow> ('w, 'b) dsl \<Rightarrow> unit res \<times> ('w, 'b) dsl" where
  "str_AddStateStore k name keyEnc valEnc options st =
     (case store_builder_for name keyEnc valEnc
        [ChangelogWithTopicReplicaCount (cf_InternalTopicsDefaultReplicaCount (dsl_config st))] options st of
        Ok store \<Rightarrow> (Ok (), add_store k store st) | Err e \<Rightarrow> (Err e, st) | Panic p \<Rightarrow> (Panic p, st))"

record ('w, 'b) ktable =
  tbl_stream :: nat
  tbl_store :: "'b state_store_builder"
  tbl_filterFuncs :: "('w, bool) user_fun list"

definition with_encoders :: "encoder option \<Rightarrow> encoder option \<Rightarrow> (kstream \<Rightarrow> kstream) list" where
  "with_encoders key val = [\<lambda>s. s\<lparr>str_key := key\<rparr>, \<lambda>s. s\<lparr>str_val := val\<rparr>]"

definition str_aggregate :: "nat \<Rightarrow> string \<Rightarrow> (rec_ctx \<Rightarrow> goval \<Rightarrow> goval \<Rightarrow> goval \<Rightarrow> 'w \<Rightarrow> goval res \<times> 'w) \<Rightarrow> 'b aggregate_opts
    \<Rightarrow> ('w, 'b) dsl \<Rightarrow> ('w, 'b) ktable res \<times> ('w, 'b) dsl" where
  "str_aggregate k store f o' st =
     (case store_builder_for store (ag_key o') (ag_val o') [] (ag_storeBuilderOpts o') st of
        Err e \<Rightarrow> (Err e, st) | Panic p \<Rightarrow> (Panic p, st)
      | Ok storeBuilder \<Rightarrow>
          (case add_below k (str_root (stream_at k st)) (fst (applyNodeOptions (BProc (PAggregator f store)) (ag_streamOpts o')))
              (add_store k storeBuilder st) of (a, st1) \<Rightarrow>
            (case newChildStream k a (with_encoders (ag_key o') (ag_val o')) st1 of (c, st2) \<Rightarrow>
              (Ok \<lparr>tbl_stream = c, tbl_store = storeBuilder, tbl_filterFuncs = []\<rparr>, st2))))"

definition str_Aggregate :: "nat \<Rightarrow> string \<Rightarrow> (rec_ctx \<Rightarrow> goval \<Rightarrow> goval \<Rightarrow> goval \<Rightarrow> 'w \<Rightarrow> goval res \<times> 'w) \<Rightarrow> 'b aggregate_opt list
    \<Rightarrow> ('w, 'b) dsl \<Rightarrow> ('w, 'b) ktable res \<times> ('w, 'b) dsl" where
  "str_Aggregate k store f opts st =
     (let o' = apply_opts opts \<lparr>ag_streamOpts = [],
            ag_storeBuilderOpts = [WithChangelogOptions [ChangelogWithTopicReplicaCount (cf_ChangelogReplicaCount (dsl_config st))]],
            ag_key = keyEncoder k st, ag_val = valEncoder k st\<rparr>
      in case marked_opts k st of
           Some rp \<Rightarrow>
             if \<not> str_rePartitioned (stream_at k st) then
               bindR (str_Repartition k [] (rePartitioned_Apply rp @
                   [rePartitionedDueTo (str_root (stream_at k st)) (str_source (stream_at k st))]))
                 (\<lambda>c. str_aggregate c store f o') st
             else str_aggregate k store f o' st
         | None \<Rightarrow> str_aggregate k store f o' st)"

definition str_ToTable :: "nat \<Rightarrow> string \<Rightarrow> 'b table_opt list \<Rightarrow> ('w, 'b) dsl \<Rightarrow> ('w, 'b) ktable res \<times> ('w, 'b) dsl" where
  "str_ToTable k store options st =
     (let o' = apply_opts options ((newTableOptsApplier (dsl_config st))\<lparr>to_key := keyEncoder k st, to_val := valEncoder k st\<rparr>);
          storeOpts = to_storeBuilderOpts o' @ (if to_useSourceAsChangelog o' then
            [WithChangelogOptions [ChangelogWithSourceTopic (case source_of k st of Some s \<Rightarrow> src_topic s | None \<Rightarrow> [])],
             LoggingDisabled] else [])
      in case store_builder_for store (to_key o') (to_val o') [] storeOpts st of
           Err e \<Rightarrow> (Err e, st) | Panic p \<Rightarrow> (Panic p, st)
         | Ok stor \<Rightarrow> (case child_of k (BProc (PTableConverter (ssb_Name stor))) (to_streamOpts o') (add_store k stor st) of
             (c, st1) \<Rightarrow> (Ok \<lparr>tbl_stream = c, tbl_store = stor, tbl_filterFuncs = []\<rparr>, st1)))"

section \<open>Joins of streams\<close>

record 'b global_table =
  gt_stream :: nat
  gt_store :: "'b state_store_builder"

definition str_JoinGlobalTable :: "nat \<Rightarrow> 'b global_table \<Rightarrow> ('w, goval) user_fun \<Rightarrow> (rec_ctx \<Rightarrow> goval \<Rightarrow> goval \<Rightarrow> 'w \<Rightarrow> goval res \<times> 'w)
    \<Rightarrow> 'w join_option list \<Rightarrow> ('w, 'b) dsl \<Rightarrow> nat \<times> ('w, 'b) dsl" where
  "str_JoinGlobalTable k table keyMapper valMapper opts =
     (let jo = join_opts opts in
      child_of k (BProc (PGlobalTableJoiner \<lparr>gj_Store = ssb_Name (gt_store table), gj_KeyMapper = keyMapper,
        gj_ValueMapper = valMapper, gj_JoinType = InnerJoin, gj_RightKeyLookupFunc = jo_rightLookupFunc jo\<rparr>)) (jo_streamOptions jo))"

definition str_LeftJoinGlobalTable :: "nat \<Rightarrow> 'b global_table \<Rightarrow> ('w, goval) user_fun
    \<Rightarrow> (rec_ctx \<Rightarrow> goval \<Rightarrow> goval \<Rightarrow> 'w \<Rightarrow> goval res \<times> 'w) \<Rightarrow> 'w join_option list \<Rightarrow> ('w, 'b) dsl \<Rightarrow> nat \<times> ('w, 'b) dsl" where
  "str_LeftJoinGlobalTable k table keyMapper valMapper opts =
     child_of k (BProc (PGlobalTableJoiner \<lparr>gj_Store = ssb_Name (gt_store table), gj_KeyMapper = keyMapper,
       gj_ValueMapper = valMapper, gj_JoinType = LeftJoin, gj_RightKeyLookupFunc = None\<rparr>)) (jo_streamOptions (join_opts opts))"

definition str_joinTable :: "nat \<Rightarrow> ('w, 'b) ktable \<Rightarrow> (rec_ctx \<Rightarrow> goval \<Rightarrow> goval \<Rightarrow> 'w \<Rightarrow> goval res \<times> 'w) \<Rightarrow> joiner_type
    \<Rightarrow> 'w join_option list \<Rightarrow> ('w, 'b) dsl \<Rightarrow> nat \<times> ('w, 'b) dsl" where
  "str_joinTable k table valMapper typ opts st =
     (let jo = join_opts opts;
          st1 = add_store k (tbl_store table) (mark_co_partitioned (tbl_stream table) k st);
          joiner = PStreamJoiner \<lparr>sj_OtherSideRequired = (typ = InnerJoin), sj_CurrentSide = LeftSide,
            sj_OtherStoreName = ssb_Name (tbl_store table), sj_ValueMapper = valMapper,
            sj_OtherSideLookupFunc = jo_rightLookupFunc jo, sj_OtherSideFilters = []\<rparr>
      in child_of k (BProc joiner) (jo_streamOptions jo) (join_topologies k (tbl_stream table) st1))"

definition str_JoinTable_typ :: "joiner_type \<Rightarrow> nat \<Rightarrow> ('w, 'b) ktable \<Rightarrow> (rec_ctx \<Rightarrow> goval \<Rightarrow> goval \<Rightarrow> 'w \<Rightarrow> goval res \<times> 'w)
    \<Rightarrow> 'w join_option list \<Rightarrow> ('w, 'b) dsl \<Rightarrow> nat res \<times> ('w, 'b) dsl" where
  "str_JoinTable_typ typ k table valMapper opts st =
     (case marked_opts k st of
        Some rp \<Rightarrow> bindR (str_Repartition k [] (rePartitioned_Apply rp))
          (\<lambda>c st1. case str_joinTable c table valMapper typ opts st1 of (j, st2) \<Rightarrow> (Ok j, st2)) st
      | None \<Rightarrow> (case str_joinTable k table valMapper typ opts st of (j, st2) \<Rightarrow> (Ok j, st2)))"

definition str_JoinTable :: "nat \<Rightarrow> ('w, 'b) ktable \<Rightarrow> (rec_ctx \<Rightarrow> goval \<Rightarrow> goval \<Rightarrow> 'w \<Rightarrow> goval res \<times> 'w)
    \<Rightarrow> 'w join_option list \<Rightarrow> ('w, 'b) dsl \<Rightarrow> nat res \<times> ('w, 'b) dsl" where
  "str_JoinTable = str_JoinTable_typ InnerJoin"

definition str_LeftJoinTable :: "nat \<Rightarrow> ('w, 'b) ktable \<Rightarrow> (rec_ctx \<Rightarrow> goval \<Rightarrow> goval \<Rightarrow> 'w \<Rightarrow> goval res \<times> 'w)
    \<Rightarrow> 'w join_option list \<Rightarrow> ('w, 'b) dsl \<Rightarrow> nat res \<times> ('w, 'b) dsl" where
  "str_LeftJoinTable = str_JoinTable_typ LeftJoin"

section \<open>Tables\<close>

text \<open>
  \<open>newChildTable\<close> copies the filters into a nil slice; \<open>copy\<close> moves as many elements as the shorter slice has, which is none.
\<close>

definition go_copy :: "'x list \<Rightarrow> 'x list \<Rightarrow> 'x list" where
  "go_copy dst src = take (length dst) src @ drop (length src) dst"

definition newChildTable :: "('w, 'b) ktable \<Rightarrow> nat \<Rightarrow> ('w, bool) user_fun option \<Rightarrow> (kstream \<Rightarrow> kstream) list
    \<Rightarrow> ('w, 'b) dsl \<Rightarrow> ('w, 'b) ktable \<times> ('w, 'b) dsl" where
  "newChildTable tbl node flt opts st =
     (let filters = (case flt of None \<Rightarrow> [] | Some _ \<Rightarrow> go_copy [] (tbl_filterFuncs tbl))
      in case newChildStream (tbl_stream tbl) node opts st of (c, st1) \<Rightarrow>
           (\<lparr>tbl_stream = c, tbl_store = tbl_store tbl, tbl_filterFuncs = filters\<rparr>, st1))"

definition tbl_ToStream :: "('w, 'b) ktable \<Rightarrow> ('w, 'b) dsl \<Rightarrow> nat \<times> ('w, 'b) dsl" where
  "tbl_ToStream tbl st = newChildStream (tbl_stream tbl) (str_root (stream_at (tbl_stream tbl) st)) [] st"

definition tbl_child :: "('w, 'b) ktable \<Rightarrow> 'w processor \<Rightarrow> ('w, bool) user_fun option \<Rightarrow> stream_option list \<Rightarrow> ('w, 'b) dsl
    \<Rightarrow> ('w, 'b) ktable \<times> ('w, 'b) dsl" where
  "tbl_child tbl p flt opts st =
     (case add_below (tbl_stream tbl) (str_root (stream_at (tbl_stream tbl) st)) (fst (applyNodeOptions (BProc p) opts)) st of
        (a, st1) \<Rightarrow> newChildTable tbl a flt [] st1)"

definition tbl_Filter :: "('w, 'b) ktable \<Rightarrow> ('w, bool) user_fun \<Rightarrow> stream_option list \<Rightarrow> ('w, 'b) dsl \<Rightarrow> ('w, 'b) ktable \<times> ('w, 'b) dsl" where
  "tbl_Filter tbl flt opts = tbl_child tbl (PFilter flt) (Some flt) opts"

definition tbl_Each :: "('w, 'b) ktable \<Rightarrow> (rec_ctx \<Rightarrow> goval \<Rightarrow> goval \<Rightarrow> 'w \<Rightarrow> 'w) \<Rightarrow> stream_option list \<Rightarrow> ('w, 'b) dsl
    \<Rightarrow> ('w, 'b) ktable \<times> ('w, 'b) dsl" where
  "tbl_Each tbl f opts = tbl_child tbl (PEach f) None opts"

definition tbl_JoinGlobalTable :: "('w, 'b) ktable \<Rightarrow> 'b global_table \<Rightarrow> ('w, goval) user_fun
    \<Rightarrow> (rec_ctx \<Rightarrow> goval \<Rightarrow> goval \<Rightarrow> 'w \<Rightarrow> goval res \<times> 'w) \<Rightarrow> 'w join_option list \<Rightarrow> ('w, 'b) dsl \<Rightarrow> ('w, 'b) ktable \<times> ('w, 'b) dsl" where
  "tbl_JoinGlobalTable tbl table keyMapper valMapper opts st =
     (case str_JoinGlobalTable (tbl_stream tbl) table keyMapper valMapper opts st of (c, st1) \<Rightarrow>
        (\<lparr>tbl_stream = c, tbl_store = tbl_store tbl, tbl_filterFuncs = []\<rparr>, st1))"

definition table_joiners :: "('w, 'b) ktable \<Rightarrow> ('w, 'b) ktable \<Rightarrow> (rec_ctx \<Rightarrow> goval \<Rightarrow> goval \<Rightarrow> 'w \<Rightarrow> goval res \<times> 'w) \<Rightarrow> joiner_type
    \<Rightarrow> 'w join_options \<Rightarrow> 'w stream_joiner \<times> 'w stream_joiner" where
  "table_joiners tbl table valMapper typ jo =
     (\<lparr>sj_OtherSideRequired = (typ = RightJoin \<or> typ = InnerJoin), sj_CurrentSide = LeftSide,
       sj_OtherStoreName = ssb_Name (tbl_store table), sj_ValueMapper = valMapper, sj_OtherSideLookupFunc = jo_rightLookupFunc jo,
       sj_OtherSideFilters = tbl_filterFuncs table\<rparr>,
      \<lparr>sj_OtherSideRequired = (typ = LeftJoin \<or> typ = InnerJoin), sj_CurrentSide = RightSide,
       sj_OtherStoreName = ssb_Name (tbl_store tbl), sj_ValueMapper = valMapper, sj_OtherSideLookupFunc = jo_leftLookupFunc jo,
       sj_OtherSideFilters = tbl_filterFuncs tbl\<rparr>)"

definition tbl_join :: "('w, 'b) ktable \<Rightarrow> ('w, 'b) ktable \<Rightarrow> (rec_ctx \<Rightarrow> goval \<Rightarrow> goval \<Rightarrow> 'w \<Rightarrow> goval res \<times> 'w) \<Rightarrow> joiner_type
    \<Rightarrow> 'w join_option list \<Rightarrow> ('w, 'b) dsl \<Rightarrow> ('w, 'b) ktable \<times> ('w, 'b) dsl" where
  "tbl_join tbl table valMapper typ opts st =
     (let k = tbl_stream tbl; other = tbl_stream table; jo = join_opts opts;
          (left, right) = table_joiners tbl table valMapper typ jo;
          plain = (\<lambda>p. fst (applyNodeOptions (BProc p) []));
          st1 = join_topologies k other (add_store k (tbl_store table) (mark_co_partitioned other k st))
      in case add_below k (str_root (stream_at k st1)) (plain (PStreamJoiner left)) st1 of (leftJoiner, st2) \<Rightarrow>
           (case add_below k (str_root (stream_at other st2)) (plain (PStreamJoiner right)) st2 of (rightJoiner, st3) \<Rightarrow>
             (case add_below k leftJoiner (fst (applyNodeOptions (BProc PMerger) (jo_streamOptions jo))) st3 of (merger, st4) \<Rightarrow>
               newChildTable tbl merger None []
                 (on_builders (sub_AddNodeWithEdge (str_stp (stream_at k st4)) rightJoiner merger) st4))))"

definition tbl_Join where "tbl_Join tbl table valMapper opts = tbl_join tbl table valMapper InnerJoin opts"
definition tbl_LeftJoin where "tbl_LeftJoin tbl table valMapper opts = tbl_join tbl table valMapper LeftJoin opts"
definition tbl_RightJoin where "tbl_RightJoin tbl table valMapper opts = tbl_join tbl table valMapper RightJoin opts"
definition tbl_OuterJoin where "tbl_OuterJoin tbl table valMapper opts = tbl_join tbl table valMapper OuterJoin opts"

section \<open>The stream builder\<close>

definition sb_KStream :: "string \<Rightarrow> encoder option \<Rightarrow> encoder option \<Rightarrow> source_opt list \<Rightarrow> ('w, 'b) dsl \<Rightarrow> nat res \<times> ('w, 'b) dsl" where
  "sb_KStream topic keyEnc valEnc opts st =
     (let tb = dsl_tb st;
          tps = subs_SourceTopicsFor (tb_heap tb) KindStream (tb_subTopologies tb) @
                subs_SourceTopicsFor (tb_heap tb) KindTable (tb_subTopologies tb)
      in if topic \<in> set tps then (Panic (''Topic ['' @ topic @ ''] already registered with another stream topology''), st)
         else
           (let source = NewKSource topic (opts @ [ConsumeWithKeyEncoder keyEnc, ConsumeWithValEncoder valEnc])
            in case new_sub KindStream source st of (s, a, st1) \<Rightarrow>
                 (case new_stream \<lparr>str_stp = s, str_source = a, str_root = a, str_rePartitioned = False, str_repartitionOpts = None,
                     str_key = keyEnc, str_val = valEnc\<rparr> st1 of (c, st2) \<Rightarrow> (Ok c, st2))))"

record 'b global_table_options =
  go_initialOffset :: int64
  go_storeOptions :: "'b store_option list"
  go_store :: "'b store_builder option"
  go_changelogOptions :: "'b changelog_option list"

definition GlobalTableWithOffset :: "int64 \<Rightarrow> 'b global_table_options \<Rightarrow> 'b global_table_options" where
  "GlobalTableWithOffset offset o' = o'\<lparr>go_initialOffset := offset\<rparr>"

definition GlobalTableWithStoreOptions :: "'b store_option list \<Rightarrow> 'b global_table_options \<Rightarrow> 'b global_table_options" where
  "GlobalTableWithStoreOptions opts o' = o'\<lparr>go_storeOptions := opts\<rparr>"

text \<open>The changelog options replace the one that names the source topic.\<close>

definition GlobalTableWithStoreChangelogOptions :: "'b changelog_option list \<Rightarrow> 'b global_table_options \<Rightarrow> 'b global_table_options" where
  "GlobalTableWithStoreChangelogOptions opts o' = o'\<lparr>go_changelogOptions := opts\<rparr>"

definition GlobalTableWithStore :: "'b store_builder \<Rightarrow> 'b global_table_options \<Rightarrow> 'b global_table_options" where
  "GlobalTableWithStore store o' = o'\<lparr>go_store := Some store\<rparr>"

text \<open>
  \<open>create\<close> is \<open>CreateOrReturn\<close> of the store registry, whose result, an existing store, appears here as the builder that
  returns it, \<open>GlobalStoreBuilderWrapper\<close>.
\<close>

definition sb_GlobalTable :: "(string \<Rightarrow> encoder option \<Rightarrow> encoder option \<Rightarrow> 'b store_option list \<Rightarrow> 'b store_builder res) \<Rightarrow> string
    \<Rightarrow> encoder option \<Rightarrow> encoder option \<Rightarrow> string \<Rightarrow> ('b global_table_options \<Rightarrow> 'b global_table_options) list \<Rightarrow> ('w, 'b) dsl
    \<Rightarrow> 'b global_table res \<times> ('w, 'b) dsl" where
  "sb_GlobalTable create topic keyEnc valEnc storeName options st =
     (let o' = apply_opts options \<lparr>go_initialOffset = OffsetEarliest, go_storeOptions = [], go_store = None,
            go_changelogOptions = [ChangelogWithSourceTopic topic]\<rparr>;
          src = NewKSource topic [ConsumeWithKeyEncoder keyEnc, ConsumeWithValEncoder valEnc, markAsGlobal];
          store = (case go_store o' of Some s \<Rightarrow> Ok s
            | None \<Rightarrow> (case create storeName keyEnc valEnc (go_storeOptions o') of
                Ok s \<Rightarrow> Ok s | Err e \<Rightarrow> Panic ''store create failed'' | Panic p \<Rightarrow> Panic p));
          builder = bind_res store (\<lambda>s. NewStoreBuilder storeName (encoder_or_nil keyEnc) (encoder_or_nil valEnc)
            [UseStoreBuilder (Some s), WithChangelogOptions (go_changelogOptions o'), LoggingDisabled])
      in case builder of
           Err e \<Rightarrow> (Err e, st) | Panic p \<Rightarrow> (Panic p, st)
         | Ok storeBuilder \<Rightarrow>
             (case new_sub KindGlobalTable src st of (s, a, st1) \<Rightarrow>
               (case new_stream \<lparr>str_stp = s, str_source = a, str_root = a, str_rePartitioned = False, str_repartitionOpts = None,
                   str_key = None, str_val = None\<rparr> st1 of (c, st2) \<Rightarrow>
                 (Ok \<lparr>gt_stream = c, gt_store = storeBuilder\<rparr>,
                  snd (add_below c a (fst (applyNodeOptions (BProc (PGlobalTable storeName)) [])) (add_store c storeBuilder st2))))))"

definition NewStreamBuilder :: "stream_config \<Rightarrow> (string \<Rightarrow> 'b res) \<Rightarrow> ('w, 'b) dsl res" where
  "NewStreamBuilder config bk =
     (let c = config_setUp config
      in case config_validate c of
           Ok _ \<Rightarrow> Ok \<lparr>dsl_tb = NewKTopologyBuilder, dsl_config = c, dsl_backend = bk, dsl_streams = [], dsl_reparts = []\<rparr>
         | Err e \<Rightarrow> Panic ''invalid configuration'' | Panic p \<Rightarrow> Panic p)"

end
