(* ===== verification/Node_Spec.thy ===== *)
theory Node_Spec
  imports Node State_Store
begin

text \<open>
  What a network of nodes means. A pure network (stateless operators between a handle and sinks) has a denotation, the list of
  the records it delivers to its sinks, in order; \<open>Run\<close> on the nodes that implement it makes exactly these deliveries. The
  operators with a store are specified over a contract for the stores.
\<close>

section \<open>Pure networks\<close>

datatype pure_op =
    UMap "rec_ctx \<Rightarrow> goval \<Rightarrow> goval \<Rightarrow> goval \<times> goval"
  | UMapValue "rec_ctx \<Rightarrow> goval \<Rightarrow> goval \<Rightarrow> goval"
  | USelectKey "rec_ctx \<Rightarrow> goval \<Rightarrow> goval \<Rightarrow> goval"
  | UFilter "rec_ctx \<Rightarrow> goval \<Rightarrow> goval \<Rightarrow> bool"
  | UFlatMap "rec_ctx \<Rightarrow> goval \<Rightarrow> goval \<Rightarrow> (goval \<times> goval) list"
  | UFlatMapValues "rec_ctx \<Rightarrow> goval \<Rightarrow> goval \<Rightarrow> goval list"
  | UMerge
  | UBranch
  | UChild string "rec_ctx \<Rightarrow> goval \<Rightarrow> goval \<Rightarrow> bool"
  | UToStream
  | USink ksink

record pure_node =
  pn_id :: node_id
  pn_name :: string
  pn_edges :: "nat list"
  pn_op :: pure_op

definition total_fun :: "(rec_ctx \<Rightarrow> goval \<Rightarrow> goval \<Rightarrow> 'a) \<Rightarrow> ('w, 'a) user_fun" where
  "total_fun f ctx k v = retR (f ctx k v)"

fun pure_proc :: "pure_op \<Rightarrow> 'w processor" where
  "pure_proc (UMap f) = PMap (total_fun f)"
| "pure_proc (UMapValue f) = PValueMapper (total_fun f)"
| "pure_proc (USelectKey f) = PKeySelector (total_fun f)"
| "pure_proc (UFilter f) = PFilter (total_fun f)"
| "pure_proc (UFlatMap f) = PFlatMap (total_fun f)"
| "pure_proc (UFlatMapValues f) = PFlatMapValues (total_fun f)"
| "pure_proc UMerge = PMerger"
| "pure_proc UBranch = PBranch"
| "pure_proc (UChild name p) = PBranchChild name (total_fun p)"
| "pure_proc UToStream = PStreamConverter"
| "pure_proc (USink s) = PSink s"

definition pure_graph :: "pure_node list \<Rightarrow> 'w node list" where
  "pure_graph g = map (\<lambda>n. \<lparr>nd_id = pn_id n, nd_name = pn_name n, nd_edges = pn_edges n, nd_proc = pure_proc (pn_op n)\<rparr>) g"

text \<open>What an operator makes of a record.\<close>

fun op_outputs :: "pure_op \<Rightarrow> rec_ctx \<Rightarrow> goval \<Rightarrow> goval \<Rightarrow> (goval \<times> goval) list" where
  "op_outputs (UMap f) ctx k v = [f ctx k v]"
| "op_outputs (UMapValue f) ctx k v = [(k, f ctx k v)]"
| "op_outputs (USelectKey f) ctx k v = [(f ctx k v, v)]"
| "op_outputs (UFilter f) ctx k v = (if f ctx k v then [(k, v)] else [])"
| "op_outputs (UFlatMap f) ctx k v = f ctx k v"
| "op_outputs (UFlatMapValues f) ctx k v = map (Pair k) (f ctx k v)"
| "op_outputs _ ctx k v = [(k, v)]"

definition child_accepts :: "pure_node \<Rightarrow> rec_ctx \<Rightarrow> goval \<Rightarrow> goval \<Rightarrow> bool" where
  "child_accepts c ctx k v = (case pn_op c of UChild name p \<Rightarrow> p ctx k v | _ \<Rightarrow> False)"

text \<open>Where a node sends what it makes: to all children, a branch to the first that accepts the record.\<close>

definition targets :: "pure_node list \<Rightarrow> pure_node \<Rightarrow> rec_ctx \<Rightarrow> goval \<Rightarrow> goval \<Rightarrow> nat list" where
  "targets g n ctx k v =
     (case pn_op n of
        UBranch \<Rightarrow> (case find (\<lambda>c. child_accepts (g ! c) ctx k v) (pn_edges n) of None \<Rightarrow> [] | Some c \<Rightarrow> [c])
      | _ \<Rightarrow> pn_edges n)"

definition op_sink :: "pure_op \<Rightarrow> ksink option" where
  "op_sink op = (case op of USink s \<Rightarrow> Some s | _ \<Rightarrow> None)"

fun deliver :: "nat \<Rightarrow> pure_node list \<Rightarrow> rec_ctx \<Rightarrow> nat \<Rightarrow> goval \<times> goval \<Rightarrow> (nat \<times> goval \<times> goval) list" where
  "deliver 0 g ctx i kv = []"
| "deliver (Suc d) g ctx i (k, v) =
     (case op_sink (pn_op (g ! i)) of
        Some s \<Rightarrow> [(i, k, v)]
      | None \<Rightarrow> concat (map (\<lambda>kv. concat (map (\<lambda>c. deliver d g ctx c kv) (targets g (g ! i) ctx k v)))
          (op_outputs (pn_op (g ! i)) ctx k v)))"

text \<open>
  Well-formed networks: edges lead to nodes of the network with a smaller rank, and from a branch to branch children. Sinks have no
  edges.
\<close>

definition pure_wf :: "(nat \<Rightarrow> nat) \<Rightarrow> pure_node list \<Rightarrow> bool" where
  "pure_wf rank g \<longleftrightarrow> (\<forall>i < length g. \<forall>c \<in> set (pn_edges (g ! i)). c < length g \<and> rank c < rank i \<and>
     (pn_op (g ! i) = UBranch \<longrightarrow> (\<exists>name p. pn_op (g ! c) = UChild name p)))"

definition sinks_put :: "('w, 'm) node_env \<Rightarrow> pure_node list \<Rightarrow> rec_ctx \<Rightarrow> (nat \<times> goval \<times> goval \<Rightarrow> 'w \<Rightarrow> 'w) \<Rightarrow> bool" where
  "sinks_put env g ctx put \<longleftrightarrow> (\<forall>i < length g. \<forall>s k v w. pn_op (g ! i) = USink s \<longrightarrow>
     (\<exists>r. sink_Run env s (pure_graph g ! i) ctx k v w = (Ok r, put (i, k, v) w)))"

lemma pure_graph_nth [simp]:
  assumes "i < length g"
  shows "nd_edges (pure_graph g ! i) = pn_edges (g ! i)" "nd_proc (pure_graph g ! i) = pure_proc (pn_op (g ! i))"
  using assms by (simp_all add: pure_graph_def)

text \<open>What a run does: it ends normally and leaves the world as the function says.\<close>

definition does :: "('w \<Rightarrow> 'a res \<times> 'w) \<Rightarrow> ('w \<Rightarrow> 'w) \<Rightarrow> bool" where
  "does m f \<longleftrightarrow> (\<forall>w. \<exists>r. m w = (Ok r, f w))"

lemma does_ret [simp]: "does (retR a) f \<longleftrightarrow> f = (\<lambda>w. w)"
  by (auto simp: does_def retR_def)

lemma doesE:
  assumes "does m f"
  obtains r where "m w = (Ok r, f w)"
  using assms unfolding does_def by blast

lemma does_bind:
  assumes "does m f" "\<And>a. does (k a) h"
  shows "does (bindR m k) (h \<circ> f)"
  unfolding does_def
proof
  fix w
  obtain r where r: "m w = (Ok r, f w)" using assms(1) by (rule doesE)
  obtain r' where "k r (f w) = (Ok r', h (f w))" using assms(2) by (rule doesE)
  with r show "\<exists>r. bindR m k w = (Ok r, (h \<circ> f) w)" by (simp add: bindR_Ok)
qed

lemma does_bind_ret:
  assumes "does m f" "\<And>a. \<exists>b. k a = retR b"
  shows "does (bindR m k) f"
  unfolding does_def
proof
  fix w
  obtain r where r: "m w = (Ok r, f w)" using assms(1) by (rule doesE)
  obtain b where "k r = retR b" using assms(2) by blast
  with r show "\<exists>r. bindR m k w = (Ok r, f w)" by (simp add: bindR_Ok retR_def)
qed

lemma does_onErr:
  assumes "does m f"
  shows "does (onErr e m) f"
  unfolding does_def
proof
  fix w
  obtain r where "m w = (Ok r, f w)" using assms by (rule doesE)
  then show "\<exists>r. onErr e m w = (Ok r, f w)" by (simp add: onErr_def)
qed

lemma does_forR: "(\<And>x. x \<in> set xs \<Longrightarrow> does (m x) (f x)) \<Longrightarrow> does (forR m xs) (fold f xs)"
proof (induction xs)
  case Nil
  then show ?case by (simp add: does_def)
next
  case (Cons x xs)
  have "does (bindR (m x) (\<lambda>_. forR m xs)) (fold f xs \<circ> f x)" by (intro does_bind) (use Cons in auto)
  moreover have "forR m (x # xs) = bindR (m x) (\<lambda>_. forR m xs)" by (rule ext) simp
  ultimately show ?case by (simp add: comp_def)
qed

lemma does_forward:
  assumes "\<And>c. c \<in> set (nd_edges n) \<Longrightarrow> does (run c ctx k v) (fold put (D c))"
  shows "does (node_Forward run n ctx k v cont) (fold put (concat (map D (nd_edges n))))"
proof -
  have "fold (\<lambda>c. fold put (D c)) cs = fold put (concat (map D cs))" for cs
    by (induction cs) (auto simp: fun_eq_iff)
  moreover have "does (forR (\<lambda>child. bindR (run child ctx k v) (\<lambda>_. retR ())) (nd_edges n))
      (fold (\<lambda>c. fold put (D c)) (nd_edges n))"
    by (rule does_forR, rule does_bind_ret [OF assms]) auto
  ultimately show ?thesis unfolding node_Forward_def by (intro does_bind_ret) auto
qed

lemma does_flat_loop:
  assumes "\<And>c kv. c \<in> set (nd_edges n) \<Longrightarrow> kv \<in> set kvs \<Longrightarrow> does (run c ctx (fst kv) (snd kv)) (fold put (D c kv))"
  shows "does (flat_loop err run n ctx kvs nxt) (fold put (concat (map (\<lambda>kv. concat (map (\<lambda>c. D c kv) (nd_edges n))) kvs)))"
  using assms
proof (induction kvs arbitrary: nxt)
  case (Cons kv kvs)
  obtain k v where kv: "kv = (k, v)" by force
  have "does (onErr err (node_Forward run n ctx k v True)) (fold put (concat (map (\<lambda>c. D c kv) (nd_edges n))))"
    by (intro does_onErr does_forward) (use Cons.prems [of _ kv] kv in auto)
  moreover have "does (flat_loop err run n ctx kvs nxt') (fold put (concat (map (\<lambda>kv. concat (map (\<lambda>c. D c kv) (nd_edges n))) kvs)))"
    for nxt' by (rule Cons.IH) (use Cons.prems in auto)
  moreover have "flat_loop err run n ctx (kv # kvs) nxt = bindR (onErr err (node_Forward run n ctx k v True))
      (\<lambda>(_, _, nxt'). flat_loop err run n ctx kvs nxt')" by (simp add: kv)
  ultimately have "does (flat_loop err run n ctx (kv # kvs) nxt)
      (fold put (concat (map (\<lambda>kv. concat (map (\<lambda>c. D c kv) (nd_edges n))) kvs)) \<circ>
        fold put (concat (map (\<lambda>c. D c kv) (nd_edges n))))"
    by (simp only:) (rule does_bind, auto)
  then show ?case by (simp add: comp_def)
qed (simp add: fun_eq_iff)

lemma bindR_total [simp]: "bindR (orWrap n msg (total_fun f ctx k v)) h = h (f ctx k v)"
  by (auto simp: fun_eq_iff bindR_def orWrap_def onErr_def total_fun_def retR_def)

lemma does_branch:
  assumes "\<forall>c \<in> set cs. c < length g \<and> (\<exists>name p. pn_op (g ! c) = UChild name p)"
    and "\<And>c. c \<in> set cs \<Longrightarrow> does (run c ctx k v) (fold put (D c))"
  shows "does (branch_loop (pure_graph g) run n ctx k v cs)
    (fold put (concat (map D (case find (\<lambda>c. child_accepts (g ! c) ctx k v) cs of None \<Rightarrow> [] | Some c \<Rightarrow> [c]))))"
  using assms
proof (induction cs)
  case (Cons c cs)
  then obtain name p where p: "c < length g" "pn_op (g ! c) = UChild name p" by auto
  have "does (onErr (node_WrapErr n) (bindR (run c ctx k v) (\<lambda>_. retR ()))) (fold put (D c))"
    by (intro does_onErr does_bind_ret) (use Cons.prems in auto)
  then show ?case using p Cons by (simp add: child_accepts_def)
qed (simp add: fun_eq_iff)

lemma pure_run_does:
  fixes env :: "('w, 'm) node_env"
  assumes wf: "pure_wf rank g" and sinks: "sinks_put env g ctx put"
    and "i < length g" "rank i < d"
  shows "does (node_Run env (pure_graph g) d i ctx k v) (fold put (deliver d g ctx i (k, v)))"
  using assms(3,4)
proof (induction d arbitrary: i k v)
  case (Suc d)
  let ?n = "pure_graph g ! i :: 'w node"
  have child: "c < length g \<and> rank c < d \<and> (pn_op (g ! i) = UBranch \<longrightarrow> (\<exists>name p. pn_op (g ! c) = UChild name p))"
    if "c \<in> set (pn_edges (g ! i))" for c
  proof -
    from that wf Suc.prems(1) have "c < length g" "rank c < rank i"
      "pn_op (g ! i) = UBranch \<longrightarrow> (\<exists>name p. pn_op (g ! c) = UChild name p)"
      unfolding pure_wf_def by blast+
    with Suc.prems(2) show ?thesis by simp
  qed
  have IH: "does (node_Run env (pure_graph g) d c ctx k v) (fold put (deliver d g ctx c (k, v)))"
    if "c \<in> set (pn_edges (g ! i))" for c k v
    using Suc.IH child [OF that] by blast
  have fwd: "does (node_Forward (node_Run env (pure_graph g) d) ?n ctx k v True)
      (fold put (concat (map (\<lambda>c. deliver d g ctx c (k, v)) (pn_edges (g ! i)))))" for k v
    using does_forward [of ?n "node_Run env (pure_graph g) d" ctx k v put "\<lambda>c. deliver d g ctx c (k, v)" True] IH Suc.prems(1)
    by simp
  have flat: "does (flat_loop err (node_Run env (pure_graph g) d) ?n ctx kvs False)
      (fold put (concat (map (\<lambda>kv. concat (map (\<lambda>c. deliver d g ctx c kv) (pn_edges (g ! i)))) kvs)))" for kvs err
  proof -
    have "does (node_Run env (pure_graph g) d c ctx (fst kv) (snd kv)) (fold put (deliver d g ctx c kv))"
      if "c \<in> set (pn_edges (g ! i))" for c kv
      using IH [OF that, of "fst kv" "snd kv"] by simp
    then show ?thesis
      using does_flat_loop [of ?n kvs "node_Run env (pure_graph g) d" ctx put "\<lambda>c. deliver d g ctx c" err False] Suc.prems(1)
      by simp
  qed
  have br: "pn_op (g ! i) = UBranch \<Longrightarrow> does (branch_loop (pure_graph g) (node_Run env (pure_graph g) d) ?n ctx k v (pn_edges (g ! i)))
      (fold put (concat (map (\<lambda>c. deliver d g ctx c (k, v)) (targets g (g ! i) ctx k v))))"
    using does_branch [of "pn_edges (g ! i)" g "node_Run env (pure_graph g) d" ctx k v put "\<lambda>c. deliver d g ctx c (k, v)" ?n] child IH
    by (simp add: targets_def)
  have n: "nd_proc ?n = pure_proc (pn_op (g ! i))" "nd_edges ?n = pn_edges (g ! i)" using Suc.prems(1) by simp_all
  have t: "pn_op (g ! i) \<noteq> UBranch \<Longrightarrow> targets g (g ! i) ctx k v = pn_edges (g ! i)"
    by (simp add: targets_def split: pure_op.splits)
  show ?case
  proof (cases "pn_op (g ! i)")
    case (UMap f)
    with fwd [of "fst (f ctx k v)" "snd (f ctx k v)"] t n show ?thesis
      by (simp add: op_sink_def processor_Run_def map_Run_def case_prod_beta)
  next
    case (UFilter f)
    with fwd t n show ?thesis by (simp add: op_sink_def processor_Run_def filter_Run_def node_Ignore_def fun_eq_iff)
  next
    case UBranch
    have "does (branch_Run (pure_graph g) (node_Run env (pure_graph g) d) ?n ctx k v)
      (fold put (concat (map (\<lambda>c. deliver d g ctx c (k, v)) (targets g (g ! i) ctx k v))))"
      unfolding branch_Run_def n(2) by (rule does_bind_ret [OF br [OF UBranch]]) auto
    with UBranch n show ?thesis by (simp add: op_sink_def processor_Run_def)
  next
    case (USink s)
    have "\<exists>r. sink_Run env s ?n ctx k v w = (Ok r, put (i, k, v) w)" for w
      using sinks USink Suc.prems(1) unfolding sinks_put_def by blast
    with USink n show ?thesis by (simp add: op_sink_def processor_Run_def does_def)
  next
    case (UFlatMap f)
    with flat t n show ?thesis by (simp add: op_sink_def processor_Run_def flat_map_Run_def)
  next
    case (UFlatMapValues f)
    with flat [of _ "map (Pair k) (f ctx k v)"] t n show ?thesis
      by (simp add: op_sink_def processor_Run_def flat_map_values_Run_def)
  qed (use fwd t n in \<open>simp_all add: op_sink_def processor_Run_def value_mapper_Run_def key_selector_Run_def
      merger_Run_def stream_converter_Run_def branch_child_Run_def\<close>)
qed simp

lemma deliver_depth:
  assumes wf: "pure_wf rank g"
  shows "i < length g \<Longrightarrow> rank i < d \<Longrightarrow> deliver (d + e) g ctx i kv = deliver d g ctx i kv"
proof (induction d arbitrary: i kv)
  case (Suc d)
  obtain k v where kv: "kv = (k, v)" by force
  have "deliver (d + e) g ctx c kv' = deliver d g ctx c kv'" if "c \<in> set (pn_edges (g ! i))" for c kv'
  proof (rule Suc.IH)
    from that wf Suc.prems(1) have "c < length g" "rank c < rank i" unfolding pure_wf_def by blast+
    with Suc.prems(2) show "c < length g" "rank c < d" by simp_all
  qed
  moreover have "set (targets g (g ! i) ctx k v) \<subseteq> set (pn_edges (g ! i))"
    by (auto simp: targets_def find_Some_iff find_Some_iff2 split: option.splits pure_op.splits)
  ultimately have "(\<lambda>kv'. concat (map (\<lambda>c. deliver (d + e) g ctx c kv') (targets g (g ! i) ctx k v)))
      = (\<lambda>kv'. concat (map (\<lambda>c. deliver d g ctx c kv') (targets g (g ! i) ctx k v)))"
    by (intro ext arg_cong [where f = concat] map_cong refl) blast
  then show ?case by (simp only: kv deliver.simps add_Suc)
qed simp

section \<open>Properties\<close>

text \<open>An environment without stores whose producer lists what is produced.\<close>

definition sink_env :: "(krecord list, unit) node_env" where
  "sink_env = \<lparr>ne_Get = (\<lambda>_ _ _. Panic ''store does not exist''), ne_Set = (\<lambda>_ _ _ _ w. (Panic ''store does not exist'', w)),
     ne_Delete = (\<lambda>_ _ w. (Panic ''store does not exist'', w)), ne_producer = list_producer True, ne_now = (\<lambda>_. 0)\<rparr>"

definition noop_sink :: "string \<Rightarrow> ksink" where
  "noop_sink topic = \<lparr>snk_Key = Some \<lparr>enc_encode = (\<lambda>v. Ok (case v of GStr s \<Rightarrow> Some (bytes_of s) | _ \<Rightarrow> None)),
       enc_decode = (\<lambda>_. Ok GNil)\<rparr>,
     snk_Value = Some \<lparr>enc_encode = (\<lambda>v. Ok (case v of GStr s \<Rightarrow> Some (bytes_of s) | _ \<Rightarrow> None)), enc_decode = (\<lambda>_. Ok GNil)\<rparr>,
     snk_topic = topic, snk_numOfPartitions = 1, snk_partitioner = None, snk_tombstoner = (\<lambda>_ _ _. False),
     snk_headerExtractor = (\<lambda>_ _ _. [])\<rparr>"

definition op_node :: "nat list \<Rightarrow> pure_op \<Rightarrow> pure_node" where
  "op_node es op = \<lparr>pn_id = NewNodeId 0 [] [], pn_name = [], pn_edges = es, pn_op = op\<rparr>"

text \<open>The two words of a record go through a filter into two branches.\<close>

definition sample_net :: "pure_node list" where
  "sample_net = [op_node [1] (UFlatMapValues (\<lambda>_ k v. [v, k])), op_node [2, 4] UBranch,
     op_node [3] (UChild ''a'' (\<lambda>_ k v. v = GStr ''x'')), op_node [] (USink (noop_sink ''xs'')),
     op_node [5] (UChild ''b'' (\<lambda>_ k v. True)), op_node [] (USink (noop_sink ''rest''))]"

definition sample_ctx :: rec_ctx where
  "sample_ctx = NewRecordContext \<lparr>kr_Key = None, kr_Value = None, kr_Topic = [], kr_Partition = 0, kr_Offset = 0,
     kr_Timestamp = 0, kr_Headers = []\<rparr>"

definition sample_put :: "nat \<times> goval \<times> goval \<Rightarrow> krecord list \<Rightarrow> krecord list" where
  "sample_put ikv w = (case ikv of (i, k, v) \<Rightarrow>
     w @ [\<lparr>kr_Key = (case k of GStr s \<Rightarrow> Some (bytes_of s) | _ \<Rightarrow> None),
       kr_Value = (case v of GStr s \<Rightarrow> Some (bytes_of s) | _ \<Rightarrow> None), kr_Topic = (if i = 3 then ''xs'' else ''rest''),
       kr_Partition = PartitionAny, kr_Offset = 0, kr_Timestamp = 0, kr_Headers = []\<rparr>])"

lemma sample_net_wf: "pure_wf (\<lambda>i. 5 - i) sample_net"
  unfolding pure_wf_def
  by (simp add: sample_net_def op_node_def All_less_Suc nth_Cons')

lemma noop_sink_Run: "sink_Run sink_env (noop_sink topic) n ctx k v w = (Ok (GNil, GNil, False),
   w @ [\<lparr>kr_Key = (case k of GStr s \<Rightarrow> Some (bytes_of s) | _ \<Rightarrow> None), kr_Value = (case v of GStr s \<Rightarrow> Some (bytes_of s) | _ \<Rightarrow> None),
     kr_Topic = topic, kr_Partition = PartitionAny, kr_Offset = 0, kr_Timestamp = 0, kr_Headers = []\<rparr>])"
  by (cases "v = GNil") (simp_all add: sink_Run_def noop_sink_def sink_env_def list_producer_def Let_def bindR_def retR_def
      pureR_def orEncodingErr_def encode_with_def onErr_def orWrap_def node_Ignore_def)

lemma sample_net_sinks: "sinks_put sink_env sample_net ctx sample_put"
  unfolding sinks_put_def
  by (simp add: sample_net_def op_node_def All_less_Suc nth_Cons' noop_sink_Run sample_put_def) blast

text \<open>C18: A network means its denotation. Running a record through a network of stateless operators ends normally, however
  the network forks and merges, as long as it has no cycle, and makes exactly the deliveries to the sinks that the denotation
  lists, in this order: a flat map's outputs one after the other, each to all children in the order they were added, depth
  first; a filter drops; a branch hands a record to the first child that accepts it and to no other. How much stack is
  left does not matter.\<close>
theorem topology_delivers:
  fixes env :: "('w, 'm) node_env"
  assumes "pure_wf rank g" "sinks_put env g ctx put" "i < length g" "rank i < d"
  shows "(\<exists>r. node_Run env (pure_graph g) d i ctx k v w = (Ok r, fold put (deliver d g ctx i (k, v)) w)) \<and>
    deliver d g ctx i (k, v) = deliver (Suc (rank i)) g ctx i (k, v)"
proof
  show "\<exists>r. node_Run env (pure_graph g) d i ctx k v w = (Ok r, fold put (deliver d g ctx i (k, v)) w)"
    using pure_run_does [OF assms, of k v] unfolding does_def by blast
  show "deliver d g ctx i (k, v) = deliver (Suc (rank i)) g ctx i (k, v)"
    using deliver_depth [OF assms(1,3), of "Suc (rank i)" "d - Suc (rank i)"] assms(4) by simp
qed

theorem topology_delivers_witness:
  "\<exists>r w. node_Run sink_env (pure_graph sample_net) 6 0 sample_ctx (GStr ''x'') (GStr ''y'') [] = (Ok r, w) \<and>
    map kr_Topic w = [''rest'', ''xs''] \<and> map kr_Value w = [Some (bytes_of ''y''), Some (bytes_of ''x'')]"
proof -
  have d: "deliver 6 sample_net sample_ctx 0 (GStr ''x'', GStr ''y'') = [(5, GStr ''x'', GStr ''y''), (3, GStr ''x'', GStr ''x'')]"
    by code_simp
  have "0 < length sample_net" by (simp add: sample_net_def)
  from topology_delivers [OF sample_net_wf sample_net_sinks this, of 6 sample_ctx "GStr ''x''" "GStr ''y''" "[]"]
  show ?thesis by (auto simp: d sample_put_def)
qed

end
