(* ===== verification/Node_Stores.thy ===== *)
theory Node_Stores
  imports Node_Spec
begin

text \<open>
  The nodes that work on stores. Their interface to the stores is the locale \<open>node_stores\<close>; the state stores of a sub topology,
  with the changelog written by the same producer, are its interpretation. The properties say what aggregation, table
  joins, window joins and global table joins compute.
\<close>

section \<open>The stores of a sub topology as the surrounding of its nodes\<close>

text \<open>The change loggers of the stores all write with the task's producer.\<close>

record ('b, 'c, 'p) state_world =
  sw_stores :: "string \<Rightarrow> ('b, 'c, 'p) loggable_store option"
  sw_producer :: 'p

definition sw_lift :: "('p \<Rightarrow> 'a res \<times> 'p) \<Rightarrow> ('b, 'c, 'p) state_world \<Rightarrow> 'a res \<times> ('b, 'c, 'p) state_world" where
  "sw_lift f w = (case f (sw_producer w) of (r, p) \<Rightarrow> (r, w\<lparr>sw_producer := p\<rparr>))"

definition with_producer :: "'p \<Rightarrow> ('b, 'c, 'p) loggable_store \<Rightarrow> ('b, 'c, 'p) loggable_store" where
  "with_producer p ls = ls\<lparr>ls_ChangeLogger := (ls_ChangeLogger ls)\<lparr>cl_producer := p\<rparr>\<rparr>"

definition sw_Get :: "('c, 'b, 'i) cache_ops \<Rightarrow> store_ref \<Rightarrow> goval \<Rightarrow> ('b, 'c, 'p) state_world \<Rightarrow> goval res" where
  "sw_Get ch ref key w = (case ref of
      SubStore st \<Rightarrow> (case sw_stores w st of None \<Rightarrow> Panic ''store does not exist'' | Some ls \<Rightarrow> ss_Get ch key (ls_StateStore ls))
    | RegStore st \<Rightarrow> Panic ''store does not exist'')"

definition sw_change :: "(('b, 'c, 'p) loggable_store \<Rightarrow> unit res \<times> ('b, 'c, 'p) loggable_store) \<Rightarrow> store_ref
    \<Rightarrow> ('b, 'c, 'p) state_world \<Rightarrow> unit res \<times> ('b, 'c, 'p) state_world" where
  "sw_change f ref w = (case ref of
      SubStore st \<Rightarrow> (case sw_stores w st of
          None \<Rightarrow> (Panic ''store does not exist'', w)
        | Some ls \<Rightarrow> (case f (with_producer (sw_producer w) ls) of
            (r, ls') \<Rightarrow> (r, w\<lparr>sw_stores := (sw_stores w)(st := Some ls'), sw_producer := cl_producer (ls_ChangeLogger ls')\<rparr>)))
    | RegStore st \<Rightarrow> (Panic ''store does not exist'', w))"

definition sw_producer_ops :: "('p, 'm) producer_ops \<Rightarrow> (('b, 'c, 'p) state_world, 'm) producer_ops" where
  "sw_producer_ops pr = \<lparr>pr_transactional = pr_transactional pr, pr_NewRecord = pr_NewRecord pr,
     pr_ProduceSync = (\<lambda>r. sw_lift (pr_ProduceSync pr r)), pr_ProduceAsync = (\<lambda>r. sw_lift (pr_ProduceAsync pr r)),
     pr_InitTransactions = sw_lift (pr_InitTransactions pr), pr_BeginTransaction = sw_lift (pr_BeginTransaction pr),
     pr_SendOffsets = (\<lambda>offs m. sw_lift (pr_SendOffsets pr offs m)), pr_CommitTransaction = sw_lift (pr_CommitTransaction pr),
     pr_AbortTransaction = sw_lift (pr_AbortTransaction pr), pr_Restart = sw_lift (pr_Restart pr),
     pr_Close = sw_lift (pr_Close pr)\<rparr>"

definition world_env :: "('p, 'm) producer_ops \<Rightarrow> ('c, 'b, 'i) cache_ops \<Rightarrow> int \<Rightarrow> (('b, 'c, 'p) state_world, 'm) node_env" where
  "world_env pr ch now = \<lparr>ne_Get = sw_Get ch,
     ne_Set = (\<lambda>ref k v x. sw_change (ls_Set pr ch now k v x) ref), ne_Delete = (\<lambda>ref k. sw_change (ls_Delete pr ch now k) ref),
     ne_producer = sw_producer_ops pr, ne_now = (\<lambda>_. now)\<rparr>"

section \<open>The interface\<close>

text \<open>
  What the nodes rely on: each store the surrounding has is a map, a write changes one key of one store, and reading a key
  that is not there gives nil. \<open>content w ref\<close> is the map.
\<close>

locale node_stores =
  fixes env :: "('w, 'm) node_env"
    and wok :: "'w \<Rightarrow> bool"
    and has :: "'w \<Rightarrow> store_ref \<Rightarrow> bool"
    and content :: "'w \<Rightarrow> store_ref \<Rightarrow> goval \<Rightarrow> goval option"
    and kdom :: "goval \<Rightarrow> bool"
    and vdom :: "goval \<Rightarrow> bool"
  assumes get_content: "\<lbrakk>wok w; has w ref; kdom k\<rbrakk> \<Longrightarrow> ne_Get env ref k w = Ok (or_nil (content w ref k))"
    and set_content: "\<lbrakk>wok w; has w ref; kdom k; vdom v\<rbrakk> \<Longrightarrow> \<exists>w'. ne_Set env ref k v x w = (Ok (), w') \<and> wok w' \<and>
      has w' = has w \<and> (\<forall>ref' k'. kdom k' \<longrightarrow> content w' ref' k' = (if ref' = ref \<and> k' = k then Some v else content w ref' k'))"
    and delete_content: "\<lbrakk>wok w; has w ref; kdom k\<rbrakk> \<Longrightarrow> \<exists>w'. ne_Delete env ref k w = (Ok (), w') \<and> wok w' \<and>
      has w' = has w \<and> (\<forall>ref' k'. kdom k' \<longrightarrow> content w' ref' k' = (if ref' = ref \<and> k' = k then None else content w ref' k'))"
    and value_not_nil: "\<not> vdom GNil"

section \<open>The interpretation\<close>

definition producer_accepts :: "('p, 'm) producer_ops \<Rightarrow> bool" where
  "producer_accepts pr \<longleftrightarrow> (\<forall>r p. (\<exists>p'. pr_ProduceAsync pr r p = (Ok (), p')) \<and> (\<exists>x p'. pr_ProduceSync pr r p = (Ok x, p')))"

definition sw_ok :: "('b \<Rightarrow> bool) \<Rightarrow> encoder \<Rightarrow> (goval \<Rightarrow> bool) \<Rightarrow> encoder \<Rightarrow> (goval \<Rightarrow> bool) \<Rightarrow> ('c \<Rightarrow> 'b \<Rightarrow> bytes \<Rightarrow> slice)
    \<Rightarrow> ('b, 'c, 'p) state_world \<Rightarrow> bool" where
  "sw_ok bok kenc kdom venc vdom over w \<longleftrightarrow> (\<forall>st ls. sw_stores w st = Some ls \<longrightarrow>
     ss_inv bok kenc venc (ls_StateStore ls) \<and> coded kenc kdom venc vdom (ss_view over (ls_StateStore ls)))"

definition sw_has :: "('b, 'c, 'p) state_world \<Rightarrow> store_ref \<Rightarrow> bool" where
  "sw_has w ref = (case ref of SubStore st \<Rightarrow> sw_stores w st \<noteq> None | RegStore st \<Rightarrow> False)"

definition sw_content :: "encoder \<Rightarrow> encoder \<Rightarrow> ('c \<Rightarrow> 'b \<Rightarrow> bytes \<Rightarrow> slice) \<Rightarrow> ('b, 'c, 'p) state_world \<Rightarrow> store_ref
    \<Rightarrow> goval \<Rightarrow> goval option" where
  "sw_content kenc venc over w ref k = (case ref of
      SubStore st \<Rightarrow> (case sw_stores w st of None \<Rightarrow> None
        | Some ls \<Rightarrow> content_of kenc venc (ss_view over (ls_StateStore ls)) k)
    | RegStore st \<Rightarrow> None)"

lemma ls_Log_accepts:
  assumes "producer_accepts pr"
  shows "\<exists>l. ls_Log pr now k v s = (Ok (), s\<lparr>ls_ChangeLogger := l\<rparr>)"
proof -
  let ?c = "ls_ChangeLogger s"
  let ?r = "pr_NewRecord pr k v (tp_Topic (cl_tp ?c)) (tp_Partition (cl_tp ?c)) now [] []"
  obtain p q x where "pr_ProduceAsync pr ?r (cl_producer ?c) = (Ok (), p)" "pr_ProduceSync pr ?r (cl_producer ?c) = (Ok x, q)"
    using assms unfolding producer_accepts_def by blast
  then show ?thesis by (cases "pr_transactional pr") (auto simp: ls_Log_def cl_Log_def Let_def)
qed

context cached_store
begin

text \<open>With a producer that accepts everything a change succeeds.\<close>

lemma ls_change_ok:
  assumes "producer_accepts pr" "ss_inv inv kenc venc (ls_StateStore s)"
    and "f = (case val of Some b \<Rightarrow> ch_set ch b' (Some b) 0 | None \<Rightarrow> ch_delete ch b')"
  shows "\<exists>s'. bindR (wrapR m1 (ls_Log pr now kb vb)) (\<lambda>_. wrapR m2 (on_cache_backend f)) s = (Ok (), s') \<and>
    ss_inv inv kenc venc (ls_StateStore s') \<and>
    ss_view over (ls_StateStore s') = (ss_view over (ls_StateStore s))(b' := val)"
proof -
  obtain l where l: "ls_Log pr now kb vb s = (Ok (), s\<lparr>ls_ChangeLogger := l\<rparr>)" using ls_Log_accepts [OF assms(1)] by blast
  let ?s = "s\<lparr>ls_ChangeLogger := l\<rparr>"
  have "\<exists>c'. f (sc_backendCache (ss_cache (ls_StateStore ?s))) = (Ok (), c') \<and>
      (\<forall>b. over c' b = (over (sc_backendCache (ss_cache (ls_StateStore ?s))) b)(b' := val))"
    using set_over [of b' "Some x" for x] delete_over by (cases val) (auto simp: assms(3))
  moreover have "ss_inv inv kenc venc (ls_StateStore ?s)" using assms(2) by simp
  ultimately obtain st where "on_cache_backend f ?s = (Ok (), ?s\<lparr>ls_StateStore := st\<rparr>)" "ss_inv inv kenc venc st"
      "ss_view over st = (ss_view over (ls_StateStore ?s))(b' := val)" by (rule cache_write)
  with l show ?thesis by (simp add: bindR_def wrapR_def)
qed

lemma ls_set_ok:
  assumes "producer_accepts pr" "ss_inv inv kenc venc (ls_StateStore s)" "kdom k" "vdom v"
  shows "\<exists>s'. ls_Set pr ch now k v x s = (Ok (), s') \<and> ss_inv inv kenc venc (ls_StateStore s') \<and>
    ss_view over (ls_StateStore s') = (ss_view over (ls_StateStore s))(code_of kenc k := Some (code_of venc v))"
proof -
  have e: "st_keyEncoder (ss_Store (ls_StateStore s)) = kenc" "st_valEncoder (ss_Store (ls_StateStore s)) = venc"
    using assms(2) by (simp_all add: ss_inv_def)
  show ?thesis
    using ls_change_ok [OF assms(1,2), of "ch_set ch (code_of kenc k) (Some (code_of venc v)) 0" "code_of kenc k"
        "Some (code_of venc v)"] assms(3,4)
    by (simp add: ls_Set_def e keyc.encode_code valc.encode_code Let_def bindR_def [where m = "wrapR m' (pureR r)" for m' r]
        wrapR_def [where m = "pureR r" for r] pureR_def)
qed

lemma ls_delete_ok:
  assumes "producer_accepts pr" "ss_inv inv kenc venc (ls_StateStore s)" "kdom k"
  shows "\<exists>s'. ls_Delete pr ch now k s = (Ok (), s') \<and> ss_inv inv kenc venc (ls_StateStore s') \<and>
    ss_view over (ls_StateStore s') = (ss_view over (ls_StateStore s))(code_of kenc k := None)"
proof -
  have e: "st_keyEncoder (ss_Store (ls_StateStore s)) = kenc" using assms(2) by (simp add: ss_inv_def)
  show ?thesis
    using ls_change_ok [OF assms(1,2), of "ch_delete ch (code_of kenc k)" "code_of kenc k" None] assms(3)
    by (simp add: ls_Delete_def e keyc.encode_code Let_def bindR_def [where m = "wrapR m' (pureR r)" for m' r]
        wrapR_def [where m = "pureR r" for r] pureR_def)
qed

lemma with_producer_simps [simp]: "ls_StateStore (with_producer p ls) = ls_StateStore ls"
  by (simp add: with_producer_def)

lemma sw_change_ok:
  assumes "sw_ok inv kenc kdom venc vdom over w" "sw_has w ref" "kdom k"
    and "val = None \<or> (\<exists>v. vdom v \<and> val = Some v)"
    and f: "\<And>s. ss_inv inv kenc venc (ls_StateStore s) \<Longrightarrow> \<exists>s'. f s = (Ok (), s') \<and> ss_inv inv kenc venc (ls_StateStore s') \<and>
      ss_view over (ls_StateStore s') = (ss_view over (ls_StateStore s))(code_of kenc k := map_option (code_of venc) val)"
  shows "\<exists>w'. sw_change f ref w = (Ok (), w') \<and> sw_ok inv kenc kdom venc vdom over w' \<and> sw_has w' = sw_has w \<and>
    (\<forall>ref' k'. kdom k' \<longrightarrow> sw_content kenc venc over w' ref' k'
      = (if ref' = ref \<and> k' = k then val else sw_content kenc venc over w ref' k'))"
proof -
  obtain st ls where st: "ref = SubStore st" "sw_stores w st = Some ls"
    using assms(2) by (auto simp: sw_has_def split: store_ref.splits)
  have ls: "ss_inv inv kenc venc (ls_StateStore ls)" "coded kenc kdom venc vdom (ss_view over (ls_StateStore ls))"
    using assms(1) st(2) by (simp_all add: sw_ok_def)
  from f [of "with_producer (sw_producer w) ls"] ls(1) obtain s' where
    s': "f (with_producer (sw_producer w) ls) = (Ok (), s')" "ss_inv inv kenc venc (ls_StateStore s')"
    "ss_view over (ls_StateStore s') = (ss_view over (ls_StateStore ls))(code_of kenc k := map_option (code_of venc) val)"
    by auto
  let ?w = "w\<lparr>sw_stores := (sw_stores w)(st := Some s'), sw_producer := cl_producer (ls_ChangeLogger s')\<rparr>"
  have c: "coded kenc kdom venc vdom (ss_view over (ls_StateStore s'))"
    using assms(3,4) coded_set [OF ls(2)] coded_delete [OF ls(2)] by (auto simp: s'(3))
  have "content_of kenc venc (ss_view over (ls_StateStore s')) k'
      = (if k' = k then val else content_of kenc venc (ss_view over (ls_StateStore ls)) k')" if "kdom k'" for k'
    using assms(3,4) that content_set content_delete by (auto simp: s'(3))
  then have "\<forall>ref' k'. kdom k' \<longrightarrow> sw_content kenc venc over ?w ref' k'
      = (if ref' = ref \<and> k' = k then val else sw_content kenc venc over w ref' k')"
    using st by (auto simp: sw_content_def split: store_ref.splits)
  moreover have "sw_change f ref w = (Ok (), ?w)" using st s'(1) by (simp add: sw_change_def)
  moreover have "sw_ok inv kenc kdom venc vdom over ?w" using assms(1) s'(2) c by (simp add: sw_ok_def)
  moreover have "sw_has ?w = sw_has w" using st by (auto simp: sw_has_def fun_eq_iff split: store_ref.splits)
  ultimately show ?thesis by blast
qed

lemma world_node_stores:
  fixes pr :: "('p, 'm) producer_ops"
  assumes "producer_accepts pr"
  shows "node_stores (world_env pr ch now) (sw_ok inv kenc kdom venc vdom over) sw_has (sw_content kenc venc over) kdom vdom"
proof
  fix w :: "('b, 'c, 'p) state_world" and ref k
  assume w: "sw_ok inv kenc kdom venc vdom over w" "sw_has w ref" "kdom k"
  then obtain st ls where st: "ref = SubStore st" "sw_stores w st = Some ls"
    by (auto simp: sw_has_def split: store_ref.splits)
  with w show "ne_Get (world_env pr ch now) ref k w = Ok (or_nil (sw_content kenc venc over w ref k))"
    using ss_get [of "ls_StateStore ls" k] by (simp add: sw_ok_def world_env_def sw_Get_def sw_content_def)
next
  fix w :: "('b, 'c, 'p) state_world" and ref k v x
  assume w: "sw_ok inv kenc kdom venc vdom over w" "sw_has w ref" "kdom k" "vdom v"
  show "\<exists>w'. ne_Set (world_env pr ch now) ref k v x w = (Ok (), w') \<and> sw_ok inv kenc kdom venc vdom over w' \<and>
      sw_has w' = sw_has w \<and> (\<forall>ref' k'. kdom k' \<longrightarrow> sw_content kenc venc over w' ref' k'
        = (if ref' = ref \<and> k' = k then Some v else sw_content kenc venc over w ref' k'))"
    using sw_change_ok [OF w(1-3), of "Some v" "ls_Set pr ch now k v x"] w(3,4) ls_set_ok [OF assms]
    by (simp add: world_env_def)
next
  fix w :: "('b, 'c, 'p) state_world" and ref k
  assume w: "sw_ok inv kenc kdom venc vdom over w" "sw_has w ref" "kdom k"
  show "\<exists>w'. ne_Delete (world_env pr ch now) ref k w = (Ok (), w') \<and> sw_ok inv kenc kdom venc vdom over w' \<and>
      sw_has w' = sw_has w \<and> (\<forall>ref' k'. kdom k' \<longrightarrow> sw_content kenc venc over w' ref' k'
        = (if ref' = ref \<and> k' = k then None else sw_content kenc venc over w ref' k'))"
    using sw_change_ok [OF w, of None "ls_Delete pr ch now k"] w(3) ls_delete_ok [OF assms]
    by (simp add: world_env_def)
next
  show "\<not> vdom GNil" by (rule nil_value)
qed

end

lemma list_producer_accepts: "producer_accepts (list_producer tx)"
  by (simp add: producer_accepts_def list_producer_def)

interpretation pebns: node_stores "world_env (list_producer tx) (pebble_cache ref_engine) now"
  "sw_ok (pb_inv ref_inv) StringEncoder is_nonempty_str StringEncoder is_nonempty_str ref_over" sw_has
  "sw_content StringEncoder StringEncoder ref_over" is_nonempty_str is_nonempty_str
  by (rule pebss.world_node_stores [OF list_producer_accepts])

section \<open>Aggregation\<close>

text \<open>Children that end normally and leave the store alone.\<close>

definition quiet :: "('w \<Rightarrow> bool) \<Rightarrow> ('w \<Rightarrow> store_ref \<Rightarrow> bool) \<Rightarrow> ('w \<Rightarrow> store_ref \<Rightarrow> goval \<Rightarrow> goval option) \<Rightarrow> (goval \<Rightarrow> bool)
    \<Rightarrow> store_ref \<Rightarrow> 'w run_fun \<Rightarrow> bool" where
  "quiet wok has content kdom ref f \<longleftrightarrow> (\<forall>ctx k v w. wok w \<longrightarrow> (\<exists>r w'. f ctx k v w = (Ok r, w') \<and> wok w' \<and>
     has w' = has w \<and> (\<forall>k'. kdom k' \<longrightarrow> content w' ref k' = content w ref k')))"

lemma quiet_forward:
  assumes "\<forall>c \<in> set (nd_edges n). quiet wok has content kdom ref (run c)" "wok w"
  shows "\<exists>w'. node_Forward run n ctx k v cont w = (Ok (k, v, cont), w') \<and> wok w' \<and> has w' = has w \<and>
    (\<forall>k'. kdom k' \<longrightarrow> content w' ref k' = content w ref k')"
proof -
  let ?I = "\<lambda>w'. wok w' \<and> has w' = has w \<and> (\<forall>k'. kdom k' \<longrightarrow> content w' ref k' = content w ref k')"
  have "\<exists>w'. forR (\<lambda>child. bindR (run child ctx k v) (\<lambda>_. retR ())) (nd_edges n) w = (Ok (), w') \<and> ?I w'"
  proof (rule forR_ok [where I = ?I])
    fix c w1 assume c: "c \<in> set (nd_edges n)" and I: "?I w1"
    then obtain r w' where "run c ctx k v w1 = (Ok r, w')" "wok w'" "has w' = has w1"
      "\<forall>k'. kdom k' \<longrightarrow> content w' ref k' = content w1 ref k'"
      using assms(1) unfolding quiet_def by meson
    with I show "\<exists>w'. bindR (run c ctx k v) (\<lambda>_. retR ()) w1 = (Ok (), w') \<and> ?I w'"
      by (simp add: bindR_Ok retR_def)
  qed (use assms(2) in simp)
  then obtain w' where w': "forR (\<lambda>child. bindR (run child ctx k v) (\<lambda>_. retR ())) (nd_edges n) w = (Ok (), w')" "?I w'"
    by blast
  have "node_Forward run n ctx k v cont w = (Ok (k, v, cont), w')"
    by (simp add: node_Forward_def bindR_def [where m = "forR f xs" for f xs] w'(1) retR_def)
  with w'(2) show ?thesis by blast
qed

lemma orWrap_Ok: "m w = (Ok a, w') \<Longrightarrow> orWrap n msg m w = (Ok a, w')"
  by (simp add: orWrap_def onErr_def)

definition pure_agg :: "(goval \<Rightarrow> goval \<Rightarrow> goval \<Rightarrow> goval) \<Rightarrow> rec_ctx \<Rightarrow> goval \<Rightarrow> goval \<Rightarrow> goval \<Rightarrow> 'w \<Rightarrow> goval res \<times> 'w" where
  "pure_agg A ctx k v old = retR (A k v old)"

definition aggregate_all :: "('w, 'm) node_env \<Rightarrow> (goval \<Rightarrow> goval \<Rightarrow> goval \<Rightarrow> goval) \<Rightarrow> string \<Rightarrow> (nat \<Rightarrow> 'w run_fun) \<Rightarrow> 'w node
    \<Rightarrow> (rec_ctx \<times> goval \<times> goval) list \<Rightarrow> 'w \<Rightarrow> unit res \<times> 'w" where
  "aggregate_all env A st run n =
     forR (\<lambda>(ctx, k, v). bindR (aggregator_Run env (pure_agg A) st run n ctx k v) (\<lambda>_. retR ()))"

context node_stores
begin

text \<open>One record: read, compute, write or delete, forward.\<close>

lemma aggregator_step:
  assumes "wok w" "has w (SubStore st)" "kdom k" "A k v (or_nil (content w (SubStore st) k)) = GNil \<or>
      vdom (A k v (or_nil (content w (SubStore st) k)))"
  defines "new \<equiv> A k v (or_nil (content w (SubStore st) k))"
  obtains w' where "aggregator_Run env (pure_agg A) st run n ctx k v w = node_Forward run n ctx k new True w'" "wok w'" "has w' = has w"
    "\<And>ref' k'. kdom k' \<Longrightarrow> content w' ref' k' = (if ref' = SubStore st \<and> k' = k then (if new = GNil then None else Some new)
      else content w ref' k')"
proof -
  note g = get_content [OF assms(1-3)]
  have run: "aggregator_Run env (pure_agg A) st run n ctx k v w =
      (if new = GNil then bindR (orWrap n ''aggregator delete failed'' (ne_Delete env (SubStore st) k))
           (\<lambda>_. node_Forward run n ctx k new True) w
       else bindR (orWrap n ''aggregator new value set failed'' (ne_Set env (SubStore st) k new 0))
           (\<lambda>_. node_Forward run n ctx k new True) w)"
    unfolding aggregator_Run_def new_def
    by (simp add: bindR_Ok [OF orWrap_Ok] pureW_def g pure_agg_def retR_def)
  show thesis
  proof (cases "new = GNil")
    case True
    obtain w' where "ne_Delete env (SubStore st) k w = (Ok (), w')" "wok w'" "has w' = has w"
      "\<forall>ref' k'. kdom k' \<longrightarrow> content w' ref' k' = (if ref' = SubStore st \<and> k' = k then None else content w ref' k')"
      using delete_content [OF assms(1-3)] by blast
    with True run that [of w'] show thesis by (simp add: bindR_Ok [OF orWrap_Ok])
  next
    case False
    then have "vdom new" using assms(4) new_def by blast
    then obtain w' where "ne_Set env (SubStore st) k new 0 w = (Ok (), w')" "wok w'" "has w' = has w"
      "\<forall>ref' k'. kdom k' \<longrightarrow> content w' ref' k' = (if ref' = SubStore st \<and> k' = k then Some new else content w ref' k')"
      using set_content [OF assms(1-3)] by blast
    with False run that [of w'] show thesis by (simp add: bindR_Ok [OF orWrap_Ok])
  qed
qed

lemma aggregate_all_fold:
  assumes A: "\<forall>k v old. A k v old = GNil \<or> vdom (A k v old)"
    and q: "\<forall>c \<in> set (nd_edges n). quiet wok has content kdom (SubStore st) (run c)"
    and "wok w" "has w (SubStore st)" "\<forall>(ctx, k, v) \<in> set rs. kdom k"
  shows "\<exists>w'. aggregate_all env A st run n rs w = (Ok (), w') \<and> wok w' \<and>
    (\<forall>k. kdom k \<longrightarrow> or_nil (content w' (SubStore st) k)
      = fold (\<lambda>(ctx, k', v) acc. if k' = k then A k v acc else acc) rs (or_nil (content w (SubStore st) k)))"
  using assms(3-5)
proof (induction rs arbitrary: w)
  case Nil
  then show ?case by (simp add: aggregate_all_def)
next
  case (Cons r rs)
  obtain ctx k v where r: "r = (ctx, k, v)" by (cases r)
  let ?new = "A k v (or_nil (content w (SubStore st) k))"
  obtain w1 where w1: "aggregator_Run env (pure_agg A) st run n ctx k v w = node_Forward run n ctx k ?new True w1" "wok w1"
    "has w1 = has w" "\<And>ref' k'. kdom k' \<Longrightarrow> content w1 ref' k' = (if ref' = SubStore st \<and> k' = k
      then (if ?new = GNil then None else Some ?new) else content w ref' k')"
    using aggregator_step [OF Cons.prems(1,2), of k A v run n ctx] A Cons.prems(3) r by auto
  obtain w2 where w2: "node_Forward run n ctx k ?new True w1 = (Ok (k, ?new, True), w2)" "wok w2" "has w2 = has w1"
    "\<And>k'. kdom k' \<Longrightarrow> content w2 (SubStore st) k' = content w1 (SubStore st) k'"
    using quiet_forward [OF q w1(2)] by blast
  have "has w2 (SubStore st)" using w1(3) w2(3) Cons.prems(2) by simp
  then obtain w' where w': "aggregate_all env A st run n rs w2 = (Ok (), w')" "wok w'"
    "\<And>k. kdom k \<Longrightarrow> or_nil (content w' (SubStore st) k)
      = fold (\<lambda>(ctx, k', v) acc. if k' = k then A k v acc else acc) rs (or_nil (content w2 (SubStore st) k))"
    using Cons.IH [OF w2(2)] Cons.prems(3) by auto
  have "aggregate_all env A st run n (r # rs) w = (Ok (), w')"
    using w1(1) w2(1) w'(1) by (simp add: aggregate_all_def r bindR_def retR_def)
  moreover have "or_nil (content w2 (SubStore st) k') = (if k = k' then A k' v (or_nil (content w (SubStore st) k'))
      else or_nil (content w (SubStore st) k'))" if "kdom k'" for k'
    using that by (auto simp: w2(4) w1(4) or_nil_def)
  ultimately show ?case using w'(2,3) by (auto simp: r)
qed

end

text \<open>C19: Aggregation is a fold. After an aggregator has seen a sequence of records, its store holds for every key the fold of the
  aggregator function over the values of the records with this key, in the order they came, starting from what the store held;
  nil stands for no record, and an aggregate of nil deletes the key. The children see the new aggregates, but must not
  write to the aggregator's store.\<close>
theorem aggregate_fold:
  assumes "node_stores env wok has content kdom vdom" "\<forall>k v old. A k v old = GNil \<or> vdom (A k v old)"
    and "\<forall>c \<in> set (nd_edges n). quiet wok has content kdom (SubStore st) (run c)"
    and "wok w" "has w (SubStore st)" "\<forall>(ctx, k, v) \<in> set rs. kdom k"
  shows "\<exists>w'. aggregate_all env A st run n rs w = (Ok (), w') \<and>
    (\<forall>k. kdom k \<longrightarrow> or_nil (content w' (SubStore st) k)
      = fold (\<lambda>(ctx, k', v) acc. if k' = k then A k v acc else acc) rs (or_nil (content w (SubStore st) k)))"
  using node_stores.aggregate_all_fold [OF assms] by blast

definition sample_world :: "(ref_db pebble, ref_op list, krecord list) state_world" where
  "sample_world = \<lparr>sw_stores = (\<lambda>st. if st \<in> {''l'', ''r''} then Some \<lparr>ls_StateStore = sample_state,
       ls_ChangeLogger = NewChangeLogger [] \<lparr>tp_Topic = st, tp_Partition = 0\<rparr>\<rparr> else None), sw_producer = []\<rparr>"

definition plain_node :: "nat list \<Rightarrow> 'w processor \<Rightarrow> 'w node" where
  "plain_node es p = \<lparr>nd_id = NewNodeId 0 [] [], nd_name = [], nd_edges = es, nd_proc = p\<rparr>"

definition tally :: "goval \<Rightarrow> goval \<Rightarrow> goval \<Rightarrow> goval" where
  "tally k v old = GStr (CHR ''+'' # (case old of GStr s \<Rightarrow> s | _ \<Rightarrow> []))"

lemma sample_world_ok:
  "sw_ok (pb_inv ref_inv) StringEncoder is_nonempty_str StringEncoder is_nonempty_str ref_over sample_world"
  by (simp add: sw_ok_def sample_world_def sample_state_inv sample_state_view coded_def)

lemma sample_world_content: "sw_content StringEncoder StringEncoder ref_over sample_world ref k = None"
  by (simp add: sw_content_def sample_world_def sample_state_view content_of_def split: store_ref.splits)

lemma sample_world_stores: "node_stores (world_env (list_producer True) (pebble_cache ref_engine) 0)
    (sw_ok (pb_inv ref_inv) StringEncoder is_nonempty_str StringEncoder is_nonempty_str ref_over) sw_has
    (sw_content StringEncoder StringEncoder ref_over) is_nonempty_str is_nonempty_str"
  by (rule pebns.node_stores_axioms)

theorem aggregate_fold_witness:
  "\<exists>w'. aggregate_all (world_env (list_producer True) (pebble_cache ref_engine) 0) tally ''l''
      (\<lambda>_ _ _ _. retR (GNil, GNil, False)) (plain_node [] PMerger)
      [(sample_ctx, GStr ''a'', GStr ''x''), (sample_ctx, GStr ''b'', GStr ''x''), (sample_ctx, GStr ''a'', GStr ''y'')] sample_world
      = (Ok (), w') \<and>
    or_nil (sw_content StringEncoder StringEncoder ref_over w' (SubStore ''l'') (GStr ''a'')) = GStr ''++''"
proof -
  have t: "\<forall>k v old. tally k v old = GNil \<or> is_nonempty_str (tally k v old)"
    by (simp add: tally_def is_nonempty_str_def)
  have h: "sw_has sample_world (SubStore ''l'')" by (simp add: sw_has_def sample_world_def)
  let ?rs = "[(sample_ctx, GStr ''a'', GStr ''x''), (sample_ctx, GStr ''b'', GStr ''x''), (sample_ctx, GStr ''a'', GStr ''y'')]"
  have d: "\<forall>(ctx, k, v) \<in> set ?rs. is_nonempty_str k" "is_nonempty_str (GStr ''a'')" by (simp_all add: is_nonempty_str_def)
  have q: "\<forall>c \<in> set (nd_edges (plain_node [] PMerger)). Q c" for Q by (simp add: plain_node_def)
  have f: "fold (\<lambda>(ctx, k', v) acc. if k' = GStr ''a'' then tally (GStr ''a'') v acc else acc) ?rs
      (or_nil (sw_content StringEncoder StringEncoder ref_over sample_world (SubStore ''l'') (GStr ''a''))) = GStr ''++''"
    by (simp add: sample_world_content or_nil_def tally_def)
  obtain w' where w': "aggregate_all (world_env (list_producer True) (pebble_cache ref_engine) 0) tally ''l''
      (\<lambda>_ _ _ _. retR (GNil, GNil, False)) (plain_node [] PMerger) ?rs sample_world = (Ok (), w')"
    "\<forall>k. is_nonempty_str k \<longrightarrow> or_nil (sw_content StringEncoder StringEncoder ref_over w' (SubStore ''l'') k)
      = fold (\<lambda>(ctx, k', v) acc. if k' = k then tally k v acc else acc) ?rs
          (or_nil (sw_content StringEncoder StringEncoder ref_over sample_world (SubStore ''l'') k))"
    using aggregate_fold [OF sample_world_stores t q sample_world_ok h d(1), of "\<lambda>_ _ _ _. retR (GNil, GNil, False)"] by blast
  have "or_nil (sw_content StringEncoder StringEncoder ref_over w' (SubStore ''l'') (GStr ''a'')) = GStr ''++''"
    unfolding f [symmetric] by (rule w'(2) [rule_format, OF d(2)])
  with w'(1) show ?thesis by blast
qed

section \<open>Table joins\<close>

lemma bindR_assoc: "bindR (bindR m f) h = bindR m (\<lambda>a. bindR (f a) h)"
  by (rule ext) (auto simp: bindR_def split: prod.splits res.splits)

lemma bindR_retR [simp]: "bindR (retR a) f = f a"
  by (rule ext) (simp add: bindR_def retR_def)

lemma bindR_orWrap: "m w = (Ok a, w') \<Longrightarrow> bindR (orWrap n msg m) f w = f a w'"
  by (simp add: bindR_def orWrap_def onErr_def)

lemma node_Forward_one:
  "nd_edges n = [j] \<Longrightarrow> node_Forward run n ctx k v cont = bindR (run j ctx k v) (\<lambda>_. retR (k, v, cont))"
proof (rule ext)
  fix w
  assume e: "nd_edges n = [j]"
  have f: "forR f [x] = bindR (f x) (\<lambda>_. retR ())" for f :: "nat \<Rightarrow> 'a \<Rightarrow> unit res \<times> 'a" and x
    by (auto simp: fun_eq_iff bindR_def retR_def split: prod.splits res.splits)
  show "node_Forward run n ctx k v cont w = bindR (run j ctx k v) (\<lambda>_. retR (k, v, cont)) w"
    unfolding node_Forward_def e f by (simp add: bindR_assoc)
qed

text \<open>A table and its joiner in a network: the table converter at \<open>t\<close> feeds the joiner at \<open>j\<close>, which reads the other table.\<close>

definition join_network :: "('w, 'm) node_env \<Rightarrow> 'w node list \<Rightarrow> nat \<Rightarrow> nat \<Rightarrow> join_side \<Rightarrow> bool \<Rightarrow> string \<Rightarrow> string
    \<Rightarrow> (goval \<Rightarrow> goval \<Rightarrow> goval) \<Rightarrow> bool" where
  "join_network env g t j side required own other M \<longleftrightarrow>
     nd_proc (g ! t) = PTableConverter own \<and> nd_edges (g ! t) = [j] \<and>
     nd_proc (g ! j) = PStreamJoiner \<lparr>sj_OtherSideRequired = required, sj_CurrentSide = side, sj_OtherStoreName = other,
       sj_ValueMapper = (\<lambda>ctx l r. retR (M l r)), sj_OtherSideLookupFunc = Some (defaultLookupFunc env),
       sj_OtherSideFilters = []\<rparr>"

context node_stores
begin

lemma stream_joiner_step:
  assumes "nd_proc n = PStreamJoiner \<lparr>sj_OtherSideRequired = required, sj_CurrentSide = side, sj_OtherStoreName = other,
       sj_ValueMapper = (\<lambda>ctx l r. retR (M l r)), sj_OtherSideLookupFunc = Some (defaultLookupFunc env),
       sj_OtherSideFilters = []\<rparr>"
    and "wok w" "has w (SubStore other)" "kdom k"
  shows "processor_Run env g run n ctx k v w =
    (let x = or_nil (content w (SubStore other) k)
     in if x = GNil \<and> required then (Ok (GNil, GNil, False), w)
        else (case join_sides side v x of (l, r) \<Rightarrow> node_Forward run n ctx k (M l r) True w))"
proof -
  note g = get_content [OF assms(2-4)]
  have lk: "defaultLookupFunc env ctx (SubStore other) k v w = (Ok (or_nil (content w (SubStore other) k)), w)"
    by (simp add: defaultLookupFunc_def wrapR_def pureW_def g)
  have m: "bindR (orWrap n msg (retR (M l r))) f = f (M l r)" for msg f l r and h :: "goval \<Rightarrow> 'w \<Rightarrow> run_result \<times> 'w"
    by (rule ext) (simp add: bindR_def orWrap_def onErr_def retR_def)
  show ?thesis
    by (simp add: processor_Run_def assms(1) stream_joiner_Run_def bindR_orWrap lk m node_Ignore_def retR_def Let_def
        case_prod_beta)
qed

lemma table_join_step:
  assumes net: "join_network env g t j side required own other M" and "own \<noteq> other"
    and w: "wok w" "has w (SubStore own)" "has w (SubStore other)" and k: "kdom k" and v: "vdom v"
  shows "\<exists>w1. wok w1 \<and> has w1 = has w \<and> content w1 (SubStore own) k = Some v \<and>
    (\<forall>ref' k'. kdom k' \<longrightarrow> \<not> (ref' = SubStore own \<and> k' = k) \<longrightarrow> content w1 ref' k' = content w ref' k') \<and>
    node_Run env g (Suc (Suc d)) t ctx k v w =
      (case join_sides side (or_nil (content w1 (SubStore own) k)) (or_nil (content w1 (SubStore other) k)) of (l, r) \<Rightarrow>
        if content w1 (SubStore other) k \<in> {None, Some GNil} \<and> required then (Ok (k, v, True), w1)
        else bindR (node_Forward (node_Run env g d) (g ! j) ctx k (M l r) True) (\<lambda>_. retR (k, v, True)) w1)"
proof -
  from net have t: "nd_proc (g ! t) = PTableConverter own" "nd_edges (g ! t) = [j]"
    and j: "nd_proc (g ! j) = PStreamJoiner \<lparr>sj_OtherSideRequired = required, sj_CurrentSide = side, sj_OtherStoreName = other,
       sj_ValueMapper = (\<lambda>ctx l r. retR (M l r)), sj_OtherSideLookupFunc = Some (defaultLookupFunc env),
       sj_OtherSideFilters = []\<rparr>" by (simp_all add: join_network_def)
  obtain w1 where w1: "ne_Set env (SubStore own) k v 0 w = (Ok (), w1)" "wok w1" "has w1 = has w"
    "\<And>ref' k'. kdom k' \<Longrightarrow> content w1 ref' k' = (if ref' = SubStore own \<and> k' = k then Some v else content w ref' k')"
    using set_content [OF w(1,2) k v] by blast
  have run: "node_Run env g (Suc (Suc d)) t ctx k v w =
      bindR (processor_Run env g (node_Run env g d) (g ! j) ctx k v) (\<lambda>_. retR (k, v, True)) w1"
    by (simp add: processor_Run_def [of _ _ _ "g ! t"] t(1) table_converter_Run_def bindR_orWrap w1(1)
        node_Forward_one [OF t(2)])
  have h: "has w1 (SubStore other)" using w(3) w1(3) by simp
  have x: "or_nil (content w1 (SubStore other) k) = GNil \<longleftrightarrow> content w1 (SubStore other) k \<in> {None, Some GNil}"
    by (auto simp: or_nil_def split: option.splits)
  have o: "content w1 (SubStore own) k = Some v" using w1(4) [OF k] by simp
  have "node_Run env g (Suc (Suc d)) t ctx k v w =
      (case join_sides side v (or_nil (content w1 (SubStore other) k)) of (l, r) \<Rightarrow>
        if or_nil (content w1 (SubStore other) k) = GNil \<and> required then (Ok (k, v, True), w1)
        else bindR (node_Forward (node_Run env g d) (g ! j) ctx k (M l r) True) (\<lambda>_. retR (k, v, True)) w1)"
    unfolding run
    by (cases "join_sides side v (or_nil (content w1 (SubStore other) k))")
      (simp add: bindR_def stream_joiner_step [OF j w1(2) h k] Let_def retR_def)
  then show ?thesis unfolding x using w1(2-4) o by (intro exI [of _ w1]) (auto simp: or_nil_def)
qed

end

text \<open>C20: A table join is up to date. When a record with a value arrives at one of two joined tables, the table is updated first, and
  what goes on from the joiner is the value mapper applied to what the two tables hold for the key then, the left
  table's value first; if the other table has no value for the key and the join requires it, nothing goes on and the run still
  succeeds. The other table is not changed.\<close>
theorem table_join_current:
  assumes "node_stores env wok has content kdom vdom" "join_network env g t j side required own other M" "own \<noteq> other"
    and "wok w" "has w (SubStore own)" "has w (SubStore other)" "kdom k" "vdom v"
  shows "\<exists>w1. wok w1 \<and> content w1 (SubStore own) k = Some v \<and>
    (\<forall>ref' k'. kdom k' \<longrightarrow> \<not> (ref' = SubStore own \<and> k' = k) \<longrightarrow> content w1 ref' k' = content w ref' k') \<and>
    node_Run env g (Suc (Suc d)) t ctx k v w =
      (case join_sides side (or_nil (content w1 (SubStore own) k)) (or_nil (content w1 (SubStore other) k)) of (l, r) \<Rightarrow>
        if content w1 (SubStore other) k \<in> {None, Some GNil} \<and> required then (Ok (k, v, True), w1)
        else bindR (node_Forward (node_Run env g d) (g ! j) ctx k (M l r) True) (\<lambda>_. retR (k, v, True)) w1)"
  using node_stores.table_join_step [OF assms] by blast

definition sample_join :: "(ref_db pebble, ref_op list, krecord list) state_world node list" where
  "sample_join = [plain_node [1] (PTableConverter ''l''),
     plain_node [] (PStreamJoiner \<lparr>sj_OtherSideRequired = True, sj_CurrentSide = LeftSide, sj_OtherStoreName = ''r'',
       sj_ValueMapper = (\<lambda>ctx l r. retR l),
       sj_OtherSideLookupFunc = Some (defaultLookupFunc (world_env (list_producer True) (pebble_cache ref_engine) 0)),
       sj_OtherSideFilters = []\<rparr>)]"

theorem table_join_current_witness:
  "\<exists>w1. node_Run (world_env (list_producer True) (pebble_cache ref_engine) 0) sample_join (Suc (Suc 0)) 0 sample_ctx
      (GStr ''a'') (GStr ''x'') sample_world = (Ok (GStr ''a'', GStr ''x'', True), w1) \<and>
    sw_content StringEncoder StringEncoder ref_over w1 (SubStore ''l'') (GStr ''a'') = Some (GStr ''x'')"
proof -
  let ?env = "world_env (list_producer True) (pebble_cache ref_engine) 0"
  have net: "join_network ?env sample_join 0 1 LeftSide True ''l'' ''r'' (\<lambda>l r. l)"
    by (simp add: join_network_def sample_join_def plain_node_def)
  have h: "sw_has sample_world (SubStore ''l'')" "sw_has sample_world (SubStore ''r'')"
    by (simp_all add: sw_has_def sample_world_def)
  have d: "is_nonempty_str (GStr ''a'')" "is_nonempty_str (GStr ''x'')" by (simp_all add: is_nonempty_str_def)
  have lr: "''l'' \<noteq> ''r''" by simp
  obtain w1 where w1: "sw_content StringEncoder StringEncoder ref_over w1 (SubStore ''l'') (GStr ''a'') = Some (GStr ''x'')"
    "\<forall>ref' k'. is_nonempty_str k' \<longrightarrow> \<not> (ref' = SubStore ''l'' \<and> k' = GStr ''a'') \<longrightarrow>
      sw_content StringEncoder StringEncoder ref_over w1 ref' k' = sw_content StringEncoder StringEncoder ref_over sample_world ref' k'"
    "node_Run ?env sample_join (Suc (Suc 0)) 0 sample_ctx (GStr ''a'') (GStr ''x'') sample_world =
      (case join_sides LeftSide (or_nil (sw_content StringEncoder StringEncoder ref_over w1 (SubStore ''l'') (GStr ''a'')))
          (or_nil (sw_content StringEncoder StringEncoder ref_over w1 (SubStore ''r'') (GStr ''a''))) of (l, r) \<Rightarrow>
        if sw_content StringEncoder StringEncoder ref_over w1 (SubStore ''r'') (GStr ''a'') \<in> {None, Some GNil} \<and> True
        then (Ok (GStr ''a'', GStr ''x'', True), w1)
        else bindR (node_Forward (node_Run ?env sample_join 0) (sample_join ! 1) sample_ctx (GStr ''a'') l True)
          (\<lambda>_. retR (GStr ''a'', GStr ''x'', True)) w1)"
    using table_join_current [OF sample_world_stores net lr sample_world_ok h d] by blast
  have "sw_content StringEncoder StringEncoder ref_over w1 (SubStore ''r'') (GStr ''a'') = None"
    using w1(2) d(1) by (simp add: sample_world_content)
  with w1(1,3) show ?thesis by (auto simp: join_sides_def)
qed

text \<open>A tombstone does not reach a table. A record without a value on the source topic of a table is handed to the table as nil; the
  table sets nil in its store, the store, since it logs changes, encodes nil as a value, the encoder refuses, and the record fails
  with that error. No store changes: the row stays. With the byte encoder the run panics instead.\<close>
theorem table_tombstone_rejected:
  fixes pr :: "('p, 'm) producer_ops"
  assumes src: "nd_proc (g ! i) = PSource s" "nd_edges (g ! i) = [t]" "src_Key s = Some dec" "enc_decode dec kb = Ok k"
    and tbl: "nd_proc (g ! t) = PTableConverter st" and vb: "slice_len vb < 1"
    and ls: "sw_stores w st = Some ls" "enc_encode (st_keyEncoder (ss_Store (ls_StateStore ls))) k = Ok kb'"
      "enc_encode (st_valEncoder (ss_Store (ls_StateStore ls))) GNil = Err e"
  shows "(\<exists>w'. node_Run (world_env pr ch now) g (Suc (Suc d)) i ctx (GBytes kb) (GBytes vb) w =
      (Err (node_WrapErrWith (g ! t) (EWrap ''value encode err'' e) ''state-store write failed''), w') \<and>
      (\<forall>ref key. sw_Get ch ref key w' = sw_Get ch ref key w)) \<and>
    (\<exists>m. enc_encode StringEncoder GNil = Err m) \<and> (\<exists>m. enc_encode IntEncoder GNil = Err m) \<and>
    (\<exists>m. enc_encode ByteEncoder GNil = Panic m)"
proof -
  let ?ls = "with_producer (sw_producer w) ls"
  let ?w = "w\<lparr>sw_stores := (sw_stores w)(st := Some ?ls), sw_producer := sw_producer w\<rparr>"
  have st: "ls_StateStore ?ls = ls_StateStore ls" "cl_producer (ls_ChangeLogger ?ls) = sw_producer w"
    by (simp_all add: with_producer_def)
  have set: "ne_Set (world_env pr ch now) (SubStore st) k GNil 0 w = (Err (EWrap ''value encode err'' e), ?w)"
    by (simp add: world_env_def sw_change_def ls(1) ls_Set_def st ls(2,3) Let_def bindR_def wrapR_def pureR_def)
  let ?ctx = "bind_params (src_binders s) ctx"
  have t: "node_Run (world_env pr ch now) g (Suc d) t ?ctx k GNil w =
      (Err (node_WrapErrWith (g ! t) (EWrap ''value encode err'' e) ''state-store write failed''), ?w)"
    by (simp add: processor_Run_def tbl table_converter_Run_def bindR_def orWrap_def onErr_def set)
  have "node_Run (world_env pr ch now) g (Suc (Suc d)) i ctx (GBytes kb) (GBytes vb) w =
      (Err (node_WrapErrWith (g ! t) (EWrap ''value encode err'' e) ''state-store write failed''), ?w)"
    using vb unfolding node_Run.simps(2) [of _ g "Suc d" i]
    by (simp add: processor_Run_def [of _ _ _ "g ! i"] src source_Run_def as_bytes_def decode_with_def orEncodingErr_def
        node_Forward_one [OF src(2)] bindR_def onErr_def pureR_def t Let_def del: node_Run.simps)
  moreover have "sw_Get ch ref key ?w = sw_Get ch ref key w" for ref key
    by (simp add: sw_Get_def ls(1) st split: store_ref.splits)
  moreover have "\<exists>m. enc_encode StringEncoder GNil = Err m" "\<exists>m. enc_encode IntEncoder GNil = Err m"
    "\<exists>m. enc_encode ByteEncoder GNil = Panic m"
    by (simp_all add: StringEncoder_def string_Encode_def IntEncoder_def int_Encode_def ByteEncoder_def byte_Encode_def)
  ultimately show ?thesis by blast
qed

definition empty_topic_config :: topic_config where
  "empty_topic_config = \<lparr>tc_NumPartitions = 0, tc_ReplicationFactor = 0, tc_ConfigEntries = Map.empty, tc_Internal = False,
     tc_AutoCreate = False\<rparr>"

definition sample_source :: ksource where
  "sample_source = \<lparr>src_Key = Some StringEncoder, src_Value = Some StringEncoder, src_topic = ''t'',
     src_offsetReset = 0, src_coPartitionedWith = None, src_binders = [], src_configs_name = [],
     src_configs = empty_topic_config, src_autoCreate = False, src_autoOpts = \<lparr>ao_nameFormatter = None, ao_partitionAs = None,
       ao_partitionCount = 0, ao_replicaCount = 0, ao_configEntries = Map.empty\<rparr>, src_internal = False,
     src_global = False, src_formatter = None\<rparr>"

definition sample_table :: "(ref_db pebble, ref_op list, krecord list) state_world node list" where
  "sample_table = [plain_node [1] (PSource sample_source), plain_node [] (PTableConverter ''l'')]"

theorem table_tombstone_rejected_witness:
  "\<exists>w' e. node_Run (world_env (list_producer True) (pebble_cache ref_engine) 0) sample_table
      (Suc (Suc 0)) 0 sample_ctx (GBytes (Some (bytes_of ''a''))) (GBytes None) sample_world = (Err e, w')"
proof -
  let ?ls = "\<lparr>ls_StateStore = sample_state, ls_ChangeLogger = NewChangeLogger ([] :: krecord list) \<lparr>tp_Topic = ''l'', tp_Partition = 0\<rparr>\<rparr>"
  have "\<exists>m. enc_encode StringEncoder GNil = Err m" by (simp add: StringEncoder_def string_Encode_def)
  then obtain m where m: "enc_encode (st_valEncoder (ss_Store (ls_StateStore ?ls))) GNil = Err m" by (auto simp: sample_state_def)
  have k: "enc_encode (st_keyEncoder (ss_Store (ls_StateStore ?ls))) (GStr ''a'') = Ok (Some (bytes_of ''a''))"
    by (simp add: sample_state_def StringEncoder_def string_Encode_def)
  have d: "enc_decode StringEncoder (Some (bytes_of ''a'')) = Ok (GStr ''a'')"
    by (simp add: StringEncoder_def string_Decode_def)
  have ls: "sw_stores sample_world ''l'' = Some ?ls" by (simp add: sample_world_def)
  have g: "nd_proc (sample_table ! 0) = PSource sample_source" "nd_edges (sample_table ! 0) = [1]"
    "nd_proc (sample_table ! 1) = PTableConverter ''l''" by (simp_all add: sample_table_def plain_node_def)
  have key: "src_Key sample_source = Some StringEncoder" by (simp add: sample_source_def)
  have v: "slice_len None < 1" by simp
  show ?thesis
    using table_tombstone_rejected [OF g(1,2) key d g(3) v ls k m] by blast
qed

section \<open>Joins with a global table and in a window\<close>

definition global_joiner :: "('w, 'm) node_env \<Rightarrow> joiner_type \<Rightarrow> string \<Rightarrow> (goval \<Rightarrow> goval \<Rightarrow> goval) \<Rightarrow> (goval \<Rightarrow> goval \<Rightarrow> goval)
    \<Rightarrow> 'w global_table_joiner" where
  "global_joiner env typ st K M = \<lparr>gj_Store = st, gj_KeyMapper = (\<lambda>ctx k v. retR (K k v)), gj_ValueMapper = (\<lambda>ctx l r. retR (M l r)),
     gj_JoinType = typ, gj_RightKeyLookupFunc = Some (global_lookup env)\<rparr>"

text \<open>C21: Joining with a global table. The key of the global record is what the key mapper makes of the stream record. If the global
  table has it, or for a left join in any case, the mapper's value goes on under the stream record's own key. An inner join with
  a key that is not there is not just skipped: the run fails, and neither this node nor the nodes below it have changed
  anything.\<close>
theorem global_join_result:
  assumes "nd_proc n = PGlobalTableJoiner (global_joiner env typ st K M)" "ne_Get env (RegStore st) (K k v) w = Ok rv"
  shows "(rv \<noteq> GNil \<or> typ \<noteq> InnerJoin \<longrightarrow>
      processor_Run env g run n ctx k v w = node_Forward run n ctx k (M v rv) True w) \<and>
    (rv = GNil \<and> typ = InnerJoin \<longrightarrow> (\<exists>e. processor_Run env g run n ctx k v w = (Err e, w)))"
  using assms
  by (simp add: processor_Run_def global_table_joiner_Run_def global_join_def global_joiner_def global_lookup_def bindR_def
      onErr_def orWrap_def retR_def wrapR_def pureW_def pureR_def)

definition global_env :: "(krecord list, unit) node_env" where
  "global_env = \<lparr>ne_Get = (\<lambda>ref k w. Ok (if k = GStr ''known'' then GStr ''row'' else GNil)), ne_Set = (\<lambda>_ _ _ _ w. (Ok (), w)),
     ne_Delete = (\<lambda>_ _ w. (Ok (), w)), ne_producer = list_producer True, ne_now = (\<lambda>_. 0)\<rparr>"

theorem global_join_result_witness:
  "\<exists>e. processor_Run global_env [] (\<lambda>_ _ _ _. retR (GNil, GNil, False))
    (plain_node [] (PGlobalTableJoiner (global_joiner global_env InnerJoin ''g'' (\<lambda>k v. v) (\<lambda>l r. r)))) sample_ctx
    (GStr ''k'') (GStr ''unknown'') [] = (Err e, [])"
  using global_join_result [of "plain_node [] (PGlobalTableJoiner (global_joiner global_env InnerJoin ''g'' (\<lambda>k v. v) (\<lambda>l r. r)))"
      global_env InnerJoin "''g''" "\<lambda>k v. v" "\<lambda>l r. r" "GStr ''k''" "GStr ''unknown''" "[]" GNil "[]"
      "\<lambda>_ _ _ _. retR (GNil, GNil, False)" sample_ctx]
  by (simp add: plain_node_def global_env_def)

text \<open>
  In an inner window join the value of a record is kept only if the other side has none yet: a record that finds a partner is
  joined, but a later record of the other side will not find it.
\<close>

lemma window_join_misses:
  assumes "node_stores env wok has content kdom vdom" "nd_proc n = PWindowJoiner wj" "wj_OtherSideRequired wj"
    and "wok w" "has w (SubStore (wj_OtherStoreName wj))" "has w (SubStore (wj_StoreName wj))" "kdom k" "vdom v"
    and "wj_ValueMapper wj = (\<lambda>ctx l r. retR (M l r))"
  shows "content w (SubStore (wj_OtherStoreName wj)) k = Some x \<Longrightarrow> x \<noteq> GNil \<Longrightarrow>
      processor_Run env g run n ctx k v w =
        (case join_sides (wj_CurrentSide wj) v x of (l, r) \<Rightarrow> node_Forward run n ctx k (M l r) True w)"
    and "content w (SubStore (wj_OtherStoreName wj)) k = None \<Longrightarrow>
      \<exists>w'. processor_Run env g run n ctx k v w = (Ok (GNil, GNil, False), w') \<and> content w' (SubStore (wj_StoreName wj)) k = Some v"
proof -
  note get = node_stores.get_content [OF assms(1,4,5,7)]
  show "processor_Run env g run n ctx k v w =
        (case join_sides (wj_CurrentSide wj) v x of (l, r) \<Rightarrow> node_Forward run n ctx k (M l r) True w)"
    if "content w (SubStore (wj_OtherStoreName wj)) k = Some x" "x \<noteq> GNil"
    using that get assms(2,3,9)
    by (auto simp: processor_Run_def window_joiner_Run_def bindR_def orWrap_def onErr_def pureW_def retR_def or_nil_def
        split: prod.splits)
  obtain w' where w': "ne_Set env (SubStore (wj_StoreName wj)) k v (wj_Duration wj) w = (Ok (), w')"
    "\<forall>ref' k'. kdom k' \<longrightarrow> content w' ref' k' = (if ref' = SubStore (wj_StoreName wj) \<and> k' = k then Some v else content w ref' k')"
    using node_stores.set_content [OF assms(1,4,6,7,8)] by blast
  show "\<exists>w'. processor_Run env g run n ctx k v w = (Ok (GNil, GNil, False), w') \<and> content w' (SubStore (wj_StoreName wj)) k = Some v"
    if "content w (SubStore (wj_OtherStoreName wj)) k = None"
    using that get assms(2,3,7) w'
    by (intro exI [of _ w'])
      (simp add: processor_Run_def window_joiner_Run_def bindR_def orWrap_def onErr_def pureW_def retR_def or_nil_def node_Ignore_def)
qed

end
