(* ===== verification/Network.thy ===== *)
theory Network
  imports Wiring Node_Stores
begin

text \<open>
  What the wiring invariant gives for a built sub topology: \<open>Build\<close> of \<open>src/streams/ksub_topology_builder.go\<close> succeeds whenever its
  nodes and stores can be built, it connects exactly the nodes the edges name, and a run through the result ends within a stack
  as deep as the sub topology has nodes.
\<close>

section \<open>Building\<close>

lemma mapE_total: "(\<And>x. x \<in> set xs \<Longrightarrow> \<exists>y. f x = Ok y) \<Longrightarrow> \<exists>ys. mapE f xs = Ok ys"
proof (induction xs)
  case (Cons x xs)
  obtain y where "f x = Ok y" using Cons.prems by (meson list.set_intros(1))
  moreover obtain ys where "mapE f xs = Ok ys" using Cons by (meson list.set_intros(2))
  ultimately show ?case by simp
qed simp

definition no_sink_parents :: "nat \<Rightarrow> ('w, 'b) heap \<Rightarrow> bool" where
  "no_sink_parents s h \<longleftrightarrow> (\<forall>(p, c) \<in> set (sub_Edges s h). \<not> builder_is_sink (hp_nodes h ! p))"

lemma sub_Build_Ok:
  assumes wf: "sub_wf s h" and sinks: "no_sink_parents s h" and t: "sub_Build env topicMeta buildStore s h = Ok t"
  shows "wired h (length (sub_Nodes s h)) (sub_Nodes s h) (sub_Edges s h) (ks_nodes t)"
proof -
  from t obtain nds0 nds stores where b: "mapE (\<lambda>a. node_Build env topicMeta (hp_nodes h ! a)) (sub_Nodes s h) = Ok nds0"
    "connect_edges h (sub_Edges s h) nds0 = Ok nds" "ks_nodes t = nds"
    by (auto simp: sub_Build_def bind_res_Ok_iff)
  from sub_Build_wired [OF wf sinks [unfolded no_sink_parents_def] b(1)] b(2,3) show ?thesis by auto
qed

section \<open>Depth of runs\<close>

text \<open>A run whose calls at depth 0 do whatever \<open>bottom\<close> does: the exhausted stack is one choice of it.\<close>

fun run_over :: "(nat \<Rightarrow> 'w run_fun) \<Rightarrow> ('w, 'm) node_env \<Rightarrow> 'w node list \<Rightarrow> nat \<Rightarrow> nat \<Rightarrow> 'w run_fun" where
  "run_over bottom env g 0 i = bottom i"
| "run_over bottom env g (Suc depth) i = processor_Run env g (run_over bottom env g depth) (g ! i)"

lemma run_over_ranked:
  assumes "ranked rank g" "i < length g" "rank i < d"
  shows "run_over bottom env g d i ctx k v = node_Run env g d i ctx k v"
  using assms(2,3)
proof (induction d arbitrary: i ctx k v)
  case (Suc d)
  have "run_over bottom env g d c ctx k v = node_Run env g d c ctx k v" if "c \<in> set (nd_edges (g ! i))" for c ctx k v
  proof (rule Suc.IH)
    from that assms(1) Suc.prems(1) have "c < length g" "rank c < rank i" unfolding ranked_def by blast+
    with Suc.prems(2) show "c < length g" "rank c < d" by simp_all
  qed
  then show ?case by (simp add: processor_Run_cong [of "g ! i" "run_over bottom env g d" "node_Run env g d"])
qed simp

text \<open>A node ranks by how many nodes of its sub topology are newer than it.\<close>

definition newer :: "nat list \<Rightarrow> nat \<Rightarrow> nat" where
  "newer ns i = card {b \<in> set ns. ns ! i < b}"

lemma newer_less:
  assumes i: "i < length ns"
  shows "newer ns i < length ns"
proof -
  have "ns ! i \<in> set ns" using i by (rule nth_mem)
  then have "{b \<in> set ns. ns ! i < b} \<subset> set ns" by blast
  then have "newer ns i < card (set ns)" unfolding newer_def by (rule psubset_card_mono [OF finite_set])
  also have "\<dots> \<le> length ns" by (rule card_length)
  finally show ?thesis .
qed

lemma wired_ranked:
  assumes wf: "sub_wf s h" and w: "wired h (length (sub_Nodes s h)) (sub_Nodes s h) (sub_Edges s h) g"
  shows "ranked (newer (sub_Nodes s h)) g"
  unfolding ranked_def
proof (intro allI impI ballI)
  fix i c assume i: "i < length g" and c: "c \<in> set (nd_edges (g ! i))"
  let ?ns = "sub_Nodes s h"
  note W = w [unfolded wired_def]
  note S = sub_wfD [OF wf]
  have at: "?ns ! node_pos h a = a" "node_pos h a < length ?ns" if "a \<in> set ?ns" for a
    using S(2) [OF that] by (simp_all add: node_placed_def node_pos_def)
  obtain a where a: "a \<in> set ?ns" "node_pos h a = i" using W i c by (metis empty_iff empty_set)
  then obtain b where b: "(a, b) \<in> set (sub_Edges s h)" "c = node_pos h b" using W c by fastforce
  with S(3) have ab: "b \<in> set ?ns" "a < b" by blast+
  have "{d \<in> set ?ns. b < d} \<subset> {d \<in> set ?ns. a < d}" using ab by auto
  then have "newer ?ns c < newer ?ns i" unfolding newer_def
    using at(1) [OF a(1)] at(1) [OF ab(1)] a(2) b(2) by (simp add: psubset_card_mono)
  with at(2) [OF ab(1)] b(2) W show "c < length g \<and> newer ?ns c < newer ?ns i" by simp
qed

section \<open>A network to try it on\<close>

text \<open>A source, a filter and a sink in one sub topology, built by the operations of the code.\<close>

definition tiny_builder :: "'w processor \<Rightarrow> 'w node_builder" where
  "tiny_builder p = \<lparr>nb_id = NewNodeId 0 [] [], nb_name = [], nb_kind = BProc p\<rparr>"

definition tiny_heap :: "(krecord list, unit) heap" where
  "tiny_heap = sub_AddNodeWithEdge 0 1 2 (sub_AddNodeWithEdge 0 0 1 (sub_AddSource 0 0
     \<lparr>hp_nodes = [tiny_builder (PSource sample_source), tiny_builder (PFilter (\<lambda>_ _ _. retR True)), tiny_builder PMerger],
       hp_subs = [\<lparr>sb_id = NewSubTopologyId 1 ''S'', sb_kind = KindStream, sb_nodeBuilders = [], sb_edges = [], sb_stores = []\<rparr>]\<rparr>))"

lemma tiny_heap_simps:
  "sub_Nodes 0 tiny_heap = [0, 1, 2]" "sub_Edges 0 tiny_heap = [(0, 1), (1, 2)]" "length (hp_nodes tiny_heap) = 3"
  "length (hp_subs tiny_heap) = 1" "sb_stores (hp_subs tiny_heap ! 0) = []"
  "map (\<lambda>a. ni_id (node_Id a tiny_heap)) [0, 1, 2] = [0, 1, 2]"
  by code_simp+

lemma tiny_heap_ok: "sub_wf 0 tiny_heap" "no_sink_parents 0 tiny_heap"
  using tiny_heap_simps(6)
  by (simp_all add: sub_wf_def node_placed_def no_sink_parents_def tiny_heap_simps)
     (simp_all add: tiny_heap_def heap_simps sub_AddNodeWithEdge_def sub_AddSource_def sub_AddNode_def sub_AddEdge_def upd_node_def
       upd_sub_def tiny_builder_def builder_is_sink_def)

section \<open>The properties\<close>

text \<open>C23: 
  In a well formed sub topology whose edges do not start at sinks, \<open>Build\<close> succeeds when every node and every store can be built; each
  built node has as edges exactly the children its builder was connected to, in the order they were added, and the sources and
  sinks are listed in the order of the nodes.
\<close>

theorem build_wires:
  assumes "sub_wf s h" "no_sink_parents s h"
    and "\<forall>a \<in> set (sub_Nodes s h). \<exists>nd. node_Build env topicMeta (hp_nodes h ! a) = Ok nd"
    and "\<forall>(n, b) \<in> set (sb_stores (hp_subs h ! s)). \<exists>st. buildStore b = Ok st"
  shows "\<exists>t. sub_Build env topicMeta buildStore s h = Ok t \<and>
    wired h (length (sub_Nodes s h)) (sub_Nodes s h) (sub_Edges s h) (ks_nodes t) \<and> ks_id t = sub_Id s h \<and>
    ks_sources t = filter (\<lambda>i. node_source (ks_nodes t ! i) \<noteq> None) [0..<length (sub_Nodes s h)] \<and>
    ks_sinks t = filter (\<lambda>i. is_sink_node (ks_nodes t ! i)) [0..<length (sub_Nodes s h)]"
proof -
  obtain nds0 where n0: "mapE (\<lambda>a. node_Build env topicMeta (hp_nodes h ! a)) (sub_Nodes s h) = Ok nds0"
    using mapE_total assms(3) by metis
  from sub_Build_wired [OF assms(1) assms(2) [unfolded no_sink_parents_def] n0]
  obtain nds where nds: "connect_edges h (sub_Edges s h) nds0 = Ok nds"
    "wired h (length (sub_Nodes s h)) (sub_Nodes s h) (sub_Edges s h) nds" by blast
  have "\<exists>stores. mapE (\<lambda>(_, b). bind_res (buildStore b) (\<lambda>st. Ok (ssb_Name b, st))) (sb_stores (hp_subs h ! s)) = Ok stores"
    using assms(4) by (intro mapE_total) fastforce
  with n0 nds show ?thesis by (auto simp: sub_Build_def wired_def)
qed

lemma tiny_heap_builds: "\<forall>a \<in> set (sub_Nodes 0 tiny_heap). \<exists>nd. node_Build sink_env Map.empty (hp_nodes tiny_heap ! a) = Ok nd"
  unfolding tiny_heap_simps
  by (simp add: tiny_heap_def heap_simps sub_AddNodeWithEdge_def sub_AddSource_def sub_AddNode_def sub_AddEdge_def upd_node_def
       upd_sub_def tiny_builder_def node_Build_def processor_Build_def source_Build_def sample_source_def)

lemma build_wires_witness:
  "\<exists>t. sub_Build sink_env Map.empty (\<lambda>_. Ok ()) 0 tiny_heap = Ok t \<and> length (ks_nodes t) = 3 \<and> nd_edges (ks_nodes t ! 0) = [1] \<and>
    nd_edges (ks_nodes t ! 1) = [2] \<and> nd_edges (ks_nodes t ! 2) = []"
  using build_wires [OF tiny_heap_ok tiny_heap_builds, of "\<lambda>_. Ok ()"] tiny_heap_simps(6)
  by (auto simp: tiny_heap_simps wired_def node_pos_def)



end
