(* ===== verification/Stream_Wf.thy ===== *)
theory Stream_Wf
  imports Stream_DSL Network
begin

text \<open>
  The invariant of the stream API: the sub topologies of the builder are well formed and their ids differ. A stream is live when its
  node and its source are in a sub topology of the builder. Every operation on live streams keeps the invariant and gives live streams.
\<close>

section \<open>The invariant\<close>

definition dsl_live :: "('w, 'b) dsl \<Rightarrow> nat list" where
  "dsl_live st = tb_subTopologies (dsl_tb st)"

definition sub_num :: "('w, 'b) heap \<Rightarrow> nat \<Rightarrow> int" where
  "sub_num h s = sid_id (sub_Id s h)"

definition dsl_wf :: "('w, 'b) dsl \<Rightarrow> bool" where
  "dsl_wf st \<longleftrightarrow> heap_wf (dsl_live st) (dsl_heap st) \<and> (\<forall>s \<in> set (dsl_live st). no_sink_parents s (dsl_heap st)) \<and>
     inj_on (sub_num (dsl_heap st)) (set (dsl_live st)) \<and>
     (\<forall>s \<in> set (dsl_live st). sub_num (dsl_heap st) s < tb_counter (dsl_tb st))"

definition live_stream :: "nat \<Rightarrow> ('w, 'b) dsl \<Rightarrow> bool" where
  "live_stream k st \<longleftrightarrow> k < length (dsl_streams st) \<and>
     (let x = stream_at k st; ns = set (sub_Nodes (str_stp x) (dsl_heap st))
      in str_stp x \<in> set (dsl_live st) \<and> str_root x \<in> ns \<and> \<not> builder_is_sink (hp_nodes (dsl_heap st) ! str_root x) \<and>
         str_source x \<in> ns \<and> nb_source (hp_nodes (dsl_heap st) ! str_source x) \<noteq> None)"

lemma live_streamD:
  assumes "live_stream k st"
  shows "k < length (dsl_streams st)" "str_stp (stream_at k st) \<in> set (dsl_live st)"
    "str_root (stream_at k st) \<in> set (sub_Nodes (str_stp (stream_at k st)) (dsl_heap st))"
    "\<not> builder_is_sink (hp_nodes (dsl_heap st) ! str_root (stream_at k st))"
    "str_source (stream_at k st) \<in> set (sub_Nodes (str_stp (stream_at k st)) (dsl_heap st))"
    "nb_source (hp_nodes (dsl_heap st) ! str_source (stream_at k st)) \<noteq> None"
  using assms by (simp_all add: live_stream_def Let_def)

lemma dsl_wfD:
  assumes "dsl_wf st"
  shows "heap_wf (dsl_live st) (dsl_heap st)" "s \<in> set (dsl_live st) \<Longrightarrow> no_sink_parents s (dsl_heap st)"
    "inj_on (sub_num (dsl_heap st)) (set (dsl_live st))"
    "s \<in> set (dsl_live st) \<Longrightarrow> sub_num (dsl_heap st) s < tb_counter (dsl_tb st)"
    "s \<in> set (dsl_live st) \<Longrightarrow> sub_wf s (dsl_heap st)" "s \<in> set (dsl_live st) \<Longrightarrow> s < length (hp_subs (dsl_heap st))"
    "s \<in> set (dsl_live st) \<Longrightarrow> a \<in> set (sub_Nodes s (dsl_heap st)) \<Longrightarrow> a < length (hp_nodes (dsl_heap st))"
  using assms by (auto simp: dsl_wf_def heap_wf_def sub_wf_def node_placed_def)

text \<open>What later operations may rely on: nodes stay in their sub topologies and keep their sort, streams stay where they are.\<close>

definition same_sort :: "'w node_builder \<Rightarrow> 'w node_builder \<Rightarrow> bool" where
  "same_sort n n' \<longleftrightarrow> builder_is_sink n' = builder_is_sink n \<and> (nb_source n' = None \<longleftrightarrow> nb_source n = None)"

definition same_place :: "kstream \<Rightarrow> kstream \<Rightarrow> bool" where
  "same_place x y \<longleftrightarrow> str_stp y = str_stp x \<and> str_root y = str_root x \<and> str_source y = str_source x"

definition grows :: "('w, 'b) dsl \<Rightarrow> ('w, 'b) dsl \<Rightarrow> bool" where
  "grows st st' \<longleftrightarrow> set (dsl_live st) \<subseteq> set (dsl_live st') \<and>
     (\<forall>s \<in> set (dsl_live st). set (sub_Nodes s (dsl_heap st)) \<subseteq> set (sub_Nodes s (dsl_heap st'))) \<and>
     length (hp_nodes (dsl_heap st)) \<le> length (hp_nodes (dsl_heap st')) \<and>
     (\<forall>a < length (hp_nodes (dsl_heap st)). same_sort (hp_nodes (dsl_heap st) ! a) (hp_nodes (dsl_heap st') ! a)) \<and>
     length (dsl_streams st) \<le> length (dsl_streams st') \<and>
     (\<forall>k < length (dsl_streams st). same_place (stream_at k st) (stream_at k st'))"

lemma growsD:
  assumes "grows st st'"
  shows "s \<in> set (dsl_live st) \<Longrightarrow> s \<in> set (dsl_live st')"
    "s \<in> set (dsl_live st) \<Longrightarrow> a \<in> set (sub_Nodes s (dsl_heap st)) \<Longrightarrow> a \<in> set (sub_Nodes s (dsl_heap st'))"
    "a < length (hp_nodes (dsl_heap st)) \<Longrightarrow> a < length (hp_nodes (dsl_heap st'))"
    "a < length (hp_nodes (dsl_heap st)) \<Longrightarrow> same_sort (hp_nodes (dsl_heap st) ! a) (hp_nodes (dsl_heap st') ! a)"
    "k < length (dsl_streams st) \<Longrightarrow> k < length (dsl_streams st')"
    "k < length (dsl_streams st) \<Longrightarrow> same_place (stream_at k st) (stream_at k st')"
  using assms unfolding grows_def by (auto intro: less_le_trans)

lemma grows_refl [simp]: "grows st st"
  by (simp add: grows_def same_sort_def same_place_def)

lemma grows_trans: "grows st st1 \<Longrightarrow> grows st1 st2 \<Longrightarrow> grows st st2"
  unfolding grows_def same_sort_def same_place_def
  by (intro conjI ballI allI impI) (meson subset_iff le_trans less_le_trans | force)+

lemma live_grows:
  assumes "dsl_wf st" "live_stream k st" "grows st st'"
  shows "live_stream k st'"
proof -
  note L = live_streamD [OF assms(2)] and G = growsD [OF assms(3)]
  have p: "same_place (stream_at k st) (stream_at k st')" by (rule G(6) [OF L(1)])
  have n: "str_root (stream_at k st) < length (hp_nodes (dsl_heap st))" "str_source (stream_at k st) < length (hp_nodes (dsl_heap st))"
    using dsl_wfD(7) [OF assms(1) L(2)] L(3,5) by blast+
  show ?thesis unfolding live_stream_def Let_def
    using p L G(1) [OF L(2)] G(2) [OF L(2,3)] G(2) [OF L(2,5)] G(4) [OF n(1)] G(4) [OF n(2)] G(5) [OF L(1)]
    by (simp add: same_place_def same_sort_def)
qed

text \<open>The shape of the lemmas on operations that give a stream.\<close>

definition gives_stream :: "('w, 'b) dsl \<Rightarrow> nat \<times> ('w, 'b) dsl \<Rightarrow> bool" where
  "gives_stream st r \<longleftrightarrow> dsl_wf (snd r) \<and> grows st (snd r) \<and> live_stream (fst r) (snd r)"

section \<open>Adding a node\<close>

lemma dsl_simps [simp]:
  "dsl_heap (on_builders f st) = f (dsl_heap st)" "dsl_live (on_builders f st) = dsl_live st"
  "dsl_streams (on_builders f st) = dsl_streams st" "stream_at k (on_builders f st) = stream_at k st"
  "tb_counter (dsl_tb (on_builders f st)) = tb_counter (dsl_tb st)"
  "dsl_heap (upd_stream k g st) = dsl_heap st" "dsl_live (upd_stream k g st) = dsl_live st"
  "length (dsl_streams (upd_stream k g st)) = length (dsl_streams st)" "dsl_tb (upd_stream k g st) = dsl_tb st"
  "dsl_heap (st\<lparr>dsl_streams := xs\<rparr>) = dsl_heap st" "dsl_live (st\<lparr>dsl_streams := xs\<rparr>) = dsl_live st"
  "dsl_heap (st\<lparr>dsl_reparts := rs\<rparr>) = dsl_heap st" "dsl_live (st\<lparr>dsl_reparts := rs\<rparr>) = dsl_live st"
  "stream_at k (st\<lparr>dsl_reparts := rs\<rparr>) = stream_at k st"
  by (simp_all add: dsl_heap_def on_builders_def on_heap_def dsl_live_def stream_at_def upd_stream_def)

lemma stream_at_upd:
  "stream_at j (upd_stream k g st) = (if j = k \<and> k < length (dsl_streams st) then g (stream_at k st) else stream_at j st)"
  by (cases "k < length (dsl_streams st)") (auto simp: stream_at_def upd_stream_def nth_list_update list_update_beyond)

text \<open>A change of the heap that leaves ids and numbers of sub topologies alone.\<close>

lemma dsl_wf_heap:
  assumes wf: "dsl_wf st" and "heap_wf (dsl_live st) h" "\<And>s. sub_Id s h = sub_Id s (dsl_heap st)"
    and "\<And>s. s \<in> set (dsl_live st) \<Longrightarrow> no_sink_parents s h"
  shows "dsl_wf (on_builders (\<lambda>_. h) st)"
proof -
  have "sub_num h = sub_num (dsl_heap st)" by (rule ext) (simp add: sub_num_def assms(3))
  then show ?thesis using assms(1,2,4) unfolding dsl_wf_def dsl_simps by simp
qed

lemma new_node_heap:
  assumes "new_node nb h = (a, h')"
  shows "a = length (hp_nodes h)" "hp_nodes h' = hp_nodes h @ [nb]" "hp_subs h' = hp_subs h"
    "sub_Nodes s h' = sub_Nodes s h" "sub_Edges s h' = sub_Edges s h" "sub_Id s h' = sub_Id s h"
    "b < length (hp_nodes h) \<Longrightarrow> node_Id b h' = node_Id b h"
  using assms by (auto simp: new_node_def sub_Nodes_def sub_Edges_def sub_Id_def node_Id_def nth_append)

lemma heap_wf_new_node:
  assumes "heap_wf live h" "new_node nb h = (a, h')"
  shows "heap_wf live h'" "\<forall>s \<in> set live. a \<notin> set (sub_Nodes s h')"
proof -
  note N = new_node_heap [OF assms(2)]
  have p: "b < length (hp_nodes h)" if "s \<in> set live" "b \<in> set (sub_Nodes s h)" for s b
    using sub_wfD(2) [OF heap_wfD(2) [OF assms(1) that(1)] that(2)] by (simp add: node_placed_def)
  have "sub_wf s h'" if s: "s \<in> set live" for s
  proof (rule sub_wf_grow)
    note w = sub_wfD [OF heap_wfD(2) [OF assms(1) s]]
    show "s < length (hp_subs h')" using w(1) N(3) by simp
    show "node_placed b (sub_Nodes s h') h'" if "b \<in> set (sub_Nodes s h')" for b
      using that w(2) [of b] p [OF s, of b] N by (simp add: node_placed_def)
    show "q \<in> set (sub_Nodes s h') \<and> c \<in> set (sub_Nodes s h') \<and> q < c" if "(q, c) \<in> set (sub_Edges s h')" for q c
      using that w(3) [of q c] N by simp
  qed
  then show "heap_wf live h'" using assms(1) N by (simp add: heap_wf_def)
  show "\<forall>s \<in> set live. a \<notin> set (sub_Nodes s h')" using p N by force
qed

lemma kind_simps [heap_simps]:
  "nb_kind (hp_nodes (sub_AddNode s a h) ! b) = nb_kind (hp_nodes h ! b)"
  "nb_kind (hp_nodes (sub_AddEdge s p c h) ! b) = nb_kind (hp_nodes h ! b)"
  "nb_kind (hp_nodes (sub_AddStore s st h) ! b) = nb_kind (hp_nodes h ! b)"
  "nb_kind (hp_nodes (sub_RemoveAll s h) ! b) = nb_kind (hp_nodes h ! b)"
  by (cases "a < length (hp_nodes h)"; cases "b = a")
     (simp_all add: sub_AddNode_def sub_AddEdge_def sub_AddStore_def sub_RemoveAll_def upd_sub_def upd_node_def list_update_beyond)

lemma same_sort_kind: "nb_kind n' = nb_kind n \<Longrightarrow> same_sort n n'"
  by (simp add: same_sort_def builder_is_sink_def nb_source_def)

lemma is_sink_kind: "nb_kind n' = nb_kind n \<Longrightarrow> builder_is_sink n' = builder_is_sink n"
  by (simp add: builder_is_sink_def)

lemma no_sink_parents_AddEdge:
  assumes "s < length (hp_subs h)" "\<not> builder_is_sink (hp_nodes h ! p)" "no_sink_parents t h"
  shows "no_sink_parents t (sub_AddEdge s p c h)"
  using assms by (auto simp: no_sink_parents_def AddEdge_simps(1,5) [OF assms(1)])

lemma no_sink_parents_cong:
  assumes "sub_Edges t h' = sub_Edges t h" "\<And>p c. (p, c) \<in> set (sub_Edges t h) \<Longrightarrow> nb_kind (hp_nodes h' ! p) = nb_kind (hp_nodes h ! p)"
  shows "no_sink_parents t h' = no_sink_parents t h"
proof -
  have "\<not> builder_is_sink (hp_nodes h' ! p) \<longleftrightarrow> \<not> builder_is_sink (hp_nodes h ! p)" if "(p, c) \<in> set (sub_Edges t h)" for p c
    using is_sink_kind [OF assms(2) [OF that]] by simp
  then show ?thesis unfolding no_sink_parents_def assms(1) by blast
qed

lemma AddNodeWithEdge_simps:
  assumes "s < length (hp_subs h)"
  shows "length (hp_nodes (sub_AddNodeWithEdge s p a h)) = length (hp_nodes h)"
    "sub_Nodes t (sub_AddNodeWithEdge s p a h) = (if t = s then sub_Nodes s h @ [a] else sub_Nodes t h)"
    "sub_Id t (sub_AddNodeWithEdge s p a h) = sub_Id t h"
    "nb_kind (hp_nodes (sub_AddNodeWithEdge s p a h) ! b) = nb_kind (hp_nodes h ! b)"
    "no_sink_parents t h \<Longrightarrow> \<not> builder_is_sink (hp_nodes h ! p) \<Longrightarrow> no_sink_parents t (sub_AddNodeWithEdge s p a h)"
proof -
  have l: "s < length (hp_subs (sub_AddNode s a h))" using assms by (simp add: heap_simps)
  show "length (hp_nodes (sub_AddNodeWithEdge s p a h)) = length (hp_nodes h)"
    "sub_Nodes t (sub_AddNodeWithEdge s p a h) = (if t = s then sub_Nodes s h @ [a] else sub_Nodes t h)"
    "sub_Id t (sub_AddNodeWithEdge s p a h) = sub_Id t h"
    "nb_kind (hp_nodes (sub_AddNodeWithEdge s p a h) ! b) = nb_kind (hp_nodes h ! b)"
    by (simp_all add: sub_AddNodeWithEdge_def heap_simps assms l)
  assume n: "no_sink_parents t h" "\<not> builder_is_sink (hp_nodes h ! p)"
  have "no_sink_parents t (sub_AddNode s a h)"
    using n(1) no_sink_parents_cong [of t "sub_AddNode s a h" h] by (simp add: heap_simps assms)
  moreover have "\<not> builder_is_sink (hp_nodes (sub_AddNode s a h) ! p)"
    using n(2) is_sink_kind [OF kind_simps(1)] by blast
  ultimately show "no_sink_parents t (sub_AddNodeWithEdge s p a h)"
    unfolding sub_AddNodeWithEdge_def using no_sink_parents_AddEdge [OF l] by blast
qed

text \<open>A node that is there or is new goes below a node of the same sub topology.\<close>

lemma dsl_AddNodeWithEdge:
  assumes wf: "dsl_wf st" and s: "s \<in> set (dsl_live st)" and p: "p \<in> set (sub_Nodes s (dsl_heap st))" "p < a"
    "\<not> builder_is_sink (hp_nodes (dsl_heap st) ! p)" and a: "a < length (hp_nodes (dsl_heap st))"
    and fresh: "\<And>t. t \<in> set (dsl_live st) \<Longrightarrow> t \<noteq> s \<Longrightarrow> a \<notin> set (sub_Nodes t (dsl_heap st))"
  defines "st' \<equiv> on_builders (sub_AddNodeWithEdge s p a) st"
  shows "dsl_wf st'" "grows st st'" "a \<in> set (sub_Nodes s (dsl_heap st'))"
proof -
  let ?h = "dsl_heap st"
  note W = dsl_wfD [OF wf]
  note A = AddNodeWithEdge_simps [OF W(6) [OF s], where p = p and a = a]
  have e: "st' = on_builders (\<lambda>_. sub_AddNodeWithEdge s p a ?h) st"
    by (simp add: st'_def on_builders_def on_heap_def dsl_heap_def)
  show "dsl_wf st'" unfolding e
  proof (rule dsl_wf_heap [OF wf])
    show "heap_wf (dsl_live st) (sub_AddNodeWithEdge s p a ?h)"
      using heap_wf_AddNodeWithEdge [OF W(1) s p(1) a p(2)] fresh by blast
    show "sub_Id t (sub_AddNodeWithEdge s p a ?h) = sub_Id t ?h" for t by (rule A(3))
    show "no_sink_parents t (sub_AddNodeWithEdge s p a ?h)" if "t \<in> set (dsl_live st)" for t by (rule A(5) [OF W(2) [OF that] p(3)])
  qed
  show "grows st st'" "a \<in> set (sub_Nodes s (dsl_heap st'))"
    unfolding e grows_def using A(1,2) same_sort_kind [OF A(4)] by (auto simp: same_place_def)
qed

lemma dsl_new_node:
  assumes wf: "dsl_wf st" and n: "new_node nb (dsl_heap st) = (a, h)"
  defines "st' \<equiv> on_builders (\<lambda>_. h) st"
  shows "dsl_wf st'" "grows st st'" "a < length (hp_nodes (dsl_heap st'))" "hp_nodes (dsl_heap st') ! a = nb"
    "\<And>t. t \<in> set (dsl_live st') \<Longrightarrow> a \<notin> set (sub_Nodes t (dsl_heap st'))" "sub_Nodes s (dsl_heap st') = sub_Nodes s (dsl_heap st)"
proof -
  note W = dsl_wfD [OF wf] and N = new_node_heap [OF n] and H = heap_wf_new_node [OF W(1) n]
  have k: "b < length (hp_nodes (dsl_heap st)) \<Longrightarrow> hp_nodes h ! b = hp_nodes (dsl_heap st) ! b" for b
    using N(2) by (simp add: nth_append)
  have "no_sink_parents s h" if s: "s \<in> set (dsl_live st)" for s
  proof (subst no_sink_parents_cong)
    show "sub_Edges s h = sub_Edges s (dsl_heap st)" by (rule N(5))
    show "nb_kind (hp_nodes h ! p) = nb_kind (hp_nodes (dsl_heap st) ! p)" if "(p, c) \<in> set (sub_Edges s (dsl_heap st))" for p c
      using k W(7) [OF s] sub_wfD(3) [OF W(5) [OF s] that] by simp
    show "no_sink_parents s (dsl_heap st)" by (rule W(2) [OF s])
  qed
  then show "dsl_wf st'" unfolding st'_def using H(1) N(6) by (intro dsl_wf_heap [OF wf])
  show "grows st st'" unfolding st'_def grows_def using N(2,4) k same_sort_kind by (auto simp: same_place_def)
  show "a < length (hp_nodes (dsl_heap st'))" "hp_nodes (dsl_heap st') ! a = nb" "sub_Nodes s (dsl_heap st') = sub_Nodes s (dsl_heap st)"
    unfolding st'_def using N by simp_all
  show "\<And>t. t \<in> set (dsl_live st') \<Longrightarrow> a \<notin> set (sub_Nodes t (dsl_heap st'))" unfolding st'_def using H(2) by simp
qed

text \<open>\<open>a\<close> is a node builder of sub topology \<open>s\<close> that may have children.\<close>

definition parent_in :: "nat \<Rightarrow> nat \<Rightarrow> ('w, 'b) dsl \<Rightarrow> bool" where
  "parent_in a s st \<longleftrightarrow> s \<in> set (dsl_live st) \<and> a \<in> set (sub_Nodes s (dsl_heap st)) \<and> \<not> builder_is_sink (hp_nodes (dsl_heap st) ! a)"

lemma parent_in_grows:
  assumes "dsl_wf st" "parent_in a s st" "grows st st'"
  shows "parent_in a s st'"
proof -
  have a: "a < length (hp_nodes (dsl_heap st))" using dsl_wfD(7) [OF assms(1)] assms(2) by (auto simp: parent_in_def)
  show ?thesis
    using growsD(1,2) [OF assms(3), of s] growsD(4) [OF assms(3) a] assms(2) by (simp add: parent_in_def same_sort_def)
qed

lemma live_parent: "live_stream k st \<Longrightarrow> parent_in (str_root (stream_at k st)) (str_stp (stream_at k st)) st"
  using live_streamD(2-4) [of k st] by (simp add: parent_in_def)

lemma add_below_ok:
  assumes wf: "dsl_wf st" and p: "parent_in p (str_stp (stream_at k st)) st" and r: "add_below k p nb st = (a, st')"
  shows "dsl_wf st'" "grows st st'" "a \<in> set (sub_Nodes (str_stp (stream_at k st)) (dsl_heap st'))"
    "nb_kind (hp_nodes (dsl_heap st') ! a) = nb_kind nb" "dsl_streams st' = dsl_streams st"
    "\<not> builder_is_sink nb \<Longrightarrow> parent_in a (str_stp (stream_at k st)) st'" "a = length (hp_nodes (dsl_heap st))"
    "dsl_live st' = dsl_live st"
proof -
  let ?s = "str_stp (stream_at k st)"
  obtain h where n: "new_node nb (dsl_heap st) = (a, h)" and st': "st' = on_builders (\<lambda>_. sub_AddNodeWithEdge ?s p a h) st"
    using r by (auto simp: add_below_def split: prod.splits)
  let ?st1 = "on_builders (\<lambda>_. h) st"
  note N = dsl_new_node [OF wf n]
  have e: "st' = on_builders (sub_AddNodeWithEdge ?s p a) ?st1" by (simp add: st' on_builders_def on_heap_def)
  have p1: "parent_in p ?s ?st1" by (rule parent_in_grows [OF wf p N(2)])
  show a: "a = length (hp_nodes (dsl_heap st))" by (rule new_node_heap(1) [OF n])
  have "p < a" unfolding a using p dsl_wfD(7) [OF wf] by (auto simp: parent_in_def)
  then have A: "dsl_wf st'" "grows ?st1 st'" "a \<in> set (sub_Nodes ?s (dsl_heap st'))"
    unfolding e using p1 N(3,5) by (auto simp only: parent_in_def intro!: dsl_AddNodeWithEdge [OF N(1)])
  show "dsl_wf st'" "a \<in> set (sub_Nodes ?s (dsl_heap st'))" by (fact A)+
  show "grows st st'" by (rule grows_trans [OF N(2) A(2)])
  have s: "?s < length (hp_subs h)" using dsl_wfD(6) [OF N(1), of ?s] p1 by (simp add: parent_in_def)
  show k: "nb_kind (hp_nodes (dsl_heap st') ! a) = nb_kind nb"
    using AddNodeWithEdge_simps(4) [OF s, of p a a] N(4) by (simp add: st')
  show "dsl_streams st' = dsl_streams st" "dsl_live st' = dsl_live st" by (simp_all add: st')
  show "parent_in a ?s st'" if "\<not> builder_is_sink nb"
    using that A(3) k is_sink_kind [OF k] p by (simp add: parent_in_def st')
qed

section \<open>New streams\<close>

lemma dsl_wf_tb: "dsl_tb st' = dsl_tb st \<Longrightarrow> dsl_wf st \<Longrightarrow> dsl_wf st'"
  by (simp add: dsl_wf_def dsl_heap_def dsl_live_def)

lemma grows_tb:
  assumes "dsl_tb st' = dsl_tb st" "length (dsl_streams st) \<le> length (dsl_streams st')"
    "\<And>k. k < length (dsl_streams st) \<Longrightarrow> same_place (stream_at k st) (stream_at k st')"
  shows "grows st st'"
  using assms by (auto simp: grows_def dsl_heap_def dsl_live_def same_sort_def)

lemma new_stream_ok:
  assumes "new_stream x st = (c, st')"
  shows "dsl_tb st' = dsl_tb st" "stream_at c st' = x" "c < length (dsl_streams st')" "grows st st'"
proof -
  show t: "dsl_tb st' = dsl_tb st" "stream_at c st' = x" "c < length (dsl_streams st')"
    using assms by (auto simp: new_stream_def stream_at_def)
  show "grows st st'" using assms by (intro grows_tb [OF t(1)]) (auto simp: new_stream_def stream_at_def same_place_def nth_append)
qed

lemma live_place:
  assumes "live_stream k st" "dsl_tb st' = dsl_tb st" "c < length (dsl_streams st')"
    and "str_stp (stream_at c st') = str_stp (stream_at k st)" "str_source (stream_at c st') = str_source (stream_at k st)"
    and "parent_in (str_root (stream_at c st')) (str_stp (stream_at k st)) st"
  shows "live_stream c st'"
proof -
  have e: "dsl_heap st' = dsl_heap st" "dsl_live st' = dsl_live st" using assms(2) by (simp_all add: dsl_heap_def dsl_live_def)
  show ?thesis using assms(3-6) live_streamD [OF assms(1)] unfolding live_stream_def Let_def e parent_in_def by simp
qed

lemma newChildStream_ok:
  assumes wf: "dsl_wf st" and k: "live_stream k st" and node: "parent_in node (str_stp (stream_at k st)) st"
    and opts: "\<And>s. same_place s (apply_opts opts s)" and r: "newChildStream k node opts st = (c, st')"
  shows "dsl_wf st'" "grows st st'" "live_stream c st'" "same_place ((stream_at k st)\<lparr>str_root := node\<rparr>) (stream_at c st')"
proof -
  note N = new_stream_ok [OF r [unfolded newChildStream_def]]
  show p: "same_place ((stream_at k st)\<lparr>str_root := node\<rparr>) (stream_at c st')"
    unfolding N(2) using opts [of "(stream_at k st)\<lparr>str_root := node, str_key := keyEncoder k st, str_val := valEncoder k st\<rparr>"]
    by (simp add: same_place_def)
  show "dsl_wf st'" by (rule dsl_wf_tb [OF N(1) wf])
  show "grows st st'" by (rule N(4))
  show "live_stream c st'" using p node by (intro live_place [OF k N(1) N(3)]) (simp_all add: same_place_def)
qed

lemma applyNodeOptions_kind [simp]: "nb_kind (fst (applyNodeOptions p opts)) = p"
  by (simp add: applyNodeOptions_def Let_def)

lemma applyNodeOptions_sink [simp]: "builder_is_sink (fst (applyNodeOptions (BProc p) opts)) \<longleftrightarrow> (\<exists>s. p = PSink s)"
  by (cases p) (simp_all add: applyNodeOptions_def Let_def builder_is_sink_def)

text \<open>What an operation that gives a stream below stream \<open>k\<close> does.\<close>

definition child_stream :: "nat \<Rightarrow> ('w, 'b) dsl \<Rightarrow> nat \<Rightarrow> ('w, 'b) dsl \<Rightarrow> bool" where
  "child_stream k st c st' \<longleftrightarrow> dsl_wf st' \<and> grows st st' \<and> live_stream c st' \<and>
     str_stp (stream_at c st') = str_stp (stream_at k st) \<and> str_source (stream_at c st') = str_source (stream_at k st)"

lemma child_streamD:
  assumes "child_stream k st c st'"
  shows "dsl_wf st'" "grows st st'" "live_stream c st'" "str_stp (stream_at c st') = str_stp (stream_at k st)"
    "str_source (stream_at c st') = str_source (stream_at k st)"
  using assms by (simp_all add: child_stream_def)

lemma child_stream_trans:
  assumes "grows st st1" "k < length (dsl_streams st)" "child_stream k st1 c st'"
  shows "child_stream k st c st'"
  using assms growsD(6) [OF assms(1,2)] grows_trans [OF assms(1)] by (auto simp: child_stream_def same_place_def)

lemma child_stream_below:
  assumes wf: "dsl_wf st" and k: "live_stream k st" and p: "parent_in p (str_stp (stream_at k st)) st"
    and nb: "\<not> builder_is_sink nb" and a: "add_below k p nb st = (a, st1)" and c: "newChildStream k a opts st1 = (c, st')"
    and opts: "\<And>s. same_place s (apply_opts opts s)"
  shows "child_stream k st c st'" "str_root (stream_at c st') = a"
proof -
  note A = add_below_ok [OF wf p a]
  have e: "stream_at k st1 = stream_at k st" using A(5) by (simp add: stream_at_def)
  have k1: "live_stream k st1" by (rule live_grows [OF wf k A(2)])
  have p1: "parent_in a (str_stp (stream_at k st1)) st1" unfolding e by (rule A(6) [OF nb])
  note C = newChildStream_ok [OF A(1) k1 p1 opts c]
  show "child_stream k st c st'" unfolding child_stream_def
    using C(1,3,4) grows_trans [OF A(2) C(2)] e by (simp add: same_place_def)
  show "str_root (stream_at c st') = a" using C(4) by (simp add: same_place_def)
qed

lemma child_of_ok:
  assumes wf: "dsl_wf st" and k: "live_stream k st" and p: "\<And>s. p \<noteq> PSink s" and c: "child_of k (BProc p) opts st = (c, st')"
  shows "child_stream k st c st'"
proof -
  obtain a st1 where a: "add_below k (str_root (stream_at k st)) (fst (applyNodeOptions (BProc p) opts)) st = (a, st1)"
    "newChildStream k a [] st1 = (c, st')"
    using c by (auto simp: child_of_def split: prod.splits)
  show ?thesis by (rule child_stream_below(1) [OF wf k live_parent [OF k] _ a]) (simp_all add: p same_place_def)
qed

lemma upd_stream_same:
  assumes "\<And>x. same_place x (f x)"
  shows "grows st (upd_stream c f st)" "dsl_wf (upd_stream c f st) = dsl_wf st" "live_stream k (upd_stream c f st) = live_stream k st"
    "same_place (stream_at k st) (stream_at k (upd_stream c f st))"
proof -
  show p: "same_place (stream_at k st) (stream_at k (upd_stream c f st))" for k
    using assms by (simp add: stream_at_upd) (simp add: same_place_def)
  show "grows st (upd_stream c f st)" using p by (intro grows_tb) simp_all
  show "dsl_wf (upd_stream c f st) = dsl_wf st" by (simp add: dsl_wf_def)
  show "live_stream k (upd_stream c f st) = live_stream k st" using p [of k] by (simp add: live_stream_def Let_def same_place_def)
qed

lemma maybeRepartitioned_ok:
  "grows st (maybeRepartitioned c opts st)" "dsl_wf (maybeRepartitioned c opts st) = dsl_wf st"
  "live_stream k (maybeRepartitioned c opts st) = live_stream k st"
  "same_place (stream_at k st) (stream_at k (maybeRepartitioned c opts st))"
proof -
  have e: "\<exists>f rs. maybeRepartitioned c opts st = (upd_stream c f st)\<lparr>dsl_reparts := rs\<rparr> \<and> (\<forall>x. same_place x (f x))"
  proof (cases "str_repartitionOpts (stream_at c st)")
    case None
    let ?f = "\<lambda>x. x\<lparr>str_repartitionOpts := Some (length (dsl_reparts st))\<rparr>"
    have "\<exists>rs. maybeRepartitioned c opts st = (upd_stream c ?f st)\<lparr>dsl_reparts := rs\<rparr>"
      unfolding maybeRepartitioned_def Let_def by (simp add: None None [unfolded stream_at_def] upd_stream_def stream_at_def) blast
    then show ?thesis by (auto simp: same_place_def)
  next
    case (Some r)
    have "\<exists>rs. maybeRepartitioned c opts st = (upd_stream c (\<lambda>x. x) st)\<lparr>dsl_reparts := rs\<rparr>"
      unfolding maybeRepartitioned_def Let_def by (simp add: Some Some [unfolded stream_at_def] upd_stream_def stream_at_def) blast
    then show ?thesis by (auto simp: same_place_def)
  qed
  then obtain f rs where f: "maybeRepartitioned c opts st = (upd_stream c f st)\<lparr>dsl_reparts := rs\<rparr>" "\<And>x. same_place x (f x)" by blast
  have r: "grows s (s\<lparr>dsl_reparts := rs\<rparr>)" "dsl_wf (s\<lparr>dsl_reparts := rs\<rparr>) = dsl_wf s" "live_stream k (s\<lparr>dsl_reparts := rs\<rparr>) = live_stream k s"
    for s :: "('a, 'b) dsl"
    by (auto intro: grows_tb simp: same_place_def dsl_wf_def live_stream_def dsl_live_def dsl_heap_def)
  note U = upd_stream_same [of f, OF f(2)]
  show "grows st (maybeRepartitioned c opts st)" unfolding f(1) by (rule grows_trans [OF U(1) r(1)])
  show "dsl_wf (maybeRepartitioned c opts st) = dsl_wf st" unfolding f(1) by (simp only: U(2) r(2))
  show "live_stream k (maybeRepartitioned c opts st) = live_stream k st" unfolding f(1) by (simp only: U(3) r(3))
  show "same_place (stream_at k st) (stream_at k (maybeRepartitioned c opts st))" unfolding f(1) using U(4) by simp
qed

lemma child_stream_repart:
  assumes "child_stream k st c st'"
  shows "child_stream k st c (maybeRepartitioned j opts st')"
  using child_streamD [OF assms] maybeRepartitioned_ok(4) [of c st' j opts]
    grows_trans [OF child_streamD(2) [OF assms] maybeRepartitioned_ok(1) [of st' j opts]]
  by (simp add: child_stream_def maybeRepartitioned_ok(2,3) same_place_def)

lemma rekeyed_ok:
  assumes "dsl_wf st" "live_stream k st" "\<And>s. p \<noteq> PSink s" "rekeyed k p opts st = (c, st')"
  shows "child_stream k st c st'"
proof -
  obtain st1 where st1: "child_of k (BProc p) opts st = (c, st1)" using assms(4) by (auto simp: rekeyed_def split: prod.splits)
  have c: "child_stream k st c st1" by (rule child_of_ok [OF assms(1-3) st1])
  show ?thesis using assms(4) c child_stream_repart [OF c] by (auto simp: rekeyed_def st1 split: if_splits)
qed

lemma FlatMap_ok:
  assumes "dsl_wf st" "live_stream k st" "str_FlatMap k f opts st = (c, st')"
  shows "child_stream k st c st'"
proof -
  obtain st1 where st1: "child_of k (BProc (PFlatMap f)) opts st = (c, st1)" using assms(3) by (auto simp: str_FlatMap_def split: prod.splits)
  have c: "child_stream k st c st1" by (rule child_of_ok [OF assms(1,2) _ st1]) simp
  show ?thesis using assms(3) child_stream_repart [OF c] by (auto simp: str_FlatMap_def st1)
qed

section \<open>Branches\<close>

lemma add_branches_ok:
  assumes "dsl_wf st" "live_stream k st" "parent_in br (str_stp (stream_at k st)) st" "add_branches k br branches st = (cs, st')"
  shows "dsl_wf st' \<and> grows st st' \<and> (\<forall>c \<in> set cs. live_stream c st')"
  using assms
proof (induction branches arbitrary: st cs)
  case (Cons b branches)
  obtain name pr where b: "b = (name, pr)" by force
  let ?nb = "fst (applyNodeOptions (BProc (PBranchChild name pr)) [])"
  obtain a st1 c st2 cs' where r: "add_below k br ?nb st = (a, st1)" "newChildStream k a [] st1 = (c, st2)"
    "add_branches k br branches st2 = (cs', st')" "cs = c # cs'"
    using Cons.prems(4) by (auto simp: b split: prod.splits)
  note wf = Cons.prems(1) and k = Cons.prems(2) and p = Cons.prems(3)
  have c: "child_stream k st c st2" by (rule child_stream_below(1) [OF wf k p _ r(1,2)]) (simp_all add: same_place_def)
  note C = child_streamD [OF c]
  have "same_place (stream_at k st) (stream_at k st2)" by (rule growsD(6) [OF C(2) live_streamD(1) [OF k]])
  then have "parent_in br (str_stp (stream_at k st2)) st2" using parent_in_grows [OF wf p C(2)] by (simp add: same_place_def)
  from Cons.IH [OF C(1) live_grows [OF wf k C(2)] this r(3)] C
  show ?case using r(4) live_grows [OF C(1,3)] grows_trans [OF C(2)] by auto
qed simp

lemma Branch_ok:
  assumes wf: "dsl_wf st" and k: "live_stream k st" and r: "str_Branch k branches st = (cs, st')"
  shows "dsl_wf st'" "grows st st'" "\<forall>c \<in> set cs. live_stream c st'"
proof -
  obtain br st1 where b: "add_below k (str_root (stream_at k st)) (fst (applyNodeOptions (BProc PBranch) [])) st = (br, st1)"
    "add_branches k br branches st1 = (cs, st')"
    using r by (auto simp: str_Branch_def split: prod.splits)
  note A = add_below_ok [OF wf live_parent [OF k] b(1)]
  have "stream_at k st1 = stream_at k st" using A(5) by (simp add: stream_at_def)
  with A(6) have "parent_in br (str_stp (stream_at k st1)) st1" by simp
  from add_branches_ok [OF A(1) live_grows [OF wf k A(2)] this b(2)] grows_trans [OF A(2)]
  show "dsl_wf st'" "grows st st'" "\<forall>c \<in> set cs. live_stream c st'" by blast+
qed

text \<open>A branched stream whose parent is live and whose node is in the same sub topology.\<close>

definition live_branched :: "branched_stream \<Rightarrow> ('w, 'b) dsl \<Rightarrow> bool" where
  "live_branched brs st \<longleftrightarrow> live_stream (brs_parentStream brs) st \<and>
     parent_in (brs_parent brs) (str_stp (stream_at (brs_parentStream brs) st)) st"

lemma Split_ok:
  assumes wf: "dsl_wf st" and k: "live_stream k st" and r: "str_Split k opts st = (brs, st')"
  shows "dsl_wf st'" "grows st st'" "live_branched brs st'"
proof -
  obtain br where b: "add_below k (str_root (stream_at k st)) (fst (applyNodeOptions (BProc PBranch) opts)) st = (br, st')"
    "brs = \<lparr>brs_parentStream = k, brs_parent = br, brs_branches = []\<rparr>"
    using r by (auto simp: str_Split_def split: prod.splits)
  note A = add_below_ok [OF wf live_parent [OF k] b(1)]
  have "stream_at k st' = stream_at k st" using A(5) by (simp add: stream_at_def)
  then show "dsl_wf st'" "grows st st'" "live_branched brs st'"
    using A live_grows [OF wf k A(2)] by (simp_all add: live_branched_def b(2))
qed

lemma brs_New_ok:
  assumes wf: "dsl_wf st" and l: "live_branched brs st" and r: "brs_New name f brs st = (c, brs', st')"
  shows "child_stream (brs_parentStream brs) st c st'"
proof -
  let ?k = "brs_parentStream brs"
  have k: "live_stream ?k st" "parent_in (brs_parent brs) (str_stp (stream_at ?k st)) st" using l by (simp_all add: live_branched_def)
  obtain a st1 where a: "add_below ?k (brs_parent brs) (fst (applyNodeOptions (BProc (PBranchChild name f)) [])) st = (a, st1)"
    "newChildStream ?k a [] st1 = (c, st')"
    using r by (auto simp: brs_New_def split: prod.splits)
  show ?thesis by (rule child_stream_below(1) [OF wf k _ a]) (simp_all add: same_place_def)
qed

section \<open>Sinks and new sub topologies\<close>

lemma To_ok:
  assumes "dsl_wf st" "live_stream k st"
  shows "dsl_wf (str_To k topic opts st)" "grows st (str_To k topic opts st)" "dsl_streams (str_To k topic opts st) = dsl_streams st"
  unfolding str_To_def Let_def
  using add_below_ok [OF assms(1) live_parent [OF assms(2)] prod.collapse [symmetric]] by auto

lemma new_sub_ok:
  assumes wf: "dsl_wf st" and r: "new_sub kind source st = (s, a, st')"
  shows "dsl_wf st'" "grows st st'" "dsl_streams st' = dsl_streams st" "parent_in a s st'"
    "nb_source (hp_nodes (dsl_heap st') ! a) \<noteq> None" "dsl_live st' = dsl_live st @ [s]" "sub_Nodes s (dsl_heap st') = [a]"
proof -
  let ?h = "dsl_heap st" and ?tb = "dsl_tb st"
  let ?nb = "\<lparr>nb_id = NewNodeId 0 [] [], nb_name = [], nb_kind = BProc (PSource source)\<rparr>"
  let ?id = "NewSubTopologyId (tb_counter ?tb) (''SUB-TOPOLOGY-'' @ show_int (tb_counter ?tb))"
  define h where "h = sub_AddSource s a (?h\<lparr>hp_subs := hp_subs ?h @
    [\<lparr>sb_id = ?id, sb_kind = kind, sb_nodeBuilders = [], sb_edges = [], sb_stores = []\<rparr>], hp_nodes := hp_nodes ?h @ [?nb]\<rparr>)"
  note W = dsl_wfD [OF wf]
  have s: "s = length (hp_subs ?h)" and a: "a = length (hp_nodes ?h)" and h': "dsl_heap st' = h"
    and live: "dsl_live st' = dsl_live st @ [s]" and cnt: "tb_counter (dsl_tb st') = tb_counter ?tb + 1"
    and str: "dsl_streams st' = dsl_streams st"
    using r by (auto simp: new_sub_def NewKSubTopologyBuilder_def addSubTopology_def new_node_def Let_def on_heap_def sub_SetId_def
        upd_sub_def dsl_heap_def dsl_live_def h_def)
  have nodes: "hp_nodes h = hp_nodes ?h @ [?nb\<lparr>nb_id := NewNodeId 0 ''test.path'' (sid_name ?id)\<rparr>]"
    and subs: "hp_subs h = hp_subs ?h @ [\<lparr>sb_id = ?id, sb_kind = kind, sb_nodeBuilders = [a], sb_edges = [], sb_stores = []\<rparr>]"
    by (simp_all add: h_def sub_AddSource_def sub_AddNode_def upd_sub_def upd_node_def sub_Nodes_def sub_Id_def s a)
  have old: "sub_Nodes t h = sub_Nodes t ?h" "sub_Edges t h = sub_Edges t ?h" "sub_Id t h = sub_Id t ?h"
    if "t < length (hp_subs ?h)" for t
    using that by (simp_all add: subs sub_Nodes_def sub_Edges_def sub_Id_def nth_append)
  have new: "sub_Nodes s h = [a]" "sub_Edges s h = []" "sub_Id s h = ?id"
    by (simp_all add: subs sub_Nodes_def sub_Edges_def sub_Id_def s)
  have old_node: "hp_nodes h ! b = hp_nodes ?h ! b" if "b < length (hp_nodes ?h)" for b using that by (simp add: nodes nth_append)
  have ns: "s \<notin> set (dsl_live st)" using W(6) s by blast
  have sub_old: "sub_wf t h" if t: "t \<in> set (dsl_live st)" for t
  proof -
    have "b < length (hp_nodes ?h)" if "b \<in> set (sub_Nodes t ?h)" for b using W(7) [OF t that] .
    then show ?thesis using W(5) [OF t] old [OF W(6) [OF t]]
      by (simp add: sub_wf_def node_placed_def node_Id_def subs nodes nth_append) fastforce
  qed
  have "sub_wf s h" unfolding sub_wf_def new by (simp add: node_placed_def node_Id_def subs nodes s a NewNodeId_def)
  then have wf': "sub_wf t h" if "t \<in> set (dsl_live st @ [s])" for t using that sub_old by auto
  have apart: "x \<notin> set (sub_Nodes s h)" if t: "t \<in> set (dsl_live st)" and x: "x \<in> set (sub_Nodes t h)" for t x
  proof -
    have "x < length (hp_nodes ?h)" using W(7) [OF t] x unfolding old(1) [OF W(6) [OF t]] .
    then show ?thesis unfolding new a by simp
  qed
  have apart2: False if "u \<in> set (dsl_live st)" "v \<in> set (dsl_live st)" "u \<noteq> v" "x \<in> set (sub_Nodes u h)" "x \<in> set (sub_Nodes v h)" for u v x
    using heap_wfD(3) [OF W(1) that(1-3), of x] that(4,5) unfolding old(1) [OF W(6) [OF that(1)]] old(1) [OF W(6) [OF that(2)]] by blast
  have "heap_wf (dsl_live st') h" unfolding live
  proof (rule heap_wfI)
    show "distinct (dsl_live st @ [s])" using heap_wfD(1) [OF W(1)] ns by simp
    show "sub_wf t h" if "t \<in> set (dsl_live st @ [s])" for t by (rule wf' [OF that])
    show False if uv: "u \<in> set (dsl_live st @ [s])" "v \<in> set (dsl_live st @ [s])" "u \<noteq> v" "x \<in> set (sub_Nodes u h)" "x \<in> set (sub_Nodes v h)"
      for u v x
    proof -
      consider "u = s" "v \<in> set (dsl_live st)" | "v = s" "u \<in> set (dsl_live st)" | "u \<in> set (dsl_live st)" "v \<in> set (dsl_live st)"
        using uv(1-3) by auto
      then show False using apart [OF _ uv(4)] apart [OF _ uv(5)] apart2 [OF _ _ uv(3-5)] uv(4,5) by cases blast+
    qed
  qed
  have nsp: "no_sink_parents t h" if "t \<in> set (dsl_live st')" for t
  proof (cases "t = s")
    case False
    then have t: "t \<in> set (dsl_live st)" using that live by simp
    have "no_sink_parents t h = no_sink_parents t ?h"
      using old(2) [OF W(6) [OF t]] old_node W(7) [OF t] sub_wfD(3) [OF W(5) [OF t]] by (intro no_sink_parents_cong) auto
    then show ?thesis using W(2) [OF t] by simp
  qed (simp add: no_sink_parents_def new)
  have num: "sub_num h t = sub_num ?h t" if "t \<in> set (dsl_live st)" for t using old(3) [OF W(6) [OF that]] by (simp add: sub_num_def)
  have num': "sub_num h s = tb_counter ?tb" by (simp add: sub_num_def new NewSubTopologyId_def)
  have less: "sub_num h t < tb_counter ?tb" if "t \<in> set (dsl_live st)" for t using W(4) [OF that] num [OF that] by simp
  have "inj_on (sub_num h) (set (dsl_live st))" using W(3) num by (simp add: inj_on_def)
  moreover have "sub_num h s \<notin> sub_num h ` set (dsl_live st)" unfolding num'
  proof
    assume "tb_counter ?tb \<in> sub_num h ` set (dsl_live st)"
    then obtain t where "t \<in> set (dsl_live st)" "tb_counter ?tb = sub_num h t" by blast
    with less [of t] show False by linarith
  qed
  ultimately have "inj_on (sub_num h) (insert s (set (dsl_live st)))" unfolding inj_on_insert by blast
  then have "inj_on (sub_num h) (set (dsl_live st'))" by (simp only: live set_append list.set set_simps Un_insert_right Un_empty_right)
  moreover note \<open>heap_wf (dsl_live st') h\<close> nsp
  moreover have "sub_num h t < tb_counter ?tb + 1" if "t \<in> set (dsl_live st')" for t
    using that less [of t] num' by (auto simp: live)
  ultimately show "dsl_wf st'" unfolding dsl_wf_def h' cnt by blast
  show "grows st st'" unfolding grows_def h' live
    using old(1) [OF W(6)] old_node same_sort_kind str by (auto simp: nodes same_place_def stream_at_def)
  show "dsl_streams st' = dsl_streams st" "dsl_live st' = dsl_live st @ [s]" by (fact str live)+
  show "parent_in a s st'" "nb_source (hp_nodes (dsl_heap st') ! a) \<noteq> None" "sub_Nodes s (dsl_heap st') = [a]"
    unfolding parent_in_def h' live by (simp_all add: new nodes a builder_is_sink_def nb_source_def)
qed

text \<open>A stream at the source of a new sub topology.\<close>

lemma new_root_stream:
  assumes wf: "dsl_wf st" and s: "new_sub kind source st = (s, a, st1)"
    and c: "new_stream \<lparr>str_stp = s, str_source = a, str_root = a, str_rePartitioned = rp, str_repartitionOpts = ro, str_key = ke, str_val = ve\<rparr>
      st1 = (c, st')"
  shows "dsl_wf st'" "grows st st'" "live_stream c st'"
proof -
  note S = new_sub_ok [OF wf s] and C = new_stream_ok [OF c]
  show "dsl_wf st'" by (rule dsl_wf_tb [OF C(1) S(1)])
  show "grows st st'" by (rule grows_trans [OF S(2) C(4)])
  show "live_stream c st'" using S(4,5) C(1-3) by (simp add: live_stream_def Let_def parent_in_def dsl_heap_def dsl_live_def)
qed

lemma Through_ok:
  assumes "dsl_wf st" "live_stream k st" "str_Through k topic options st = (c, st')"
  shows "dsl_wf st'" "grows st st'" "live_stream c st'"
proof -
  define st1 where "st1 = str_To k topic (do_kSinkOptions (apply_opts options \<lparr>do_kSinkOptions = [], do_kSourceOptions = []\<rparr>)) st"
  obtain source s a st2 where r: "new_sub KindStream source st1 = (s, a, st2)"
    "new_stream \<lparr>str_stp = s, str_source = a, str_root = a, str_rePartitioned = False, str_repartitionOpts = None,
             str_key = src_Key source, str_val = src_Value source\<rparr> st2 = (c, st')"
    using assms(3) by (auto simp: str_Through_def Let_def st1_def split: prod.splits)
  have w: "dsl_wf st1" "grows st st1" unfolding st1_def by (rule To_ok [OF assms(1,2)])+
  from new_root_stream [OF w(1) r] grows_trans [OF w(2)] show "dsl_wf st'" "grows st st'" "live_stream c st'" by blast+
qed

lemma Repartition_ok:
  assumes "dsl_wf st" "live_stream k st" "str_Repartition k topic opts st = (r, st')"
  shows "dsl_wf st'" "grows st st'" "r = Ok c \<Longrightarrow> live_stream c st'"
proof -
  let ?f = "\<lambda>x. x\<lparr>str_rePartitioned := True\<rparr>"
  consider "st' = st" "\<forall>c. r \<noteq> Ok c" | t o1 c st1 where "str_Through k t o1 st = (c, st1)" "r = Ok c" "st' = upd_stream c ?f st1"
    using assms(3) by (auto simp: str_Repartition_def Let_def split: prod.splits if_splits)
  then have "dsl_wf st' \<and> grows st st' \<and> (r = Ok c \<longrightarrow> live_stream c st')"
  proof cases
    case 2
    note T = Through_ok [OF assms(1,2) 2(1)]
    have f: "same_place x (?f x)" for x by (simp add: same_place_def)
    note U = upd_stream_same [of ?f, OF f]
    show ?thesis using T(1,3) grows_trans [OF T(2) U(1)] 2(2,3) by (auto simp: U(2,3))
  qed (use assms(1) in auto)
  then show "dsl_wf st'" "grows st st'" "r = Ok c \<Longrightarrow> live_stream c st'" by blast+
qed

section \<open>Stores and tables\<close>

lemma add_store_ok:
  assumes wf: "dsl_wf st" and k: "live_stream k st"
  shows "dsl_wf (add_store k store st)" "grows st (add_store k store st)" "stream_at j (add_store k store st) = stream_at j st"
    "sub_Id s (dsl_heap (add_store k store st)) = sub_Id s (dsl_heap st)" "dsl_live (add_store k store st) = dsl_live st"
    "dsl_streams (add_store k store st) = dsl_streams st"
proof -
  let ?s = "str_stp (stream_at k st)" and ?h = "dsl_heap st"
  note W = dsl_wfD [OF wf]
  have l: "?s < length (hp_subs ?h)" by (rule W(6) [OF live_streamD(2) [OF k]])
  have e: "add_store k store st = on_builders (\<lambda>_. sub_AddStore ?s store ?h) st"
    by (simp add: add_store_def on_builders_def on_heap_def dsl_heap_def)
  note A = AddStore_simps [OF l, where b = store]
  show "dsl_wf (add_store k store st)" unfolding e
  proof (rule dsl_wf_heap [OF wf])
    show "heap_wf (dsl_live st) (sub_AddStore ?s store ?h)" by (rule heap_wf_AddStore [OF W(1) l])
    show "sub_Id s (sub_AddStore ?s store ?h) = sub_Id s ?h" for s by (rule A(5))
    show "no_sink_parents s (sub_AddStore ?s store ?h)" if "s \<in> set (dsl_live st)" for s
      using W(2) [OF that] A(1,4) by (simp add: no_sink_parents_def)
  qed
  show "grows st (add_store k store st)" unfolding e grows_def using A(1,3) by (simp add: same_place_def same_sort_def)
  show "stream_at j (add_store k store st) = stream_at j st" "sub_Id s (dsl_heap (add_store k store st)) = sub_Id s (dsl_heap st)"
    "dsl_live (add_store k store st) = dsl_live st" "dsl_streams (add_store k store st) = dsl_streams st"
    by (simp_all add: e A(5))
qed

lemma live_same_stream:
  assumes "dsl_wf st" "live_stream k st" "grows st st1" "child_stream k st1 c st'"
  shows "child_stream k st c st'"
  by (rule child_stream_trans [OF assms(3) live_streamD(1) [OF assms(2)] assms(4)])

lemma AddStateStore_ok:
  assumes "dsl_wf st" "live_stream k st"
  shows "dsl_wf (snd (str_AddStateStore k name ke ve opts st))" "grows st (snd (str_AddStateStore k name ke ve opts st))"
  using add_store_ok(1,2) [OF assms] assms(1) by (auto simp: str_AddStateStore_def split: res.splits)

lemma aggregate_ok:
  assumes wf: "dsl_wf st" and k: "live_stream k st" and r: "str_aggregate k store f o' st = (r, st')"
  shows "dsl_wf st'" "grows st st'" "r = Ok t \<Longrightarrow> child_stream k st (tbl_stream t) st'"
proof -
  consider "st' = st" "\<forall>t. r \<noteq> Ok t" | b a st1 c where
    "add_below k (str_root (stream_at k st)) (fst (applyNodeOptions (BProc (PAggregator f store)) (ag_streamOpts o'))) (add_store k b st) = (a, st1)"
    "newChildStream k a (with_encoders (ag_key o') (ag_val o')) st1 = (c, st')" "r = Ok \<lparr>tbl_stream = c, tbl_store = b, tbl_filterFuncs = []\<rparr>"
    using r by (auto simp: str_aggregate_def split: prod.splits res.splits)
  then have "dsl_wf st' \<and> grows st st' \<and> (r = Ok t \<longrightarrow> child_stream k st (tbl_stream t) st')"
  proof cases
    case 2
    note S = add_store_ok [OF wf k, where store = b]
    have k1: "live_stream k (add_store k b st)" by (rule live_grows [OF wf k S(2)])
    have p: "parent_in (str_root (stream_at k st)) (str_stp (stream_at k (add_store k b st))) (add_store k b st)"
      using live_parent [OF k1] by (simp only: S(3))
    have "child_stream k (add_store k b st) c st'"
      by (rule child_stream_below(1) [OF S(1) k1 p _ 2(1,2)]) (simp_all add: same_place_def with_encoders_def)
    from live_same_stream [OF wf k S(2) this] show ?thesis using 2(3) by (auto simp: child_stream_def)
  qed (use wf in auto)
  then show "dsl_wf st'" "grows st st'" "r = Ok t \<Longrightarrow> child_stream k st (tbl_stream t) st'" by blast+
qed

lemma Aggregate_ok:
  assumes wf: "dsl_wf st" and k: "live_stream k st" and r: "str_Aggregate k store f opts st = (r, st')"
  shows "dsl_wf st'" "grows st st'" "r = Ok t \<Longrightarrow> live_stream (tbl_stream t) st'"
proof -
  define o' where "o' = apply_opts opts \<lparr>ag_streamOpts = [],
      ag_storeBuilderOpts = [WithChangelogOptions [ChangelogWithTopicReplicaCount (cf_ChangelogReplicaCount (dsl_config st))]],
      ag_key = keyEncoder k st, ag_val = valEncoder k st\<rparr>"
  have "str_aggregate k store f o' st = (r, st') \<or>
      (\<exists>rpo. bindR (str_Repartition k [] rpo) (\<lambda>c. str_aggregate c store f o') st = (r, st'))"
    using r unfolding str_Aggregate_def Let_def o'_def [symmetric] by (auto split: option.splits if_splits)
  then have "dsl_wf st' \<and> grows st st' \<and> (r = Ok t \<longrightarrow> live_stream (tbl_stream t) st')"
  proof (elim disjE exE)
    assume a: "str_aggregate k store f o' st = (r, st')"
    show ?thesis using aggregate_ok [OF wf k a] by (auto simp: child_stream_def)
  next
    fix rpo
    assume b: "bindR (str_Repartition k [] rpo) (\<lambda>c. str_aggregate c store f o') st = (r, st')"
    obtain r1 st1 where r1: "str_Repartition k [] rpo st = (r1, st1)" by force
    note R = Repartition_ok [OF wf k r1]
    show ?thesis
    proof (cases r1)
      case (Ok c)
      then have a: "str_aggregate c store f o' st1 = (r, st')" using b by (simp add: bindR_def r1)
      from aggregate_ok [OF R(1) R(3) [OF Ok] a] show ?thesis using grows_trans [OF R(2)] by (auto simp: child_stream_def)
    qed (use b R in \<open>auto simp: bindR_def r1\<close>)
  qed
  then show "dsl_wf st'" "grows st st'" "r = Ok t \<Longrightarrow> live_stream (tbl_stream t) st'" by blast+
qed

lemma ToTable_ok:
  assumes wf: "dsl_wf st" and k: "live_stream k st" and r: "str_ToTable k store opts st = (r, st')"
  shows "dsl_wf st'" "grows st st'" "r = Ok t \<Longrightarrow> child_stream k st (tbl_stream t) st'"
proof -
  consider "st' = st" "\<forall>t. r \<noteq> Ok t" | b so c where "child_of k (BProc (PTableConverter (ssb_Name b))) so (add_store k b st) = (c, st')"
    "r = Ok \<lparr>tbl_stream = c, tbl_store = b, tbl_filterFuncs = []\<rparr>"
    using r unfolding str_ToTable_def Let_def by (auto split: prod.splits res.splits if_splits)
  then have "dsl_wf st' \<and> grows st st' \<and> (r = Ok t \<longrightarrow> child_stream k st (tbl_stream t) st')"
  proof cases
    case 2
    note S = add_store_ok [OF wf k, where store = b]
    have "child_stream k (add_store k b st) c st'"
      by (rule child_of_ok [OF S(1) live_grows [OF wf k S(2)] _ 2(1)]) simp
    from live_same_stream [OF wf k S(2) this] show ?thesis using 2(2) by (auto simp: child_stream_def)
  qed (use wf in auto)
  then show "dsl_wf st'" "grows st st'" "r = Ok t \<Longrightarrow> child_stream k st (tbl_stream t) st'" by blast+
qed

end
