(* ===== verification/Stream_Merge.thy ===== *)
theory Stream_Merge
  imports Stream_Wf
begin

text \<open>
  Merging and joining: what happens to the sub topologies and to the streams in them. The merged streams stay live, and so do all
  streams of other sub topologies; the other streams of the sub topology that was merged do not.
\<close>

section \<open>Changes that leave the wiring alone\<close>

definition same_wiring :: "('w, 'b) heap \<Rightarrow> ('w, 'b) heap \<Rightarrow> bool" where
  "same_wiring h h' \<longleftrightarrow> length (hp_nodes h') = length (hp_nodes h) \<and> length (hp_subs h') = length (hp_subs h) \<and>
     (\<forall>s. sub_Nodes s h' = sub_Nodes s h \<and> sub_Edges s h' = sub_Edges s h \<and> sub_Id s h' = sub_Id s h) \<and>
     (\<forall>a. node_Id a h' = node_Id a h) \<and> (\<forall>a. same_sort (hp_nodes h ! a) (hp_nodes h' ! a))"

lemma same_wiringD:
  assumes "same_wiring h h'"
  shows "length (hp_nodes h') = length (hp_nodes h)" "length (hp_subs h') = length (hp_subs h)" "sub_Nodes s h' = sub_Nodes s h"
    "sub_Edges s h' = sub_Edges s h" "sub_Id s h' = sub_Id s h" "node_Id a h' = node_Id a h"
    "same_sort (hp_nodes h ! a) (hp_nodes h' ! a)"
  using assms by (simp_all add: same_wiring_def)

lemma same_wiring_refl [simp]: "same_wiring h h"
  by (simp add: same_wiring_def same_sort_def)

lemma same_wiring_trans: "same_wiring h h1 \<Longrightarrow> same_wiring h1 h2 \<Longrightarrow> same_wiring h h2"
  by (simp add: same_wiring_def same_sort_def)

lemma same_wiring_wf:
  assumes "same_wiring h h'"
  shows "sub_wf s h' = sub_wf s h" "no_sink_parents s h' = no_sink_parents s h" "heap_wf live h' = heap_wf live h"
proof -
  note D = same_wiringD [OF assms]
  show w: "sub_wf s h' = sub_wf s h" for s by (simp add: sub_wf_def node_placed_def D)
  show "no_sink_parents s h' = no_sink_parents s h" using D(7) by (simp add: no_sink_parents_def D(4) same_sort_def)
  show "heap_wf live h' = heap_wf live h" by (simp add: heap_wf_def w D(3))
qed

lemma same_wiring_upd_node:
  assumes "\<And>n. nb_id (f n) = nb_id n" "same_sort (hp_nodes h ! a) (f (hp_nodes h ! a))"
  shows "same_wiring h (upd_node a f h)"
proof (cases "a < length (hp_nodes h)")
  case True
  have "same_sort (hp_nodes h ! b) (hp_nodes (upd_node a f h) ! b)" for b
    using assms(2) True by (cases "b = a") (simp_all add: upd_node_def same_sort_def)
  moreover have "node_Id b (upd_node a f h) = node_Id b h" for b
    using assms(1) True by (cases "b = a") (simp_all add: upd_node_def node_Id_def)
  ultimately show ?thesis by (simp add: same_wiring_def upd_node_simps(1-5))
qed (simp add: upd_node_def list_update_beyond)

lemma same_wiring_set_source:
  assumes "nb_source (hp_nodes h ! a) \<noteq> None"
  shows "same_wiring h (set_source a s h)"
proof -
  have "\<not> builder_is_sink (hp_nodes h ! a)"
    using assms by (auto simp: nb_source_def builder_is_sink_def split: builder_kind.splits processor.splits)
  with assms show ?thesis unfolding set_source_def
    by (intro same_wiring_upd_node) (simp_all add: same_sort_def builder_is_sink_def nb_source_def)
qed

lemma dsl_same_wiring:
  assumes wf: "dsl_wf st" and h: "same_wiring (dsl_heap st) h"
  shows "dsl_wf (on_builders (\<lambda>_. h) st)" "grows st (on_builders (\<lambda>_. h) st)"
proof -
  note D = same_wiringD [OF h]
  show "dsl_wf (on_builders (\<lambda>_. h) st)"
    using dsl_wfD(1,2) [OF wf] same_wiring_wf [OF h] by (intro dsl_wf_heap [OF wf] D(5)) simp_all
  show "grows st (on_builders (\<lambda>_. h) st)" unfolding grows_def by (simp add: D same_place_def)
qed

lemma mark_co_partitioned_ok:
  assumes wf: "dsl_wf st"
  shows "dsl_wf (mark_co_partitioned other k st)" "grows st (mark_co_partitioned other k st)"
    "stream_at j (mark_co_partitioned other k st) = stream_at j st"
    "dsl_live (mark_co_partitioned other k st) = dsl_live st"
proof -
  let ?a = "str_source (stream_at other st)" and ?h = "dsl_heap st"
  have "same_wiring ?h (ShouldCoPartitionedWith ?a (str_source (stream_at k st)) ?h)"
    using same_wiring_set_source [of ?h ?a] by (auto simp: ShouldCoPartitionedWith_def split: option.splits)
  then show "dsl_wf (mark_co_partitioned other k st)" "grows st (mark_co_partitioned other k st)"
    using dsl_same_wiring [OF wf] by (simp_all add: mark_co_partitioned_def on_builders_def on_heap_def dsl_heap_def)
  show "stream_at j (mark_co_partitioned other k st) = stream_at j st" "dsl_live (mark_co_partitioned other k st) = dsl_live st"
    by (simp_all add: mark_co_partitioned_def)
qed

section \<open>Merging\<close>

lemma Merge_kind: "nb_kind (hp_nodes (sub_MergeSubTopology s t h) ! a) = nb_kind (hp_nodes h ! a)"
proof -
  have 1: "nb_kind (hp_nodes (fold (sub_AddNode s) xs h) ! a) = nb_kind (hp_nodes h ! a)" for xs h
    by (induction xs arbitrary: h) (simp_all add: kind_simps)
  have 2: "nb_kind (hp_nodes (fold (\<lambda>(p, n). sub_AddEdge s p n) es h) ! a) = nb_kind (hp_nodes h ! a)" for es h
    by (induction es arbitrary: h) (auto simp: kind_simps)
  have 3: "nb_kind (hp_nodes (fold (\<lambda>(_, st). sub_AddStore s st) bs h) ! a) = nb_kind (hp_nodes h ! a)" for bs h
    by (induction bs arbitrary: h) (auto simp: kind_simps)
  show ?thesis by (simp add: sub_MergeSubTopology_def Let_def kind_simps 1 2 3)
qed

lemma different_iff:
  assumes wf: "dsl_wf st" and "str_stp (stream_at k st) \<in> set (dsl_live st)" "str_stp (stream_at other st) \<in> set (dsl_live st)"
  shows "different_topologies k other st \<longleftrightarrow> str_stp (stream_at k st) \<noteq> str_stp (stream_at other st)"
  using inj_onD [OF dsl_wfD(3) [OF wf] _ assms(2,3)] by (auto simp: different_topologies_def sub_num_def)

lemma str_merge_ok:
  assumes wf: "dsl_wf st" and k: "live_stream k st" and o': "live_stream other st"
    and ne: "str_stp (stream_at k st) \<noteq> str_stp (stream_at other st)"
  defines "st' \<equiv> str_merge k other st"
  shows "dsl_live st' = filter (\<lambda>u. u \<noteq> str_stp (stream_at other st)) (dsl_live st)" "dsl_wf st'"
    "stream_at j st' = (if j = other then (stream_at j st)\<lparr>str_stp := str_stp (stream_at k st)\<rparr> else stream_at j st)"
    "live_stream j st \<Longrightarrow> str_stp (stream_at j st) \<noteq> str_stp (stream_at other st) \<or> j = other \<Longrightarrow> live_stream j st'"
proof -
  let ?s = "str_stp (stream_at k st)" and ?t = "str_stp (stream_at other st)" and ?h = "dsl_heap st"
  let ?h' = "sub_MergeSubTopology ?s ?t ?h"
  note W = dsl_wfD [OF wf] and st = live_streamD(2) [OF k] live_streamD(2) [OF o']
  note M = Merge_eq [OF W(1) st ne]
  have h': "dsl_heap st' = ?h'" and c: "tb_counter (dsl_tb st') = tb_counter (dsl_tb st)"
    and live0: "dsl_live st' = filter (\<lambda>u. sub_Id u ?h' \<noteq> sub_Id ?t ?h') (dsl_live st)"
    and len: "length (dsl_streams st') = length (dsl_streams st)"
    by (simp_all add: st'_def str_merge_def Let_def setSubTopology_def upd_stream_def dsl_heap_def dsl_live_def RemoveSubTopology_def
        on_builders_def on_heap_def)
  have id: "sub_Id u ?h = sub_Id ?t ?h \<longleftrightarrow> u = ?t" if "u \<in> set (dsl_live st)" for u
    using inj_onD [OF W(3) _ that st(2)] by (auto simp: sub_num_def)
  show live: "dsl_live st' = filter (\<lambda>u. u \<noteq> ?t) (dsl_live st)" unfolding live0 using id M(5) by (intro filter_cong) simp_all
  have num: "sub_num ?h' = sub_num ?h" by (rule ext) (simp add: sub_num_def M(5))
  have nsp: "no_sink_parents u ?h'" if "u \<in> set (dsl_live st)" for u
    using W(2) [OF that] W(2) [OF st(1)] W(2) [OF st(2)] unfolding no_sink_parents_def M(2) is_sink_kind [OF Merge_kind]
    by (cases "u = ?s"; cases "u = ?t") auto
  have "heap_wf (dsl_live st') ?h'"
    by (rule heap_wf_subset [OF heap_wf_Merge [OF W(1) st ne]]) (use heap_wfD(1) [OF W(1)] in \<open>auto simp: live\<close>)
  then show "dsl_wf st'" unfolding dsl_wf_def h' c num
    using W(3,4) nsp by (auto simp: live inj_on_def)
  show at: "stream_at j st' = (if j = other then (stream_at j st)\<lparr>str_stp := ?s\<rparr> else stream_at j st)" for j
    using live_streamD(1) [OF o']
    by (auto simp: st'_def str_merge_def Let_def setSubTopology_def upd_stream_def stream_at_def on_builders_def nth_list_update)
  assume j: "live_stream j st" "str_stp (stream_at j st) \<noteq> ?t \<or> j = other"
  note J = live_streamD [OF j(1)]
  have k': "builder_is_sink (hp_nodes ?h' ! a) = builder_is_sink (hp_nodes ?h ! a)" "nb_source (hp_nodes ?h' ! a) = nb_source (hp_nodes ?h ! a)"
    for a using Merge_kind [of ?s ?t ?h a] by (simp_all add: builder_is_sink_def nb_source_def)
  show "live_stream j st'" unfolding live_stream_def Let_def h' at live k'
    using j(2) J st(1) ne len by (auto simp: M(1))
qed

lemma join_topologies_ok:
  assumes wf: "dsl_wf st" and k: "live_stream k st" and o': "live_stream other st"
  defines "st' \<equiv> join_topologies k other st"
  shows "dsl_wf st'" "live_stream k st'" "live_stream other st'"
    "str_stp (stream_at other st') = str_stp (stream_at k st')" "str_stp (stream_at k st') = str_stp (stream_at k st)"
    "str_root (stream_at j st') = str_root (stream_at j st)" "str_source (stream_at j st') = str_source (stream_at j st)"
    "live_stream j st \<Longrightarrow> str_stp (stream_at j st) \<noteq> str_stp (stream_at other st) \<or> j = other \<or>
       str_stp (stream_at k st) = str_stp (stream_at other st) \<Longrightarrow> live_stream j st'"
proof -
  note d = different_iff [OF wf live_streamD(2) [OF k] live_streamD(2) [OF o']]
  have "dsl_wf st' \<and> live_stream k st' \<and> live_stream other st' \<and> str_stp (stream_at other st') = str_stp (stream_at k st') \<and>
    str_stp (stream_at k st') = str_stp (stream_at k st) \<and> str_root (stream_at j st') = str_root (stream_at j st) \<and>
    str_source (stream_at j st') = str_source (stream_at j st) \<and>
    (live_stream j st \<longrightarrow> str_stp (stream_at j st) \<noteq> str_stp (stream_at other st) \<or> j = other \<or>
       str_stp (stream_at k st) = str_stp (stream_at other st) \<longrightarrow> live_stream j st')" for j
  proof (cases "different_topologies k other st")
    case True
    then have ne: "str_stp (stream_at k st) \<noteq> str_stp (stream_at other st)" using d by simp
    note M = str_merge_ok [OF wf k o' ne]
    show ?thesis unfolding st'_def join_topologies_def if_P [OF True]
      using M(2) M(4) [OF k] M(4) [OF o'] M(4) [of j] ne by (simp add: M(3))
  next
    case False
    then show ?thesis using d wf k o' by (simp add: st'_def join_topologies_def)
  qed
  then show "dsl_wf st'" "live_stream k st'" "live_stream other st'"
    "str_stp (stream_at other st') = str_stp (stream_at k st')" "str_stp (stream_at k st') = str_stp (stream_at k st)"
    "str_root (stream_at j st') = str_root (stream_at j st)" "str_source (stream_at j st') = str_source (stream_at j st)"
    "live_stream j st \<Longrightarrow> str_stp (stream_at j st) \<noteq> str_stp (stream_at other st) \<or> j = other \<or>
       str_stp (stream_at k st) = str_stp (stream_at other st) \<Longrightarrow> live_stream j st'" by blast+
qed

section \<open>Joins\<close>

text \<open>What an operation that may merge sub topologies leaves live.\<close>

definition survives :: "nat \<Rightarrow> nat \<Rightarrow> nat \<Rightarrow> ('w, 'b) dsl \<Rightarrow> bool" where
  "survives j k other st \<longleftrightarrow> live_stream j st \<and> (str_stp (stream_at j st) \<noteq> str_stp (stream_at other st) \<or> j = other \<or>
     str_stp (stream_at k st) = str_stp (stream_at other st))"

definition joins_to :: "nat \<Rightarrow> nat \<Rightarrow> ('w, 'b) dsl \<Rightarrow> nat \<Rightarrow> ('w, 'b) dsl \<Rightarrow> bool" where
  "joins_to k other st c st' \<longleftrightarrow> dsl_wf st' \<and> live_stream c st' \<and> (\<forall>j. survives j k other st \<longrightarrow> live_stream j st')"

lemma same_place_at: "live_stream j st \<Longrightarrow> grows st st' \<Longrightarrow> same_place (stream_at j st) (stream_at j st')"
  using growsD(6) live_streamD(1) by blast

text \<open>Marking, adding a store and merging, as all joins begin.\<close>

lemma join_begin:
  assumes wf: "dsl_wf st" and k: "live_stream k st" and o': "live_stream other st"
    and st0: "dsl_wf st0" "grows st st0" "\<And>j. stream_at j st0 = stream_at j st"
  defines "st1 \<equiv> join_topologies k other st0"
  shows "dsl_wf st1" "live_stream k st1" "live_stream other st1" "str_stp (stream_at other st1) = str_stp (stream_at k st1)"
    "survives j k other st \<Longrightarrow> live_stream j st1"
proof -
  have l: "live_stream j st \<Longrightarrow> live_stream j st0" for j by (rule live_grows [OF wf _ st0(2)])
  note J = join_topologies_ok [OF st0(1) l [OF k] l [OF o']]
  show "dsl_wf st1" "live_stream k st1" "live_stream other st1" "str_stp (stream_at other st1) = str_stp (stream_at k st1)"
    unfolding st1_def by (rule J)+
  show "survives j k other st \<Longrightarrow> live_stream j st1" unfolding st1_def using J(8) [of j] l [of j] by (auto simp: survives_def st0(3))
qed

lemma joinTable_ok:
  assumes wf: "dsl_wf st" and k: "live_stream k st" and o': "live_stream (tbl_stream t) st"
    and r: "str_joinTable k t vm typ opts st = (c, st')"
  shows "joins_to k (tbl_stream t) st c st'"
proof -
  let ?o = "tbl_stream t"
  define st0 where "st0 = add_store k (tbl_store t) (mark_co_partitioned ?o k st)"
  note K = mark_co_partitioned_ok [OF wf, where other = ?o and k = k]
  note S = add_store_ok [OF K(1) live_grows [OF wf k K(2)], where store = "tbl_store t"]
  have g: "grows st st0" unfolding st0_def by (rule grows_trans [OF K(2) S(2)])
  have at: "stream_at j st0 = stream_at j st" for j unfolding st0_def S(3) K(3) ..
  note B = join_begin [OF wf k o' S(1) [folded st0_def] g at]
  obtain sj so where c: "child_of k (BProc (PStreamJoiner sj)) so (join_topologies k ?o st0) = (c, st')"
    using r by (simp add: str_joinTable_def Let_def st0_def)
  have "child_stream k (join_topologies k ?o st0) c st'" by (rule child_of_ok [OF B(1,2) _ c]) simp
  note C = child_streamD [OF this]
  show ?thesis unfolding joins_to_def using C(1,3) live_grows [OF B(1) B(5) C(2)] by blast
qed

lemma JoinTable_ok:
  assumes wf: "dsl_wf st" and k: "live_stream k st" and o': "live_stream (tbl_stream t) st"
    and r: "str_JoinTable_typ typ k t vm opts st = (r, st')"
  shows "dsl_wf st'" "r = Ok c \<Longrightarrow> live_stream c st'"
proof -
  have "dsl_wf st' \<and> (r = Ok c \<longrightarrow> live_stream c st')"
  proof (cases "marked_opts k st")
    case None
    then obtain j where "str_joinTable k t vm typ opts st = (j, st')" "r = Ok j"
      using r by (auto simp: str_JoinTable_typ_def split: prod.splits)
    then show ?thesis using joinTable_ok [OF wf k o'] by (auto simp: joins_to_def)
  next
    case (Some rp)
    obtain r1 st1 where r1: "str_Repartition k [] (rePartitioned_Apply rp) st = (r1, st1)" by force
    note R = Repartition_ok [OF wf k r1]
    show ?thesis
    proof (cases r1)
      case (Ok d)
      then obtain j where j: "str_joinTable d t vm typ opts st1 = (j, st')" "r = Ok j"
        using r by (auto simp: str_JoinTable_typ_def Some bindR_def r1 split: prod.splits)
      then show ?thesis using joinTable_ok [OF R(1) R(3) [OF Ok] live_grows [OF wf o' R(2)] j(1)] by (auto simp: joins_to_def)
    qed (use r R(1) in \<open>auto simp: str_JoinTable_typ_def Some bindR_def r1\<close>)
  qed
  then show "dsl_wf st'" "r = Ok c \<Longrightarrow> live_stream c st'" by blast+
qed

text \<open>Adding a second edge to the node added last.\<close>

lemma second_edge:
  assumes wf: "dsl_wf st" and p: "parent_in p s st" and a: "parent_in a s st" "p < a"
  defines "st' \<equiv> on_builders (sub_AddNodeWithEdge s p a) st"
  shows "dsl_wf st'" "grows st st'"
proof -
  have al: "a < length (hp_nodes (dsl_heap st))" using dsl_wfD(7) [OF wf] a(1) by (auto simp: parent_in_def)
  have "a \<notin> set (sub_Nodes t (dsl_heap st))" if "t \<in> set (dsl_live st)" "t \<noteq> s" for t
    using heap_wfD(3) [OF dsl_wfD(1) [OF wf], of s t a] that a(1) by (auto simp: parent_in_def)
  then show "dsl_wf st'" "grows st st'" unfolding st'_def
    using dsl_AddNodeWithEdge(1,2) [OF wf _ _ a(2) _ al, of s] p by (auto simp: parent_in_def)
qed

text \<open>A node with two parents in the sub topology of stream \<open>k\<close>.\<close>

lemma add_merger_ok:
  assumes wf: "dsl_wf st" and k: "live_stream k st" and p: "parent_in p (str_stp (stream_at k st)) st" "parent_in q (str_stp (stream_at k st)) st"
    and nb: "\<not> builder_is_sink nb" and a: "add_below k p nb st = (a, st1)"
  defines "st' \<equiv> on_builders (sub_AddNodeWithEdge (str_stp (stream_at k st1)) q a) st1"
  shows "dsl_wf st'" "grows st st'" "live_stream k st'" "parent_in a (str_stp (stream_at k st')) st'"
proof -
  let ?s = "str_stp (stream_at k st)"
  note A = add_below_ok [OF wf p(1) a]
  have e: "stream_at k st1 = stream_at k st" "stream_at k st' = stream_at k st"
    using A(5) by (simp_all add: stream_at_def st'_def)
  have "q < a" unfolding A(7) using p(2) dsl_wfD(7) [OF wf] by (auto simp: parent_in_def)
  note E = second_edge [OF A(1) parent_in_grows [OF wf p(2) A(2)] A(6) [OF nb] this]
  show "dsl_wf st'" unfolding st'_def e(1) by (rule E(1))
  show g: "grows st st'" unfolding st'_def e(1) by (rule grows_trans [OF A(2) E(2)])
  show "live_stream k st'" by (rule live_grows [OF wf k g])
  show "parent_in a (str_stp (stream_at k st')) st'" unfolding e(2)
    using parent_in_grows [OF A(1) A(6) [OF nb] E(2)] by (simp add: st'_def e(1))
qed

lemma child_at:
  assumes wf: "dsl_wf st" and k: "live_stream k st" and a: "parent_in a (str_stp (stream_at k st)) st"
    and c: "newChildStream k a [] st = (c, st')"
  shows "child_stream k st c st'"
  using newChildStream_ok [OF wf k a _ c] by (simp add: child_stream_def same_place_def)

lemma Merge_ok:
  assumes wf: "dsl_wf st" and k: "live_stream k st" and o': "live_stream other st" and r: "str_Merge k other st = (c, st')"
  shows "joins_to k other st c st'"
proof -
  define st0 where "st0 = mark_co_partitioned other k st"
  define st1 where "st1 = join_topologies k other st0"
  note K = mark_co_partitioned_ok [OF wf, where other = other and k = k]
  note B = join_begin [OF wf k o' K(1-3), folded st0_def st1_def]
  obtain m st2 where m: "add_below k (str_root (stream_at k st1)) (fst (applyNodeOptions (BProc PMerger) [])) st1 = (m, st2)"
    "newChildStream k m [] (on_builders (sub_AddNodeWithEdge (str_stp (stream_at k st2)) (str_root (stream_at other st2)) m) st2) = (c, st')"
    using r by (auto simp: str_Merge_def Let_def st0_def st1_def split: prod.splits)
  have "stream_at other st2 = stream_at other st1" using add_below_ok(5) [OF B(1) live_parent [OF B(2)] m(1)] by (simp add: stream_at_def)
  note m2 = m(2) [unfolded this]
  note A = add_merger_ok [OF B(1,2) live_parent [OF B(2)] live_parent [OF B(3), unfolded B(4)] _ m(1)]
  note C = child_streamD [OF child_at [OF A(1,3,4) m2]]
  show ?thesis unfolding joins_to_def
    using C(1,3) live_grows [OF B(1) B(5) grows_trans [OF A(2) C(2)]] by (simp add: applyNodeOptions_sink)
qed

lemma tbl_join_ok:
  assumes wf: "dsl_wf st" and k: "live_stream (tbl_stream tbl) st" and o': "live_stream (tbl_stream t) st"
    and r: "tbl_join tbl t vm typ opts st = (u, st')"
  shows "joins_to (tbl_stream tbl) (tbl_stream t) st (tbl_stream u) st'"
proof -
  let ?k = "tbl_stream tbl" and ?o = "tbl_stream t" and ?nb = "\<lambda>p. fst (applyNodeOptions (BProc p) [])"
  define st0 where "st0 = add_store ?k (tbl_store t) (mark_co_partitioned ?o ?k st)"
  define st1 where "st1 = join_topologies ?k ?o st0"
  note K = mark_co_partitioned_ok [OF wf, where other = ?o and k = ?k]
  note S = add_store_ok [OF K(1) live_grows [OF wf k K(2)], where store = "tbl_store t"]
  have g: "grows st st0" unfolding st0_def by (rule grows_trans [OF K(2) S(2)])
  have at: "stream_at j st0 = stream_at j st" for j unfolding st0_def S(3) K(3) ..
  note B = join_begin [OF wf k o' S(1) [folded st0_def] g at, folded st1_def]
  obtain lj rj mo a1 st2 a2 st3 m st4 where
    l: "add_below ?k (str_root (stream_at ?k st1)) (?nb (PStreamJoiner lj)) st1 = (a1, st2)" and
    r2: "add_below ?k (str_root (stream_at ?o st2)) (?nb (PStreamJoiner rj)) st2 = (a2, st3)" and
    m: "add_below ?k a1 (fst (applyNodeOptions (BProc PMerger) mo)) st3 = (m, st4)" and
    c: "newChildTable tbl m None [] (on_builders (sub_AddNodeWithEdge (str_stp (stream_at ?k st4)) a2 m) st4) = (u, st')"
    using r by (auto simp: tbl_join_def Let_def st0_def st1_def table_joiners_def split: prod.splits)
  let ?s = "str_stp (stream_at ?k st1)"
  note L = add_below_ok [OF B(1) live_parent [OF B(2)] l]
  have e2: "stream_at j st2 = stream_at j st1" for j using L(5) by (simp add: stream_at_def)
  have po: "parent_in (str_root (stream_at ?o st2)) (str_stp (stream_at ?k st2)) st2"
    unfolding e2 using parent_in_grows [OF B(1) live_parent [OF B(3)] L(2)] B(4) by simp
  note R = add_below_ok [OF L(1) po r2]
  have e3: "stream_at j st3 = stream_at j st1" for j using R(5) e2 [of j] by (simp add: stream_at_def)
  have p1: "parent_in a1 (str_stp (stream_at ?k st3)) st3" unfolding e3 by (rule parent_in_grows [OF L(1) _ R(2)]) (use L(6) in simp)
  have p2: "parent_in a2 (str_stp (stream_at ?k st3)) st3" unfolding e3 using R(6) e2 by simp
  have g13: "grows st1 st3" by (rule grows_trans [OF L(2) R(2)])
  have k3: "live_stream ?k st3" by (rule live_grows [OF B(1,2) g13])
  note A = add_merger_ok [OF R(1) k3 p1 p2 _ m]
  obtain d where d: "newChildStream ?k m [] (on_builders (sub_AddNodeWithEdge (str_stp (stream_at ?k st4)) a2 m) st4) = (d, st')"
    "tbl_stream u = d"
    using c by (auto simp: newChildTable_def Let_def split: prod.splits)
  note C = child_streamD [OF child_at [OF A(1,3,4) d(1)]]
  show ?thesis unfolding joins_to_def d(2)
    using C(1,3) live_grows [OF B(1) B(5) grows_trans [OF g13 grows_trans [OF A(2) C(2)]]] by (simp add: applyNodeOptions_sink)
qed

end
