(* ===== verification/Stream_Programs.thy ===== *)
theory Stream_Programs
  imports Stream_Merge
begin

text \<open>
  Programs over the stream API, as sequences of calls on live streams and tables, and what \<open>Build\<close> makes of them:
  \<open>StreamBuilder.Build\<close> of \<open>src/streams/stream_builder.go\<close>, the setup of the topology builder, and the sub topologies built from it.
\<close>

section \<open>The remaining operations\<close>

lemma KStream_ok:
  assumes "dsl_wf st" "sb_KStream topic ke ve opts st = (r, st')"
  shows "dsl_wf st'" "grows st st'" "r = Ok c \<Longrightarrow> live_stream c st'"
proof -
  consider "st' = st" "\<forall>c. r \<noteq> Ok c" | src s a st1 c where "new_sub KindStream src st = (s, a, st1)"
    "new_stream \<lparr>str_stp = s, str_source = a, str_root = a, str_rePartitioned = False, str_repartitionOpts = None,
                     str_key = ke, str_val = ve\<rparr> st1 = (c, st')" "r = Ok c"
    using assms(2) by (auto simp: sb_KStream_def Let_def split: prod.splits if_splits)
  then have "dsl_wf st' \<and> grows st st' \<and> (r = Ok c \<longrightarrow> live_stream c st')"
  proof cases
    case 2
    from new_root_stream [OF assms(1) 2(1,2)] 2(3) show ?thesis by auto
  qed (use assms(1) in auto)
  then show "dsl_wf st'" "grows st st'" "r = Ok c \<Longrightarrow> live_stream c st'" by blast+
qed

lemma GlobalTable_ok:
  assumes "dsl_wf st" "sb_GlobalTable create topic ke ve name opts st = (r, st')"
  shows "dsl_wf st'" "grows st st'" "r = Ok g \<Longrightarrow> live_stream (gt_stream g) st'"
proof -
  consider "st' = st" "\<forall>g. r \<noteq> Ok g" | src s a st1 c st2 sb where "new_sub KindGlobalTable src st = (s, a, st1)"
    "new_stream \<lparr>str_stp = s, str_source = a, str_root = a, str_rePartitioned = False, str_repartitionOpts = None,
                   str_key = None, str_val = None\<rparr> st1 = (c, st2)" "r = Ok \<lparr>gt_stream = c, gt_store = sb\<rparr>"
    "st' = snd (add_below c a (fst (applyNodeOptions (BProc (PGlobalTable name)) [])) (add_store c sb st2))"
    using assms(2) unfolding sb_GlobalTable_def Let_def by (auto split: prod.splits res.splits)
  then have "dsl_wf st' \<and> grows st st' \<and> (r = Ok g \<longrightarrow> live_stream (gt_stream g) st')"
  proof cases
    case 2
    note N = new_root_stream [OF assms(1) 2(1,2)]
    note S = add_store_ok [OF N(1,3), where store = sb]
    have k: "live_stream c (add_store c sb st2)" by (rule live_grows [OF N(1,3) S(2)])
    have "str_root (stream_at c (add_store c sb st2)) = a" unfolding S(3) using new_stream_ok(2) [OF 2(2)] by simp
    then have "parent_in a (str_stp (stream_at c (add_store c sb st2))) (add_store c sb st2)" using live_parent [OF k] by simp
    note A = add_below_ok [OF S(1) this prod.collapse [symmetric], of "fst (applyNodeOptions (BProc (PGlobalTable name)) [])"]
    show ?thesis using A(1) grows_trans [OF grows_trans [OF N(2) S(2)] A(2)] live_grows [OF S(1) k A(2)] by (auto simp: 2(3,4))
  qed (use assms(1) in auto)
  then show "dsl_wf st'" "grows st st'" "r = Ok g \<Longrightarrow> live_stream (gt_stream g) st'" by blast+
qed

lemma tbl_child_ok:
  assumes wf: "dsl_wf st" and k: "live_stream (tbl_stream t) st" and p: "\<And>s. p \<noteq> PSink s" and r: "tbl_child t p flt opts st = (u, st')"
  shows "child_stream (tbl_stream t) st (tbl_stream u) st'"
proof -
  obtain a st1 where a: "add_below (tbl_stream t) (str_root (stream_at (tbl_stream t) st)) (fst (applyNodeOptions (BProc p) opts)) st = (a, st1)"
    "newChildStream (tbl_stream t) a [] st1 = (tbl_stream u, st')"
    using r by (auto simp: tbl_child_def newChildTable_def Let_def split: prod.splits)
  show ?thesis by (rule child_stream_below(1) [OF wf k live_parent [OF k] _ a]) (simp_all add: p same_place_def)
qed

lemma ToStream_ok:
  assumes "dsl_wf st" "live_stream (tbl_stream t) st" "tbl_ToStream t st = (c, st')"
  shows "child_stream (tbl_stream t) st c st'"
  by (rule child_at [OF assms(1,2) live_parent [OF assms(2)]]) (use assms(3) in \<open>simp add: tbl_ToStream_def\<close>)

section \<open>Programs\<close>

text \<open>One call of the API. Its stream arguments are live; a processor the user supplies is not a sink.\<close>

inductive dsl_step :: "('w, 'b) dsl \<Rightarrow> ('w, 'b) dsl \<Rightarrow> bool" where
  KStream: "dsl_step st (snd (sb_KStream topic ke ve sopts st))"
| GlobalTable: "dsl_step st (snd (sb_GlobalTable create topic ke ve name gopts st))"
| NewProcessor: "live_stream k st \<Longrightarrow> (\<And>s. p \<noteq> PSink s) \<Longrightarrow> dsl_step st (snd (str_NewProcessor k p opts st))"
| TransformValues: "live_stream k st \<Longrightarrow> (\<And>s. p \<noteq> PSink s) \<Longrightarrow> dsl_step st (snd (str_TransformValues k p st))"
| MapValue: "live_stream k st \<Longrightarrow> dsl_step st (snd (str_MapValue k f opts st))"
| Filter: "live_stream k st \<Longrightarrow> dsl_step st (snd (str_Filter k pr opts st))"
| Each: "live_stream k st \<Longrightarrow> dsl_step st (snd (str_Each k e opts st))"
| FlatMapValues: "live_stream k st \<Longrightarrow> dsl_step st (snd (str_FlatMapValues k fv opts st))"
| Map: "live_stream k st \<Longrightarrow> dsl_step st (snd (str_Map k m opts st))"
| SelectKey: "live_stream k st \<Longrightarrow> dsl_step st (snd (str_SelectKey k f opts st))"
| FlatMap: "live_stream k st \<Longrightarrow> dsl_step st (snd (str_FlatMap k fm opts st))"
| Branch: "live_stream k st \<Longrightarrow> dsl_step st (snd (str_Branch k branches st))"
| Split: "live_stream k st \<Longrightarrow> dsl_step st (snd (str_Split k opts st))"
| New: "live_branched brs st \<Longrightarrow> dsl_step st (snd (snd (brs_New name pr brs st)))"
| To: "live_stream k st \<Longrightarrow> dsl_step st (str_To k topic kopts st)"
| Through: "live_stream k st \<Longrightarrow> dsl_step st (snd (str_Through k topic dopts st))"
| Repartition: "live_stream k st \<Longrightarrow> dsl_step st (snd (str_Repartition k topic ropts st))"
| AddStateStore: "live_stream k st \<Longrightarrow> dsl_step st (snd (str_AddStateStore k name ke ve ssopts st))"
| Aggregate: "live_stream k st \<Longrightarrow> dsl_step st (snd (str_Aggregate k name agg aopts st))"
| ToTable: "live_stream k st \<Longrightarrow> dsl_step st (snd (str_ToTable k name topts st))"
| JoinGlobalTable: "live_stream k st \<Longrightarrow> dsl_step st (snd (str_JoinGlobalTable k g km vm jopts st))"
| LeftJoinGlobalTable: "live_stream k st \<Longrightarrow> dsl_step st (snd (str_LeftJoinGlobalTable k g km vm jopts st))"
| JoinTable: "live_stream k st \<Longrightarrow> live_stream (tbl_stream t) st \<Longrightarrow> dsl_step st (snd (str_JoinTable k t vm jopts st))"
| LeftJoinTable: "live_stream k st \<Longrightarrow> live_stream (tbl_stream t) st \<Longrightarrow> dsl_step st (snd (str_LeftJoinTable k t vm jopts st))"
| Merge: "live_stream k st \<Longrightarrow> live_stream other st \<Longrightarrow> dsl_step st (snd (str_Merge k other st))"
| ToStream: "live_stream (tbl_stream t) st \<Longrightarrow> dsl_step st (snd (tbl_ToStream t st))"
| TableFilter: "live_stream (tbl_stream t) st \<Longrightarrow> dsl_step st (snd (tbl_Filter t pr opts st))"
| TableEach: "live_stream (tbl_stream t) st \<Longrightarrow> dsl_step st (snd (tbl_Each t e opts st))"
| TableJoinGlobal: "live_stream (tbl_stream t) st \<Longrightarrow> dsl_step st (snd (tbl_JoinGlobalTable t g km vm jopts st))"
| TableJoin: "live_stream (tbl_stream t) st \<Longrightarrow> live_stream (tbl_stream u) st \<Longrightarrow> dsl_step st (snd (tbl_join t u vm typ jopts st))"

lemmas child_wf = child_of_ok [THEN child_streamD(1)] rekeyed_ok [THEN child_streamD(1)] FlatMap_ok [THEN child_streamD(1)]
  brs_New_ok [THEN child_streamD(1)] tbl_child_ok [THEN child_streamD(1)] ToStream_ok [THEN child_streamD(1)]

lemmas child_defs = str_NewProcessor_def str_TransformValues_def str_MapValue_def str_Filter_def str_Each_def str_FlatMapValues_def
  str_Map_def str_SelectKey_def str_JoinGlobalTable_def str_LeftJoinGlobalTable_def tbl_Filter_def tbl_Each_def Let_def

lemma child_of_wf: "dsl_wf st \<Longrightarrow> live_stream k st \<Longrightarrow> (\<And>s. p \<noteq> PSink s) \<Longrightarrow> dsl_wf (snd (child_of k (BProc p) opts st))"
  by (rule child_wf(1) [OF _ _ _ prod.collapse [symmetric]])

lemma rekeyed_wf: "dsl_wf st \<Longrightarrow> live_stream k st \<Longrightarrow> (\<And>s. p \<noteq> PSink s) \<Longrightarrow> dsl_wf (snd (rekeyed k p opts st))"
  by (rule child_wf(2) [OF _ _ _ prod.collapse [symmetric]])

lemma tbl_child_wf:
  "dsl_wf st \<Longrightarrow> live_stream (tbl_stream t) st \<Longrightarrow> (\<And>s. p \<noteq> PSink s) \<Longrightarrow> dsl_wf (snd (tbl_child t p flt opts st))"
  by (rule child_wf(5) [OF _ _ _ prod.collapse [symmetric]])

lemma snd_tbl_JoinGlobalTable: "snd (tbl_JoinGlobalTable t g km vm opts st) = snd (str_JoinGlobalTable (tbl_stream t) g km vm opts st)"
  by (simp add: tbl_JoinGlobalTable_def split_beta)

lemma brs_New_wf: "dsl_wf st \<Longrightarrow> live_branched brs st \<Longrightarrow> dsl_wf (snd (snd (brs_New name f brs st)))"
  by (rule child_wf(4)) (auto intro!: prod_eqI)

lemmas state_wf =
  KStream_ok(1) [OF _ prod.collapse [symmetric]] GlobalTable_ok(1) [OF _ prod.collapse [symmetric]]
  FlatMap_ok [OF _ _ prod.collapse [symmetric], THEN child_streamD(1)] Branch_ok(1) [OF _ _ prod.collapse [symmetric]]
  Split_ok(1) [OF _ _ prod.collapse [symmetric]] To_ok(1) Through_ok(1) [OF _ _ prod.collapse [symmetric]]
  Repartition_ok(1) [OF _ _ prod.collapse [symmetric]] AddStateStore_ok(1) Aggregate_ok(1) [OF _ _ prod.collapse [symmetric]]
  ToTable_ok(1) [OF _ _ prod.collapse [symmetric]] JoinTable_ok(1) [OF _ _ _ prod.collapse [symmetric]]
  ToStream_ok [OF _ _ prod.collapse [symmetric], THEN child_streamD(1)]

lemma Merge_wf: "dsl_wf st \<Longrightarrow> live_stream k st \<Longrightarrow> live_stream other st \<Longrightarrow> dsl_wf (snd (str_Merge k other st))"
  using Merge_ok [OF _ _ _ prod.collapse [symmetric]] by (auto simp: joins_to_def)

lemma tbl_join_wf:
  "dsl_wf st \<Longrightarrow> live_stream (tbl_stream t) st \<Longrightarrow> live_stream (tbl_stream u) st \<Longrightarrow> dsl_wf (snd (tbl_join t u vm typ opts st))"
  by (rule tbl_join_ok [OF _ _ _ prod.collapse [symmetric], unfolded joins_to_def, THEN conjunct1])

lemma dsl_step_wf: "dsl_step st st' \<Longrightarrow> dsl_wf st \<Longrightarrow> dsl_wf st'"
  by (induction rule: dsl_step.induct)
     (simp_all add: child_defs child_of_wf rekeyed_wf tbl_child_wf state_wf snd_tbl_JoinGlobalTable brs_New_wf Merge_wf tbl_join_wf
       str_JoinTable_def str_LeftJoinTable_def)

lemma dsl_steps_wf: "dsl_step\<^sup>*\<^sup>* st st' \<Longrightarrow> dsl_wf st \<Longrightarrow> dsl_wf st'"
  by (induction rule: rtranclp_induct) (auto intro: dsl_step_wf)

lemma NewStreamBuilder_wf: "NewStreamBuilder config bk = Ok st \<Longrightarrow> dsl_wf st"
  by (auto simp: NewStreamBuilder_def Let_def NewKTopologyBuilder_def dsl_wf_def dsl_live_def dsl_heap_def heap_wf_def split: res.splits)

section \<open>Setup\<close>

text \<open>Storing a topic configuration leaves the heap as it was before the call.\<close>

lemma stored_heap [simp]:
  "fst (snd (case x of (Ok a, adm') \<Rightarrow> (Ok a, h, adm') | (Err e, adm') \<Rightarrow> (Err (f e), h, adm') | (Panic p, adm') \<Rightarrow> (Panic p, h, adm'))) = h"
  by (cases x; cases "fst x") auto

lemma source_Setup_wiring:
  assumes "nb_kind (hp_nodes h ! a) = BProc (PSource s)"
  shows "same_wiring h (fst (snd (source_Setup env ctx a s (h, adm))))"
proof -
  have "same_wiring h (set_source a s' h)" for s' using assms by (intro same_wiring_set_source) (simp add: nb_source_def)
  then show ?thesis unfolding source_Setup_def Let_def by (simp split: option.split)
qed

lemma sink_Setup_wiring:
  assumes "nb_kind (hp_nodes h ! a) = BSink s"
  shows "same_wiring h (fst (snd (sink_Setup env ctx a s (h, adm))))"
proof -
  have "same_wiring h (upd_node a (\<lambda>n. n\<lparr>nb_kind := BSink s'\<rparr>) h)" for s'
    using assms by (intro same_wiring_upd_node) (simp_all add: same_sort_def builder_is_sink_def nb_source_def)
  then show ?thesis unfolding sink_Setup_def Let_def by (simp split: option.split)
qed

lemma node_Setup_wiring: "same_wiring (fst st) (fst (snd (node_Setup env ctx a st)))"
  using source_Setup_wiring [of "fst st" a _ env ctx "snd st"] sink_Setup_wiring [of "fst st" a _ env ctx "snd st"]
  by (simp add: node_Setup_def split: builder_kind.split processor.split)

lemma same_wiring_upd_sub:
  assumes "\<And>b. sb_nodeBuilders (f b) = sb_nodeBuilders b \<and> sb_edges (f b) = sb_edges b \<and> sb_id (f b) = sb_id b"
  shows "same_wiring h (upd_sub s f h)"
proof (cases "s < length (hp_subs h)")
  case True
  note U = upd_sub_simps(1-3) upd_sub_simps(4) [OF True]
  show ?thesis using assms by (simp add: same_wiring_def U sub_Nodes_def sub_Edges_def sub_Id_def same_sort_def)
qed (simp add: upd_sub_def list_update_beyond)

lemma store_Setup_wiring: "same_wiring (fst st) (fst (snd (store_Setup env ctx s i st)))"
  by (cases st) (auto simp: store_Setup_def Let_def split: option.splits prod.splits intro: same_wiring_upd_sub)

lemma sub_Setup_wiring: "same_wiring (fst st) (fst (snd (sub_Setup env ctx s st)))"
proof -
  let ?I = "\<lambda>st'. same_wiring (fst st) (fst st')"
  have 1: "?I (snd (forR (\<lambda>a st. wrapR (msg a st) (node_Setup env ctx a) st) xs st))" for msg xs
    by (rule forR_inv) (auto intro: same_wiring_trans node_Setup_wiring)
  have 2: "?I (snd (forR (store_Setup env ctx s) xs st'))" if "?I st'" for xs st'
    using that by (rule forR_inv [rotated]) (auto intro: same_wiring_trans store_Setup_wiring)
  have 3: "snd (sub_check s st') = st'" for st' :: "('a, 'b) heap \<times> 'c"
    by (simp add: sub_check_def split: option.splits prod.splits)
  show ?thesis unfolding sub_Setup_def
    by (rule bindR_inv [where I = ?I], rule 1, rule bindR_inv [where I = ?I]) (simp_all add: 3 2)
qed

lemma setup_subs_wiring: "same_wiring (fst st) (fst (snd (setup_subs env tpInfo ss m st)))"
proof (induction ss arbitrary: m st)
  case (Cons s ss)
  show ?case
  proof (cases "sub_counts (fst st) tpInfo s m")
    case (Ok c)
    let ?I = "\<lambda>st'. same_wiring (fst st) (fst st')"
    obtain m' parts where c: "c = (m', parts)" by force
    have "?I (snd (bindR (wrapR msg (sub_Setup env ctx s)) (\<lambda>_. setup_subs env tpInfo ss m') st))" for msg ctx
      by (rule bindR_inv [where I = ?I]) (simp_all add: sub_Setup_wiring same_wiring_trans [OF _ Cons.IH])
    then show ?thesis by (simp add: Ok c)
  qed simp_all
qed simp

text \<open>The setup of the topology changes sources, sinks and stores, and not how they are connected.\<close>

lemma tb_Build_wiring:
  assumes "tb_Build env k adm = (r, k', adm')"
  shows "same_wiring (tb_heap k) (tb_heap k')" "tb_subTopologies k' = tb_subTopologies k"
proof -
  obtain r1 k1 adm1 where s: "tb_setup env k adm = (r1, k1, adm1)" by (metis prod_cases3)
  have k: "k' = k1" using assms by (cases r1) (auto simp: tb_Build_def s split: prod.splits)
  have wired: "same_wiring (tb_heap k) h" if "setup_subs env i ss m (tb_heap k, a) = (q, h, a')" for i ss m a q h a'
    using setup_subs_wiring [of "(tb_heap k, a)" env i ss m] that by simp
  have "same_wiring (tb_heap k) (tb_heap k1) \<and> tb_subTopologies k1 = tb_subTopologies k"
    using s by (auto simp: tb_setup_def Let_def split: prod.splits res.splits dest!: wired)
  then show "same_wiring (tb_heap k) (tb_heap k')" "tb_subTopologies k' = tb_subTopologies k" by (simp_all add: k)
qed

section \<open>What programs build\<close>

text \<open>A small program and the surroundings to build it in.\<close>

definition demo_dsl :: "(krecord list, unit) dsl" where
  "demo_dsl = \<lparr>dsl_tb = NewKTopologyBuilder, dsl_config = config_setUp (NewStreamBuilderConfig\<lparr>cf_ApplicationId := ''app'',
     cf_BootstrapServers := [''broker'']\<rparr>), dsl_backend = (\<lambda>_. Ok ()), dsl_streams = [], dsl_reparts = []\<rparr>"

definition demo_source :: "(krecord list, unit) dsl" where
  "demo_source = snd (sb_KStream ''in'' (Some ByteEncoder) (Some ByteEncoder) [] demo_dsl)"

definition demo_filtered :: "(krecord list, unit) dsl" where
  "demo_filtered = snd (str_Filter 0 (\<lambda>_ _ _. retR True) [] demo_source)"

definition demo_program :: "(krecord list, unit) dsl" where
  "demo_program = str_To 1 ''out'' [] demo_filtered"

definition demo_topic :: "string \<Rightarrow> ktopic" where
  "demo_topic name = \<lparr>kt_Name = name, kt_NumPartitions = 3, kt_ReplicationFactor = 1, kt_ConfigEntries = Map.empty\<rparr>"

definition demo_env :: "(unit, unit) setup_env" where
  "demo_env = \<lparr>se_ApplicationId = ''app'', se_FetchInfo = (\<lambda>topics. retR (map (\<lambda>t. (t, None, demo_topic t)) topics)),
     se_StoreConfigs = (\<lambda>_. retR ()), se_ApplyConfigs = retR (), se_DeleteTopics = (\<lambda>_. retR ()),
     se_Create = (\<lambda>_ _ _. retR \<lparr>st_name = [], st_keyEncoder = ByteEncoder, st_valEncoder = ByteEncoder, st_backend = (),
       st_backendBuilder = (\<lambda>_. Ok ())\<rparr>)\<rparr>"

lemma demo_live: "live_stream 0 demo_source" "live_stream 1 demo_filtered" "dsl_wf demo_dsl" "dsl_wf demo_source" "dsl_wf demo_filtered"
  and demo_start: "NewStreamBuilder (NewStreamBuilderConfig\<lparr>cf_ApplicationId := ''app'', cf_BootstrapServers := [''broker'']\<rparr>) (\<lambda>_. Ok ())
    = Ok demo_dsl"
proof -
  have "config_validate (config_setUp (NewStreamBuilderConfig\<lparr>cf_ApplicationId := ''app'', cf_BootstrapServers := [''broker'']\<rparr>)) = Ok ()"
    by (simp add: config_setUp_def config_validate_def Let_def NewStreamBuilderConfig_def)
  then show start: "NewStreamBuilder (NewStreamBuilderConfig\<lparr>cf_ApplicationId := ''app'', cf_BootstrapServers := [''broker'']\<rparr>) (\<lambda>_. Ok ())
    = Ok demo_dsl" by (simp add: NewStreamBuilder_def demo_dsl_def Let_def)
  show wf: "dsl_wf demo_dsl" by (rule NewStreamBuilder_wf [OF start])
  have k: "sb_KStream ''in'' (Some ByteEncoder) (Some ByteEncoder) [] demo_dsl = (Ok 0, demo_source)"
    unfolding demo_source_def by (rule prod_eqI) (code_simp, simp)
  note K = KStream_ok [OF wf k]
  show "dsl_wf demo_source" "live_stream 0 demo_source" using K by simp_all
  have f: "child_of 0 (BProc (PFilter (\<lambda>_ _ _. retR True))) [] demo_source = (1, demo_filtered)"
    unfolding demo_filtered_def str_Filter_def by (rule prod_eqI) (code_simp, simp)
  note F = child_of_ok [OF K(1) K(3) _ f]
  show "dsl_wf demo_filtered" "live_stream 1 demo_filtered" using F by (simp_all add: child_stream_def)
qed

lemma demo_steps: "dsl_step\<^sup>*\<^sup>* demo_dsl demo_program"
proof -
  have "dsl_step demo_dsl demo_source" unfolding demo_source_def by (rule dsl_step.KStream)
  moreover have "dsl_step demo_source demo_filtered" unfolding demo_filtered_def by (rule dsl_step.Filter [OF demo_live(1)])
  moreover have "dsl_step demo_filtered demo_program" unfolding demo_program_def by (rule dsl_step.To [OF demo_live(2)])
  ultimately show ?thesis by (meson converse_rtranclp_into_rtranclp rtranclp.rtrancl_refl)
qed

text \<open>C22: 
  Whatever program of API calls on live streams has built a topology, after a successful or failed \<open>Build\<close> of the topology every sub
  topology of it that builds has exactly the connections its builder lists, and a run through it ends within a stack as deep as
  it has nodes.
\<close>

theorem stream_programs_build:
  assumes "NewStreamBuilder config bk = Ok st0" "dsl_step\<^sup>*\<^sup>* st0 st" "tb_Build env (dsl_tb st) adm = (r, k, adm')"
    and "s \<in> set (tb_subTopologies k)" "sub_Build nenv topicMeta bs s (tb_heap k) = Ok t"
  shows "wired (tb_heap k) (length (sub_Nodes s (tb_heap k))) (sub_Nodes s (tb_heap k)) (sub_Edges s (tb_heap k)) (ks_nodes t) \<and>
    (\<forall>i depth bottom ctx key v. i < length (ks_nodes t) \<and> length (ks_nodes t) \<le> depth \<longrightarrow>
      node_Run nenv (ks_nodes t) depth i ctx key v = run_over bottom nenv (ks_nodes t) (length (ks_nodes t)) i ctx key v)"
proof -
  note B = tb_Build_wiring [OF assms(3)] and W = dsl_wfD [OF dsl_steps_wf [OF assms(2) NewStreamBuilder_wf [OF assms(1)]]]
  have s: "s \<in> set (dsl_live st)" using assms(4) B(2) by (simp add: dsl_live_def)
  have w: "sub_wf s (tb_heap k)" "no_sink_parents s (tb_heap k)"
    using same_wiring_wf [OF B(1)] W(5) [OF s] W(2) [OF s] by (simp_all add: dsl_heap_def)
  note wired = sub_Build_Ok [OF w assms(5)]
  have r: "ranked (newer (sub_Nodes s (tb_heap k))) (ks_nodes t)" by (rule wired_ranked [OF w(1) wired])
  have "node_Run nenv (ks_nodes t) depth i ctx key v = run_over bottom nenv (ks_nodes t) (length (ks_nodes t)) i ctx key v"
    if i: "i < length (ks_nodes t)" "length (ks_nodes t) \<le> depth" for i depth bottom ctx key v
  proof -
    have n: "newer (sub_Nodes s (tb_heap k)) i < length (ks_nodes t)" using newer_less i(1) wired by (simp add: wired_def)
    from node_Run_depth [OF r i(1) n, of nenv "depth - length (ks_nodes t)"] run_over_ranked [OF r i(1) n, of bottom nenv] i(2)
    show ?thesis by simp
  qed
  with wired show ?thesis by blast
qed

lemma stream_programs_build_witness:
  "\<exists>k t. snd (tb_Build demo_env (dsl_tb demo_program) ()) = (k, ()) \<and>
    sub_Build sink_env (Some \<circ> demo_topic) (\<lambda>_. Ok ()) 0 (tb_heap k) = Ok t \<and>
    node_Run sink_env (ks_nodes t) 3 0 sample_ctx (GBytes None) (GBytes None) =
    node_Run sink_env (ks_nodes t) 100 0 sample_ctx (GBytes None) (GBytes None)"
proof -
  obtain r k adm where b: "tb_Build demo_env (dsl_tb demo_program) () = (r, k, adm)" by (metis prod_cases3)
  have k: "k = fst (snd (tb_Build demo_env (dsl_tb demo_program) ()))" by (simp add: b)
  have s: "0 \<in> set (tb_subTopologies k)" unfolding k by code_simp
  have "is_ok (sub_Build sink_env (Some \<circ> demo_topic) (\<lambda>_. Ok ()) 0 (tb_heap k))" unfolding k by code_simp
  then obtain t where t: "sub_Build sink_env (Some \<circ> demo_topic) (\<lambda>_. Ok ()) 0 (tb_heap k) = Ok t" by (auto simp: is_ok_iff)
  have "length (sub_Nodes 0 (tb_heap k)) = 3" unfolding k by code_simp
  with stream_programs_build [OF demo_start demo_steps b s t] have l: "length (ks_nodes t) = 3" by (simp add: wired_def)
  from stream_programs_build [OF demo_start demo_steps b s t] l
  have e: "node_Run sink_env (ks_nodes t) d 0 sample_ctx (GBytes None) (GBytes None) =
    run_over (\<lambda>_ _ _ _. retR (GNil, GNil, False)) sink_env (ks_nodes t) 3 0 sample_ctx (GBytes None) (GBytes None)" if "3 \<le> d" for d
    using that by simp
  have "snd (tb_Build demo_env (dsl_tb demo_program) ()) = (k, ())" by (simp add: b)
  with t e [of 3] e [of 100] show ?thesis by auto
qed

end
