(* ===== verification/Stream_Facts.thy ===== *)
theory Stream_Facts
  imports Stream_Programs
begin

text \<open>
  Single facts about the stream API of \<open>src/streams/kstream.go\<close> and \<open>ktable_stream.go\<close>: repartitioning after the key has changed, streams
  that a merge leaves behind, and the filters of tables.
\<close>

section \<open>Streams left behind by a merge\<close>

lemma add_below_dead:
  assumes wf: "dsl_wf st" and k: "str_stp (stream_at k st) \<notin> set (dsl_live st)" and r: "add_below k p nb st = (a, st')"
  shows "dsl_live st' = dsl_live st" "s \<in> set (dsl_live st) \<Longrightarrow> sub_Nodes s (dsl_heap st') = sub_Nodes s (dsl_heap st)"
    "a = length (hp_nodes (dsl_heap st))" "dsl_streams st' = dsl_streams st"
proof -
  let ?d = "str_stp (stream_at k st)"
  obtain h where n: "new_node nb (dsl_heap st) = (a, h)" and st': "st' = on_builders (\<lambda>_. sub_AddNodeWithEdge ?d p a h) st"
    using r by (auto simp: add_below_def split: prod.splits)
  note N = new_node_heap [OF n]
  show "dsl_live st' = dsl_live st" "dsl_streams st' = dsl_streams st" "a = length (hp_nodes (dsl_heap st))" by (simp_all add: st' N(1))
  assume s: "s \<in> set (dsl_live st)"
  have "s \<noteq> ?d" using s k by blast
  moreover have "sub_Nodes u (upd_sub v f g) = sub_Nodes u g" if "u \<noteq> v" for u v f and g :: "('a, 'b) heap"
    using that by (simp add: sub_Nodes_def upd_sub_def)
  ultimately have "sub_Nodes s (sub_AddNodeWithEdge ?d p a h) = sub_Nodes s h"
    by (simp add: sub_AddNodeWithEdge_def sub_AddEdge_def sub_AddNode_def heap_simps)
  then show "sub_Nodes s (dsl_heap st') = sub_Nodes s (dsl_heap st)" by (simp add: st' N(4))
qed

text \<open>What \<open>Merge\<close> of two sub topologies leaves: the other one is gone, and all other streams are where they were.\<close>

lemma Merge_leaves:
  assumes wf: "dsl_wf st" and k: "live_stream k st" and o': "live_stream other st" and j: "live_stream j st" "j \<noteq> other"
    and ne: "str_stp (stream_at k st) \<noteq> str_stp (stream_at other st)" and r: "str_Merge k other st = (m, st1)"
  shows "dsl_live st1 = filter (\<lambda>u. u \<noteq> str_stp (stream_at other st)) (dsl_live st)" "same_place (stream_at j st) (stream_at j st1)"
proof -
  define st0 where "st0 = mark_co_partitioned other k st"
  note K = mark_co_partitioned_ok [OF wf, where other = other and k = k, folded st0_def]
  have l: "live_stream i st0" if "live_stream i st" for i by (rule live_grows [OF wf that K(2)])
  have ne0: "str_stp (stream_at k st0) \<noteq> str_stp (stream_at other st0)" unfolding K(3) by (rule ne)
  note M = str_merge_ok [OF K(1) l [OF k] l [OF o'] ne0]
  have jt: "join_topologies k other st0 = str_merge k other st0"
    using different_iff [OF K(1) live_streamD(2) [OF l [OF k]] live_streamD(2) [OF l [OF o']]] ne0 by (simp add: join_topologies_def)
  obtain q st2 where q: "add_below k (str_root (stream_at k (str_merge k other st0))) (fst (applyNodeOptions (BProc PMerger) [])) (str_merge k other st0) = (q, st2)"
    "newChildStream k q [] (on_builders (sub_AddNodeWithEdge (str_stp (stream_at k st2)) (str_root (stream_at other st2)) q) st2) = (m, st1)"
    using r by (auto simp: str_Merge_def Let_def st0_def [symmetric] jt split: prod.splits)
  have kl: "live_stream k (str_merge k other st0)" by (rule M(4)) (use l [OF k] ne0 in auto)
  note A = add_below_ok [OF M(2) live_parent [OF kl] q(1)]
  note N = new_stream_ok [OF q(2) [unfolded newChildStream_def]]
  have "dsl_live st1 = dsl_live (str_merge k other st0)" using N(1) A(8) by (simp add: dsl_live_def on_builders_def on_heap_def)
  then show "dsl_live st1 = filter (\<lambda>u. u \<noteq> str_stp (stream_at other st)) (dsl_live st)" unfolding M(1) K(3,4) .
  have "j < length (dsl_streams (str_merge k other st0))"
    using live_streamD(1) [OF l [OF j(1)]] by (simp add: str_merge_def Let_def setSubTopology_def upd_stream_def on_builders_def)
  then have "same_place (stream_at j (str_merge k other st0)) (stream_at j st1)"
    using growsD(6) [OF N(4), of j] A(5) by (simp add: stream_at_def)
  then show "same_place (stream_at j st) (stream_at j st1)" unfolding M(3) K(3) using j(2) by simp
qed

text \<open>
  A stream other than the one handed to \<open>Merge\<close>, in the sub topology that \<open>Merge\<close> takes over from it, is left behind: its object still names the
  emptied sub topology, which the topology no longer has. An operation on it goes through without an error, but the node it adds is in
  no sub topology of the topology, so that it is never built and never sees a record.
\<close>

theorem stale_stream_lost:
  assumes "dsl_wf st" "live_stream k st" "live_stream other st" "live_stream j st" "j \<noteq> other"
    and "str_stp (stream_at j st) = str_stp (stream_at other st)" "str_stp (stream_at k st) \<noteq> str_stp (stream_at other st)"
    and "str_Merge k other st = (m, st1)" "str_MapValue j f opts st1 = (c, st2)"
  shows "\<not> live_stream j st1 \<and> live_stream other st1 \<and> dsl_live st2 = dsl_live st1 \<and>
    (\<forall>s \<in> set (dsl_live st2). str_root (stream_at c st2) \<notin> set (sub_Nodes s (dsl_heap st2)))"
proof -
  note L = Merge_leaves [OF assms(1-5,7,8)]
  have "survives other k other st" using assms(3) by (simp add: survives_def)
  with Merge_ok [OF assms(1-3,8)] have wf1: "dsl_wf st1" and o1: "live_stream other st1" unfolding joins_to_def by blast+
  have dead: "str_stp (stream_at j st1) \<notin> set (dsl_live st1)" unfolding L(1) using L(2) assms(6) by (simp add: same_place_def)
  then have nl: "\<not> live_stream j st1" using live_streamD(2) by blast
  obtain a st3 where a: "add_below j (str_root (stream_at j st1)) (fst (applyNodeOptions (BProc (PValueMapper f)) opts)) st1 = (a, st3)"
    "newChildStream j a [] st3 = (c, st2)"
    using assms(9) by (auto simp: str_MapValue_def child_of_def split: prod.splits)
  note D = add_below_dead [OF wf1 dead a(1)]
  note C = new_stream_ok [OF a(2) [unfolded newChildStream_def]]
  have heap: "dsl_heap st2 = dsl_heap st3" "dsl_live st2 = dsl_live st3" using C(1) by (simp_all add: dsl_heap_def dsl_live_def)
  have "str_root (stream_at c st2) = a" unfolding C(2) by simp
  moreover have "a \<notin> set (sub_Nodes s (dsl_heap st2))" if "s \<in> set (dsl_live st2)" for s
    using dsl_wfD(7) [OF wf1, of s a] D(2) [of s] D(3) that unfolding heap D(1) by auto
  ultimately show ?thesis using nl o1 heap(2) D(1) by simp
qed

text \<open>Two streams, and a stream derived from the second.\<close>

definition demo_second :: "(krecord list, unit) dsl" where
  "demo_second = snd (sb_KStream ''other'' (Some ByteEncoder) (Some ByteEncoder) [] demo_source)"

definition demo_derived :: "(krecord list, unit) dsl" where
  "demo_derived = snd (str_Filter 1 (\<lambda>_ _ _. retR True) [] demo_second)"

lemma demo_derived_live: "dsl_wf demo_derived" "live_stream 0 demo_derived" "live_stream 1 demo_derived" "live_stream 2 demo_derived"
  and demo_derived_subs: "map (\<lambda>k. str_stp (stream_at k demo_derived)) [0, 1, 2] = [0, 1, 1]"
proof -
  have k: "sb_KStream ''other'' (Some ByteEncoder) (Some ByteEncoder) [] demo_source = (Ok 1, demo_second)"
    unfolding demo_second_def by (rule prod_eqI) (code_simp, simp)
  note K = KStream_ok [OF demo_live(4) k]
  have f: "child_of 1 (BProc (PFilter (\<lambda>_ _ _. retR True))) [] demo_second = (2, demo_derived)"
    unfolding demo_derived_def str_Filter_def by (rule prod_eqI) (code_simp, simp)
  have F: "child_stream 1 demo_second 2 demo_derived" by (rule child_of_ok [OF K(1) K(3) _ f]) simp_all
  note F = child_streamD [OF F]
  show "dsl_wf demo_derived" "live_stream 2 demo_derived" using F by simp_all
  show "live_stream 0 demo_derived" "live_stream 1 demo_derived"
    using live_grows [OF K(1) live_grows [OF demo_live(4,1) K(2)] F(2)] live_grows [OF K(1) K(3) F(2)] by simp_all
  show "map (\<lambda>k. str_stp (stream_at k demo_derived)) [0, 1, 2] = [0, 1, 1]" by code_simp
qed

lemma stale_stream_lost_witness:
  "\<not> live_stream 2 (snd (str_Merge 0 1 demo_derived)) \<and> live_stream 1 (snd (str_Merge 0 1 demo_derived))"
  using stale_stream_lost [OF demo_derived_live(1-4) _ _ _ prod.collapse [symmetric] prod.collapse [symmetric]] demo_derived_subs
  by simp

section \<open>Repartitioning\<close>

text \<open>What a stream derived by an operation that changes the key knows.\<close>

lemma child_of_stream:
  assumes "child_of k p opts st = (c, st1)"
  shows "c = length (dsl_streams st)" "length (dsl_streams st1) = Suc c" "dsl_reparts st1 = dsl_reparts st" "dsl_config st1 = dsl_config st"
    "str_repartitionOpts (stream_at c st1) = str_repartitionOpts (stream_at k st)"
    "str_rePartitioned (stream_at c st1) = str_rePartitioned (stream_at k st)" "str_source (stream_at c st1) = str_source (stream_at k st)"
  using assms by (auto simp: child_of_def add_below_def newChildStream_def new_stream_def new_node_def stream_at_def on_builders_def)

definition auto_created :: "('w, 'b) dsl \<Rightarrow> repart_opt" where
  "auto_created st = rePartitionedWithSourceOpts [ConsumeWithAutoTopicCreateEnabled
     [WithReplicaCount (cf_InternalTopicsDefaultReplicaCount (dsl_config st))]]"

lemma rekeyed_marked:
  assumes "str_repartitionOpts (stream_at k st) = None" "\<not> sto_disableRepartition (snd (applyNodeOptions (BProc p) opts))"
    and "rekeyed k p opts st = (c, st1)"
  shows "marked_opts c st1 = Some \<lparr>rpd_must = [], rpd_mayBe = [auto_created st1, as_source k st]\<rparr>"
    "str_rePartitioned (stream_at c st1) = str_rePartitioned (stream_at k st)" "str_source (stream_at c st1) = str_source (stream_at k st)"
proof -
  obtain st0 where st0: "child_of k (BProc p) opts st = (c, st0)" "st1 = maybeRepartitioned c [as_source k st] st0"
    using assms(2,3) by (auto simp: rekeyed_def split: prod.splits)
  note C = child_of_stream [OF st0(1)]
  have n: "str_repartitionOpts (stream_at c st0) = None" using C(5) assms(1) by simp
  have e: "st1 = (upd_stream c (\<lambda>x. x\<lparr>str_repartitionOpts := Some (length (dsl_reparts st0))\<rparr>) st0)\<lparr>dsl_reparts :=
      dsl_reparts st0 @ [\<lparr>rpd_must = [], rpd_mayBe = [auto_created st0, as_source k st]\<rparr>]\<rparr>"
    unfolding st0(2) maybeRepartitioned_def Let_def auto_created_def by (simp add: n n [unfolded stream_at_def] upd_stream_def stream_at_def)
  show "marked_opts c st1 = Some \<lparr>rpd_must = [], rpd_mayBe = [auto_created st1, as_source k st]\<rparr>"
  proof -
    have "str_repartitionOpts (stream_at c st1) = Some (length (dsl_reparts st0))" unfolding e using C(2) by (simp add: stream_at_upd)
    moreover have "dsl_reparts st1 = dsl_reparts st0 @ [\<lparr>rpd_must = [], rpd_mayBe = [auto_created st0, as_source k st]\<rparr>]" by (simp add: e)
    moreover have "auto_created st1 = auto_created st0" by (simp add: e auto_created_def upd_stream_def)
    ultimately show ?thesis by (simp add: marked_opts_def)
  qed
  show "str_rePartitioned (stream_at c st1) = str_rePartitioned (stream_at k st)" "str_source (stream_at c st1) = str_source (stream_at k st)"
    unfolding e using C(6,7) by (simp_all add: stream_at_upd)
qed

lemma repart_opt_simps [simp]:
  "rp_topicName (auto_created st r) = rp_topicName r" "rp_topicName (as_source k st r) = rp_topicName r"
  "rp_dueTo_node (auto_created st r) = rp_dueTo_node r" "rp_dueTo_node (as_source k st r) = rp_dueTo_node r"
  "rp_sourceOpts (auto_created st r) = rp_sourceOpts r @ [ConsumeWithAutoTopicCreateEnabled
     [WithReplicaCount (cf_InternalTopicsDefaultReplicaCount (dsl_config st))]]"
  "rp_sourceOpts (as_source k st r) = rp_sourceOpts r @ [ConsumeWithAutoTopicCreateEnabled [PartitionAs (str_source (stream_at k st))]]"
  "rp_topicName (RePartitionAs t r) = t" "rp_sourceOpts (RePartitionAs t r) = rp_sourceOpts r"
  "rp_topicName (rePartitionedDueTo a s r) = rp_topicName r" "rp_dueTo_node (rePartitionedDueTo a s r) = Some a"
  by (simp_all add: auto_created_def as_source_def rePartitionedWithSourceOpts_def RePartitionAs_def rePartitionedDueTo_def)

lemma new_sub_source:
  assumes "new_sub kind src st = (s, a, st1)"
  shows "nb_source (hp_nodes (dsl_heap st1) ! a) = Some src"
  using assms by (auto simp: new_sub_def new_node_def on_heap_def dsl_heap_def sub_AddSource_def nb_source_def kind_simps
      NewKSubTopologyBuilder_def addSubTopology_def Let_def sub_SetId_def upd_sub_simps(1) nth_append split: prod.splits)

text \<open>Repartitioning with a topic: the source of the stream it gives.\<close>

lemma Repartition_topic:
  assumes "rp_topicName (repartition_opts k topic opts st) \<noteq> []"
  shows "\<exists>d st2. str_Repartition k topic opts st = (Ok d, st2) \<and> marked_opts d st2 = None \<and> str_rePartitioned (stream_at d st2) \<and>
    source_of d st2 = Some (NewKSource (rp_topicName (repartition_opts k topic opts st))
      ([ConsumeWithTopicNameFormatterFunc (rp_topicNameFormatter (repartition_opts k topic opts st)), markAsInternal] @
        rp_sourceOpts (repartition_opts k topic opts st)))"
proof -
  let ?rp = "repartition_opts k topic opts st"
  let ?so = "[ConsumeWithTopicNameFormatterFunc (rp_topicNameFormatter ?rp), markAsInternal] @ rp_sourceOpts ?rp"
  let ?ko = "[ProduceWithTopicNameFormatter (rp_topicNameFormatter ?rp)] @ rp_sinkOpts ?rp"
  let ?src = "NewKSource (rp_topicName ?rp) ?so"
  obtain s a st1 where n: "new_sub KindStream ?src (str_To k (rp_topicName ?rp) ?ko st) = (s, a, st1)" by (metis prod_cases3)
  note S = new_sub_source [OF n]
  let ?x = "\<lparr>str_stp = s, str_source = a, str_root = a, str_rePartitioned = False, str_repartitionOpts = None,
             str_key = src_Key ?src, str_val = src_Value ?src\<rparr>"
  obtain d st2 where d: "new_stream ?x st1 = (d, st2)" by force
  note N = new_stream_ok [OF d]
  have "str_Through k (rp_topicName ?rp) [DslOptsSourceOptions ?so, DslOptsSinkOptions ?ko] st = (d, st2)"
    using n d by (simp add: str_Through_def DslOptsSourceOptions_def DslOptsSinkOptions_def)
  then have "str_Repartition k topic opts st = (Ok d, upd_stream d (\<lambda>x. x\<lparr>str_rePartitioned := True\<rparr>) st2)"
    using assms by (simp add: str_Repartition_def Let_def)
  then show ?thesis
    using N(2,3) S by (simp add: marked_opts_def source_of_def stream_at_upd dsl_heap_def N(1))
qed



section \<open>Filters of tables\<close>

text \<open>
  The table \<open>Filter\<close> gives has no filters, and neither have tables derived from it, whatever the table filtered had: the filters are copied
  into a nil slice. A join with a filtered table therefore looks the other side up without a filter, and finds values that the filter has
  kept from the records of the table.
\<close>

theorem table_filters_dropped:
  "tbl_filterFuncs (fst (tbl_Filter tbl flt opts st)) = [] \<and> tbl_store (fst (tbl_Filter tbl flt opts st)) = tbl_store tbl \<and>
    sj_OtherSideFilters (fst (table_joiners other (fst (tbl_Filter tbl flt opts st)) vm typ jo)) = [] \<and>
    sj_OtherSideFilters (snd (table_joiners (fst (tbl_Filter tbl flt opts st)) other vm typ jo)) = []"
  by (simp add: tbl_Filter_def tbl_child_def newChildTable_def go_copy_def Let_def table_joiners_def split_beta)

end
