(* ===== verification/Base64.thy ===== *)
theory Base64
  imports Prelude
begin

text \<open>
  \<open>base64.StdEncoding.EncodeToString\<close> of the Go standard library, which \<open>src/streams/tasks/assigner.go\<close> uses for the hash
  of a task: groups of three bytes become four characters, the last group padded with \<open>=\<close>. Two inputs with the same encoding are
  the same.
\<close>

definition b64_alphabet :: string where
  "b64_alphabet = ''ABCDEFGHIJKLMNOPQRSTUVWXYZabcdefghijklmnopqrstuvwxyz0123456789+/''"

definition b64_char :: "nat \<Rightarrow> char" where
  "b64_char i = b64_alphabet ! i"

text \<open>The four characters of three bytes, and their bytes given as numbers.\<close>

definition b64_group :: "nat \<Rightarrow> nat \<Rightarrow> nat \<Rightarrow> char list" where
  "b64_group a b c =
     [b64_char (a div 4), b64_char (a mod 4 * 16 + b div 16), b64_char (b mod 16 * 4 + c div 64), b64_char (c mod 64)]"

fun b64_encode :: "nat list \<Rightarrow> string" where
  "b64_encode [] = []"
| "b64_encode [a] = take 2 (b64_group a 0 0) @ ''==''"
| "b64_encode [a, b] = take 3 (b64_group a b 0) @ ''=''"
| "b64_encode (a # b # c # r) = b64_group a b c @ b64_encode r"

definition EncodeToString :: "string \<Rightarrow> string" where
  "EncodeToString s = b64_encode (map of_char s)"

section \<open>The encoding is injective\<close>

lemma b64_alphabet_facts: "distinct b64_alphabet" "length b64_alphabet = 64" "CHR ''='' \<notin> set b64_alphabet"
  by (code_simp, code_simp, code_simp)

lemma b64_char_inject: "i < 64 \<Longrightarrow> j < 64 \<Longrightarrow> b64_char i = b64_char j \<longleftrightarrow> i = j"
  by (simp add: b64_char_def b64_alphabet_facts nth_eq_iff_index_eq)

lemma b64_char_pad: "i < 64 \<Longrightarrow> b64_char i \<noteq> CHR ''=''"
  using b64_alphabet_facts(2,3) by (metis b64_char_def nth_mem)

lemma b64_pad_last [simp]: "b64_char (c mod 64) \<noteq> CHR ''=''" "CHR ''='' \<noteq> b64_char (c mod 64)"
  using b64_char_pad [of "c mod 64"] by auto

text \<open>The positions of a group lie in the alphabet.\<close>

lemma b64_positions:
  assumes "(a::nat) < 256" "b < 256" "c < 256"
  shows "a div 4 < 64" "a mod 4 * 16 + b div 16 < 64" "b mod 16 * 4 + c div 64 < 64" "c mod 64 < 64"
proof -
  show "a div 4 < 64" "c mod 64 < 64" using assms by simp_all
  have "a mod 4 < 4" "b div 16 < 16" "b mod 16 < 16" "c div 64 < 4" using assms by simp_all
  then show "a mod 4 * 16 + b div 16 < 64" "b mod 16 * 4 + c div 64 < 64" by linarith+
qed

lemma group_digits:
  fixes x :: nat
  assumes "y < n" "y' < n" "x * n + y = x' * n + y'"
  shows "x = x'" "y = y'"
proof -
  have "(x * n + y) div n = x" "(x' * n + y') div n = x'" "(x * n + y) mod n = y" "(x' * n + y') mod n = y'"
    using assms(1,2) by simp_all
  then show "x = x'" "y = y'" using assms(3) by simp_all
qed

lemma div_mod_inject: "(a::nat) div n = a' div n \<Longrightarrow> a mod n = a' mod n \<Longrightarrow> a = a'"
  by (metis div_mult_mod_eq)

lemma b64_group_inject:
  assumes "a < 256" "b < 256" "c < 256" "a' < 256" "b' < 256" "c' < 256" "b64_group a b c = b64_group a' b' c'"
  shows "a = a'" "b = b'" "c = c'"
proof -
  note p = b64_positions [OF assms(1-3)] and p' = b64_positions [OF assms(4-6)]
  from assms(7) p p' have eqs: "a div 4 = a' div 4" "a mod 4 * 16 + b div 16 = a' mod 4 * 16 + b' div 16"
      "b mod 16 * 4 + c div 64 = b' mod 16 * 4 + c' div 64" "c mod 64 = c' mod 64"
    by (simp_all add: b64_group_def b64_char_inject)
  have lt: "b div 16 < 16" "b' div 16 < 16" "c div 64 < 4" "c' div 64 < 4" using assms by simp_all
  note ab = group_digits [OF lt(1,2) eqs(2)] and bc = group_digits [OF lt(3,4) eqs(3)]
  show "a = a'" "b = b'" "c = c'"
    using eqs(1,4) ab bc by (auto intro: div_mod_inject)
qed

lemma b64_encode_shape:
  assumes "b64_encode xs = b64_encode ys" "\<forall>x\<in>set xs. x < 256" "\<forall>y\<in>set ys. y < 256"
  shows "xs = ys"
  using assms
proof (induction xs arbitrary: ys rule: b64_encode.induct)
  case 1
  then show ?case by (cases ys rule: b64_encode.cases) (simp_all add: b64_group_def)
next
  case (2 a)
  show ?case
  proof (cases ys rule: b64_encode.cases)
    case (2 a')
    with "2.prems" have "b64_group a 0 0 = b64_group a' 0 0" by (simp add: b64_group_def)
    with "2.prems" 2 b64_group_inject(1) [of a 0 0 a' 0 0] show ?thesis by simp
  next
    case (3 a' b')
    with "2.prems" b64_char_pad [OF b64_positions(3) [of a' b' 0]] show ?thesis by (simp add: b64_group_def)
  next
    case (4 a' b' c' r)
    with "2.prems" show ?thesis by (auto simp: b64_group_def)
  qed (use "2.prems" in \<open>simp_all add: b64_group_def\<close>)
next
  case (3 a b)
  show ?case
  proof (cases ys rule: b64_encode.cases)
    case (2 a')
    with "3.prems" b64_char_pad [OF b64_positions(3) [of a b 0]] show ?thesis by (simp add: b64_group_def)
  next
    case (3 a' b')
    with "3.prems" have "b64_group a b 0 = b64_group a' b' 0" by (simp add: b64_group_def)
    with "3.prems" 3 b64_group_inject(1,2) [of a b 0 a' b' 0] show ?thesis by simp
  next
    case (4 a' b' c' r)
    with "3.prems" show ?thesis by (auto simp: b64_group_def)
  qed (use "3.prems" in \<open>simp_all add: b64_group_def\<close>)
next
  case (4 a b c r)
  show ?case
  proof (cases ys rule: b64_encode.cases)
    case (2 a')
    with "4.prems" show ?thesis by (auto simp: b64_group_def)
  next
    case (3 a' b')
    with "4.prems" show ?thesis by (auto simp: b64_group_def)
  next
    case (4 a' b' c' r')
    with "4.prems" have g: "b64_group a b c = b64_group a' b' c'" and r: "b64_encode r = b64_encode r'"
      by (simp_all add: b64_group_def)
    from r "4.IH" [of r'] "4.prems" 4 have "r = r'" by simp
    with g "4.prems" 4 b64_group_inject [of a b c a' b' c'] show ?thesis by simp
  qed (use "4.prems" in \<open>simp_all add: b64_group_def\<close>)
qed

lemma EncodeToString_inject [simp]: "EncodeToString s = EncodeToString t \<longleftrightarrow> s = t"
proof
  assume "EncodeToString s = EncodeToString t"
  then have "b64_encode (map of_char s) = b64_encode (map of_char t)" by (simp add: EncodeToString_def)
  moreover have "\<And>u :: string. \<forall>x\<in>set (map of_char u). (x :: nat) < 256" by auto
  ultimately have "map of_char s = (map of_char t :: nat list)" using b64_encode_shape by blast
  then show "s = t" by (simp add: inj_map_eq_map inj_of_char)
qed simp

end
