(* ===== verification/Assigner.thy ===== *)
theory Assigner
  imports Topology_Builder Base64
begin

text \<open>
  \<open>src/streams/tasks/assigner.go\<close> and the task ids of \<open>ktask.go\<close>: the tasks of an application are generated from its sub
  topologies and the partitions of their source topics, and a consumer finds the tasks of its assignment. Every instance of the
  application generates the list on its own, so what it depends on matters. The order in which Go ranges over a map is a parameter.
\<close>

section \<open>Task ids and mappings\<close>

record task_id =
  ti_id :: int
  ti_hash :: string
  ti_prefix :: string
  ti_partition :: int32
  ti_topics :: string

definition tid_UniqueID :: "task_id \<Rightarrow> string" where
  "tid_UniqueID t = ti_hash t"

definition tid_String :: "task_id \<Rightarrow> string" where
  "tid_String t = ti_prefix t @ ''#'' @ show_int (ti_id t)"

definition tid_Topics :: "task_id \<Rightarrow> string" where
  "tid_Topics t = ti_topics t"

definition tid_Partition :: "task_id \<Rightarrow> int32" where
  "tid_Partition t = ti_partition t"

text \<open>The id is nil until the generation is numbered.\<close>

record task_mapping =
  tm_hash :: string
  tm_id :: "task_id option"
  tm_topology :: nat
  tm_TPs :: "topic_partition list"

record task_generation =
  tg_mappings :: "task_mapping list"
  tg_mappingsMap :: "string \<rightharpoonup> task_mapping"

definition tm_TaskId :: "task_mapping \<Rightarrow> task_id option" where
  "tm_TaskId m = tm_id m"

definition tm_SubTopologyBuilder :: "task_mapping \<Rightarrow> nat" where
  "tm_SubTopologyBuilder m = tm_topology m"

text \<open>\<open>fmt.Sprint\<close> of a slice of topic partitions.\<close>

fun join_with :: "string \<Rightarrow> string list \<Rightarrow> string" where
  "join_with sep [] = []"
| "join_with sep [x] = x"
| "join_with sep (x # xs) = x @ sep @ join_with sep xs"

definition sprint_tps :: "topic_partition list \<Rightarrow> string" where
  "sprint_tps tps = ''['' @ join_with '' '' (map tp_String tps) @ '']''"

section \<open>Generation\<close>

text \<open>\<open>subTopologies\<close> and \<open>topicsGroupedBySubTopology\<close>, maps keyed by the id, as association lists.\<close>

definition subTopologies :: "('w, 'b) topology_builder \<Rightarrow> (sub_id \<times> nat) list" where
  "subTopologies k = fold (\<lambda>s. AList.update (sub_Id s (tb_heap k)) s) (kt_StreamTopologies k) []"

definition sub_source_topics :: "nat \<Rightarrow> ('w, 'b) heap \<Rightarrow> string list" where
  "sub_source_topics s h = List.map_filter (\<lambda>a. map_option src_topic (nb_source (hp_nodes h ! a))) (sub_Sources s h)"

definition topicsGroupedBySubTopology :: "('w, 'b) topology_builder \<Rightarrow> (sub_id \<times> string list) list" where
  "topicsGroupedBySubTopology k = map (\<lambda>(i, s). (i, sub_source_topics s (tb_heap k))) (subTopologies k)"

record task_group =
  gr_subTopologyId :: sub_id
  gr_partition :: int32
  gr_topics :: "string list"

definition group_key :: "sub_id \<Rightarrow> int32 \<Rightarrow> string" where
  "group_key i p = sid_name i @ ''-'' @ show_int (sint p)"

definition add_to_group :: "topic_partition \<Rightarrow> sub_id \<times> string list \<Rightarrow> (string \<times> task_group) list \<Rightarrow> (string \<times> task_group) list" where
  "add_to_group tp sub m =
     (let (i, topics) = sub; key = group_key i (tp_Partition tp)
      in if tp_Topic tp \<in> set topics then
           (case map_of m key of
              None \<Rightarrow> AList.update key \<lparr>gr_subTopologyId = i, gr_partition = tp_Partition tp, gr_topics = [tp_Topic tp]\<rparr> m
            | Some g \<Rightarrow> AList.update key (g\<lparr>gr_topics := gr_topics g @ [tp_Topic tp]\<rparr>) m)
         else m)"

text \<open>\<open>ord n\<close> is the order in which the sub topologies are visited for the \<open>n\<close>-th topic partition.\<close>

definition group_tps :: "(nat \<Rightarrow> (sub_id \<times> string list) list \<Rightarrow> (sub_id \<times> string list) list) \<Rightarrow> topic_partition list
    \<Rightarrow> (sub_id \<times> string list) list \<Rightarrow> (string \<times> task_group) list" where
  "group_tps ord tps subs = fold (\<lambda>(n, tp). fold (add_to_group tp) (ord n subs)) (enumerate 0 tps) []"

definition task_hash :: "string list \<Rightarrow> int32 \<Rightarrow> string" where
  "task_hash topics p = EncodeToString (concat topics @ ''#'' @ show_int (sint p))"

definition new_mapping :: "('w, 'b) topology_builder \<Rightarrow> task_group \<Rightarrow> task_mapping res" where
  "new_mapping k g =
     (let topics = sort (gr_topics g)
      in bind_res (kt_SubTopology (gr_subTopologyId g) k) (\<lambda>s.
           Ok \<lparr>tm_hash = task_hash topics (gr_partition g), tm_id = None, tm_topology = s,
               tm_TPs = map (\<lambda>tp. \<lparr>tp_Topic = tp, tp_Partition = gr_partition g\<rparr>) topics\<rparr>))"

definition set_task_id :: "nat \<times> task_mapping \<Rightarrow> task_mapping res" where
  "set_task_id im = (case im of (i, mp) \<Rightarrow> (case tm_TPs mp of
      [] \<Rightarrow> Panic ''index out of range''
    | tp # _ \<Rightarrow> Ok (mp\<lparr>tm_id := Some \<lparr>ti_id = int i, ti_hash = tm_hash mp, ti_prefix = ''Task'', ti_partition = tp_Partition tp,
                                      ti_topics = sprint_tps (tm_TPs mp)\<rparr>\<rparr>)))"

text \<open>\<open>ordg\<close> is the order in which the groups are visited; \<open>sort.Slice\<close> leaves the order of equal hashes open, as \<open>ordg\<close> does.\<close>

definition Generate :: "(nat \<Rightarrow> (sub_id \<times> string list) list \<Rightarrow> (sub_id \<times> string list) list)
    \<Rightarrow> ((string \<times> task_group) list \<Rightarrow> (string \<times> task_group) list)
    \<Rightarrow> topic_partition list \<Rightarrow> ('w, 'b) topology_builder \<Rightarrow> task_generation res" where
  "Generate ord ordg tps k =
     bind_res (mapE (\<lambda>(_, g). new_mapping k g) (ordg (group_tps ord tps (topicsGroupedBySubTopology k)))) (\<lambda>ms.
       bind_res (mapE set_task_id (enumerate 0 (sort_key tm_hash ms))) (\<lambda>ms.
         Ok \<lparr>tg_mappings = ms, tg_mappingsMap = fold (\<lambda>m f. f(tid_UniqueID (the (tm_id m)) \<mapsto> m)) ms Map.empty\<rparr>))"

section \<open>Assignment\<close>

definition FindMappingByTP :: "topic_partition \<Rightarrow> task_generation \<Rightarrow> task_mapping option" where
  "FindMappingByTP part g =
     find (\<lambda>mp. \<exists>tp\<in>set (tm_TPs mp). tp_String tp = tp_String part) (tg_mappings g)"

text \<open>The state of the loops: the mappings so far and \<open>added\<close>, whose keys are the task ids (pointers, one for each mapping).\<close>

definition assign_tp :: "topic_partition \<Rightarrow> task_mapping \<Rightarrow> topic_partition
    \<Rightarrow> task_mapping list \<times> task_id option set \<Rightarrow> task_mapping list \<times> task_id option set" where
  "assign_tp part mp tp st =
     (if tm_id mp \<notin> snd st \<and> tp_String tp = tp_String part then (fst st @ [mp], insert (tm_id mp) (snd st)) else st)"

definition assign_loops :: "topic_partition list \<Rightarrow> task_mapping list \<Rightarrow> task_mapping list \<times> task_id option set" where
  "assign_loops assignment ms =
     fold (\<lambda>part. fold (\<lambda>mp. fold (assign_tp part mp) (tm_TPs mp)) ms) assignment ([], {})"

definition Assign :: "topic_partition list \<Rightarrow> task_generation \<Rightarrow> task_mapping list res" where
  "Assign assignment g =
     (let mappings = fst (assign_loops assignment (tg_mappings g)); assignmentMap = set (map tp_String assignment)
      in if \<exists>mp\<in>set mappings. \<exists>tp\<in>set (tm_TPs mp). tp_String tp \<notin> assignmentMap
         then Panic (''invalid assignment: consumer assignment '' @ sprint_tps assignment @ '' doesn't match the Generation'')
         else Ok mappings)"

text \<open>\<open>TaskAssignment.String\<close> also sorts the slice it prints.\<close>

definition assignment_String :: "task_mapping list \<Rightarrow> string \<times> task_mapping list" where
  "assignment_String a =
     (let a' = sort_key (\<lambda>m. ti_id (the (tm_id m))) a
      in (concat (map (\<lambda>mp. tid_String (the (tm_id mp)) @ '' - '' @ sprint_tps (tm_TPs mp) @ '' '' @ [CHR 0x0A]) a'), a'))"

end
