(* ===== verification/Task_Assignment.thy ===== *)
theory Task_Assignment
  imports Assigner Dsl_Options "HOL-Library.Multiset"
begin

text \<open>
  What the task generation and the assignment of a consumer promise: the tasks do not depend on the order in which maps are
  ranged over or topics are described unless two hashes collide, they cover every topic partition once for each sub topology, and
  consumers with disjoint assignments never run the same task.
\<close>

section \<open>Groups\<close>

text \<open>A map may be ranged over in any order.\<close>

definition reorders :: "('x list \<Rightarrow> 'x list) \<Rightarrow> bool" where
  "reorders f \<longleftrightarrow> (\<forall>xs. mset (f xs) = mset xs)"

lemma reordersD: "reorders f \<Longrightarrow> mset (f xs) = mset xs"
  by (simp add: reorders_def)

lemma reorders_set: "reorders f \<Longrightarrow> set (f xs) = set xs"
  by (metis reordersD set_mset_mset)

lemma reorders_distinct: "reorders f \<Longrightarrow> distinct (map h (f xs)) = distinct (map h xs)"
  by (rule mset_eq_imp_distinct_iff) (simp add: mset_map reordersD)

text \<open>The topics of partition \<open>p\<close> that a sub topology with the given source topics consumes.\<close>

definition group_topics :: "string list \<Rightarrow> int32 \<Rightarrow> topic_partition list \<Rightarrow> string list" where
  "group_topics topics p tps = map tp_Topic (filter (\<lambda>tp. tp_Partition tp = p \<and> tp_Topic tp \<in> set topics) tps)"

definition group_for :: "sub_id \<Rightarrow> string list \<Rightarrow> int32 \<Rightarrow> topic_partition list \<Rightarrow> task_group option" where
  "group_for i topics p tps = (if group_topics topics p tps = [] then None
     else Some \<lparr>gr_subTopologyId = i, gr_partition = p, gr_topics = group_topics topics p tps\<rparr>)"

definition grouped :: "(sub_id \<times> string list) list \<Rightarrow> topic_partition list \<Rightarrow> (string \<times> task_group) list \<Rightarrow> bool" where
  "grouped subs tps m \<longleftrightarrow> distinct (map fst m) \<and>
     (\<forall>(i, topics)\<in>set subs. \<forall>p. 0 \<le> sint p \<longrightarrow> map_of m (group_key i p) = group_for i topics p tps) \<and>
     (\<forall>key\<in>fst ` set m. \<exists>(i, topics)\<in>set subs. \<exists>p. 0 \<le> sint p \<and> key = group_key i p)"

lemma group_key_eq:
  assumes "0 \<le> sint p" "0 \<le> sint q"
  shows "group_key i p = group_key j q \<longleftrightarrow> sid_name i = sid_name j \<and> p = q"
  using tp_String_eq [of "\<lparr>tp_Topic = sid_name i, tp_Partition = p\<rparr>" "\<lparr>tp_Topic = sid_name j, tp_Partition = q\<rparr>"] assms
  by (simp add: tp_String_def group_key_def)

definition extend_group :: "sub_id \<Rightarrow> topic_partition \<Rightarrow> task_group option \<Rightarrow> task_group option" where
  "extend_group i tp old = Some (case old of
      None \<Rightarrow> \<lparr>gr_subTopologyId = i, gr_partition = tp_Partition tp, gr_topics = [tp_Topic tp]\<rparr>
    | Some g \<Rightarrow> g\<lparr>gr_topics := gr_topics g @ [tp_Topic tp]\<rparr>)"

lemma map_of_add_to_group:
  "map_of (add_to_group tp (i, topics) m) =
     (if tp_Topic tp \<in> set topics
      then (map_of m)(group_key i (tp_Partition tp) := extend_group i tp (map_of m (group_key i (tp_Partition tp)))) else map_of m)"
  by (auto simp: add_to_group_def Let_def extend_group_def update_conv fun_eq_iff split: option.splits)

lemma keys_add_to_group:
  "fst ` set (add_to_group tp (i, topics) m) =
     (if tp_Topic tp \<in> set topics then insert (group_key i (tp_Partition tp)) (fst ` set m) else fst ` set m)"
  by (auto simp: add_to_group_def Let_def dom_update split: option.splits)

lemma distinct_add_to_group: "distinct (map fst m) \<Longrightarrow> distinct (map fst (add_to_group tp sub m))"
  by (auto simp: add_to_group_def Let_def distinct_update split: option.splits prod.splits)

lemma visits_other:
  assumes "0 \<le> sint q" "0 \<le> sint (tp_Partition tp)" "sid_name j \<notin> (\<lambda>x. sid_name (fst x)) ` set subs"
  shows "map_of (fold (add_to_group tp) subs m) (group_key j q) = map_of m (group_key j q)"
  using assms(3)
proof (induction subs arbitrary: m)
  case (Cons sub subs)
  obtain i topics where "sub = (i, topics)" by fastforce
  with Cons show ?case by (auto simp: map_of_add_to_group group_key_eq assms)
qed simp

lemma visits_one:
  assumes "0 \<le> sint q" "0 \<le> sint (tp_Partition tp)" "distinct (map (\<lambda>x. sid_name (fst x)) subs)" "(j, topics) \<in> set subs"
  shows "map_of (fold (add_to_group tp) subs m) (group_key j q) =
    (if q = tp_Partition tp \<and> tp_Topic tp \<in> set topics then extend_group j tp (map_of m (group_key j q)) else map_of m (group_key j q))"
  using assms(3,4)
proof (induction subs arbitrary: m)
  case (Cons sub subs)
  obtain i ts where sub: "sub = (i, ts)" by fastforce
  show ?case
  proof (cases "sub = (j, topics)")
    case True
    then have "sid_name j \<notin> (\<lambda>x. sid_name (fst x)) ` set subs" using Cons.prems(1) by auto
    then show ?thesis using True
      by (simp add: visits_other [OF assms(1,2)] map_of_add_to_group group_key_eq [OF assms(1,2)])
  next
    case False
    with Cons.prems have m: "(j, topics) \<in> set subs" and n: "sid_name i \<noteq> sid_name j" using sub by force+
    have "map_of (add_to_group tp sub m) (group_key j q) = map_of m (group_key j q)"
      using n by (simp add: sub map_of_add_to_group group_key_eq [OF assms(1,2)])
    note keep = this
    from Cons.prems(1) have "distinct (map (\<lambda>x. sid_name (fst x)) subs)" by simp
    note ih = Cons.IH [OF this m, of "add_to_group tp sub m"]
    show ?thesis unfolding fold_Cons comp_apply ih keep by (rule refl)
  qed
qed simp

lemma visits_keys:
  "fst ` set (fold (add_to_group tp) subs m) \<subseteq> fst ` set m \<union> (\<lambda>(i, topics). group_key i (tp_Partition tp)) ` set subs"
proof (induction subs arbitrary: m)
  case (Cons sub subs)
  obtain i ts where "sub = (i, ts)" by fastforce
  with Cons [of "add_to_group tp sub m"] show ?case by (auto simp: keys_add_to_group split: if_splits)
qed simp

lemma visits_distinct: "distinct (map fst m) \<Longrightarrow> distinct (map fst (fold (add_to_group tp) subs m))"
  by (induction subs arbitrary: m) (simp_all add: distinct_add_to_group)

lemma group_topics_snoc:
  "group_topics topics p (tps @ [tp]) =
     group_topics topics p tps @ (if tp_Partition tp = p \<and> tp_Topic tp \<in> set topics then [tp_Topic tp] else [])"
  by (simp add: group_topics_def)

lemma extend_group_for:
  "extend_group j tp (group_for j topics (tp_Partition tp) tps) = group_for j topics (tp_Partition tp) (tps @ [tp])"
  if "tp_Topic tp \<in> set topics"
  using that by (simp add: extend_group_def group_for_def group_topics_snoc)

lemma group_for_other:
  "group_for j topics q (tps @ [tp]) = group_for j topics q tps" if "\<not> (q = tp_Partition tp \<and> tp_Topic tp \<in> set topics)"
  using that by (auto simp: group_for_def group_topics_snoc)

lemma grouped_step:
  assumes g: "grouped subs tps m" and p: "0 \<le> sint (tp_Partition tp)" and d: "distinct (map (\<lambda>x. sid_name (fst x)) subs)"
    and o': "mset subs' = mset subs"
  shows "grouped subs (tps @ [tp]) (fold (add_to_group tp) subs' m)"
proof -
  have s: "set subs' = set subs" using o' by (metis set_mset_mset)
  have d': "distinct (map (\<lambda>x. sid_name (fst x)) subs')"
    using d mset_eq_imp_distinct_iff [of "map (\<lambda>x. sid_name (fst x)) subs'" "map (\<lambda>x. sid_name (fst x)) subs"] o' by (simp add: mset_map)
  have "map_of (fold (add_to_group tp) subs' m) (group_key i q) = group_for i topics q (tps @ [tp])"
    if "(i, topics) \<in> set subs" "0 \<le> sint q" for i topics q
  proof -
    have m: "map_of m (group_key i q) = group_for i topics q tps" using g that unfolding grouped_def by blast
    note v = visits_one [OF that(2) p d', of i topics m, unfolded s m, OF that(1)]
    show ?thesis
    proof (cases "q = tp_Partition tp \<and> tp_Topic tp \<in> set topics")
      case True
      with v show ?thesis using extend_group_for [of tp topics i tps] by simp
    next
      case False
      with v show ?thesis using group_for_other [OF False, of i tps] by simp
    qed
  qed
  moreover have "\<exists>(i, topics)\<in>set subs. \<exists>q. 0 \<le> sint q \<and> key = group_key i q"
    if "key \<in> fst ` set (fold (add_to_group tp) subs' m)" for key
  proof -
    have "key \<in> fst ` set m \<union> (\<lambda>(i, topics). group_key i (tp_Partition tp)) ` set subs"
      using subsetD [OF visits_keys that] by (simp add: s)
    then consider "key \<in> fst ` set m" | "key \<in> (\<lambda>(i, topics). group_key i (tp_Partition tp)) ` set subs" by blast
    then show ?thesis
    proof cases
      case 1
      then show ?thesis using g unfolding grouped_def by blast
    next
      case 2
      then show ?thesis using p by fastforce
    qed
  qed
  moreover have "distinct (map fst (fold (add_to_group tp) subs' m))"
    using g visits_distinct by (simp add: grouped_def)
  ultimately show ?thesis unfolding grouped_def by blast
qed

lemma grouped_tps:
  assumes "\<And>n. reorders (ord n)" "distinct (map (\<lambda>x. sid_name (fst x)) subs)" "\<forall>tp\<in>set tps. 0 \<le> sint (tp_Partition tp)"
  shows "grouped subs tps (group_tps ord tps subs)"
  using assms(3)
proof (induction tps rule: rev_induct)
  case Nil
  show ?case by (simp add: grouped_def group_tps_def group_for_def group_topics_def)
next
  case (snoc tp tps)
  have "group_tps ord (tps @ [tp]) subs = fold (add_to_group tp) (ord (length tps) subs) (group_tps ord tps subs)"
    by (simp add: group_tps_def enumerate_append_eq)
  moreover have "grouped subs tps (group_tps ord tps subs)" "0 \<le> sint (tp_Partition tp)"
    using snoc by simp_all
  ultimately show ?case using grouped_step assms(1,2) reordersD by metis
qed

section \<open>The mappings of a generation\<close>

text \<open>The builder numbers its sub topologies one after the other, so no two have the same name.\<close>

definition distinct_subs :: "('w, 'b) topology_builder \<Rightarrow> bool" where
  "distinct_subs k \<longleftrightarrow> distinct (map (\<lambda>s. sid_name (sub_Id s (tb_heap k))) (tb_subTopologies k))"

lemma update_new: "x \<notin> fst ` set al \<Longrightarrow> AList.update x v al = al @ [(x, v)]"
  by (induction al) auto

lemma fold_update_new:
  assumes "distinct (map f xs)" "fst ` set al \<inter> f ` set xs = {}"
  shows "fold (\<lambda>s. AList.update (f s) s) xs al = al @ map (\<lambda>s. (f s, s)) xs"
  using assms by (induction xs arbitrary: al) (auto simp: update_new)

lemma find_by_key:
  assumes "inj_on f (set xs)" "x \<in> set xs"
  shows "find (\<lambda>y. f y = f x) xs = Some x"
  using assms by (induction xs) (auto simp: inj_on_def)

lemma distinct_of_map: "distinct (map f ys) \<Longrightarrow> distinct ys"
  by (induction ys) auto

lemma distinct_subs_facts:
  assumes "distinct_subs k"
  shows "distinct (map (\<lambda>s. sid_name (sub_Id s (tb_heap k))) (kt_StreamTopologies k))"
    "distinct (map (\<lambda>s. sub_Id s (tb_heap k)) (kt_StreamTopologies k))"
    "s \<in> set (kt_StreamTopologies k) \<Longrightarrow> kt_SubTopology (sub_Id s (tb_heap k)) k = Ok s"
proof -
  show n: "distinct (map (\<lambda>s. sid_name (sub_Id s (tb_heap k))) (kt_StreamTopologies k))"
    using assms by (simp add: distinct_subs_def kt_StreamTopologies_def distinct_map_filter)
  then have "distinct (map sid_name (map (\<lambda>s. sub_Id s (tb_heap k)) (kt_StreamTopologies k)))" by (simp add: comp_def)
  then show "distinct (map (\<lambda>s. sub_Id s (tb_heap k)) (kt_StreamTopologies k))" by (rule distinct_of_map)
  have "distinct (map (\<lambda>s. sub_Id s (tb_heap k)) (tb_subTopologies k))"
    using assms distinct_of_map [of sid_name "map (\<lambda>s. sub_Id s (tb_heap k)) (tb_subTopologies k)"]
    by (simp add: distinct_subs_def comp_def)
  then have i: "inj_on (\<lambda>s. sub_Id s (tb_heap k)) (set (tb_subTopologies k))" by (simp add: distinct_map)
  show "kt_SubTopology (sub_Id s (tb_heap k)) k = Ok s" if "s \<in> set (kt_StreamTopologies k)"
    using find_by_key [OF i, of s] that by (simp add: kt_SubTopology_def kt_StreamTopologies_def)
qed

lemma topicsGrouped_eq:
  assumes "distinct_subs k"
  shows "topicsGroupedBySubTopology k = map (\<lambda>s. (sub_Id s (tb_heap k), sub_source_topics s (tb_heap k))) (kt_StreamTopologies k)"
  using fold_update_new [OF distinct_subs_facts(2) [OF assms], of "[]"]
  by (simp add: topicsGroupedBySubTopology_def subTopologies_def)

text \<open>The mapping of sub topology \<open>s\<close> and partition \<open>p\<close>, before it is numbered.\<close>

definition mapping_of :: "('w, 'b) topology_builder \<Rightarrow> topic_partition list \<Rightarrow> nat \<Rightarrow> int32 \<Rightarrow> task_mapping" where
  "mapping_of k tps s p =
     (let ts = sort (group_topics (sub_source_topics s (tb_heap k)) p tps)
      in \<lparr>tm_hash = task_hash ts p, tm_id = None, tm_topology = s, tm_TPs = map (\<lambda>t. \<lparr>tp_Topic = t, tp_Partition = p\<rparr>) ts\<rparr>)"

definition consumes :: "('w, 'b) topology_builder \<Rightarrow> topic_partition list \<Rightarrow> (nat \<times> int32) set" where
  "consumes k tps = {(s, p). s \<in> set (kt_StreamTopologies k) \<and> group_topics (sub_source_topics s (tb_heap k)) p tps \<noteq> []}"

lemma mapE_map: "(\<And>x. x \<in> set xs \<Longrightarrow> f x = Ok (g x)) \<Longrightarrow> mapE f xs = Ok (map g xs)"
  by (induction xs) simp_all

lemma sort_Nil [simp]: "sort xs = [] \<longleftrightarrow> xs = []"
  by (metis length_0_conv length_sort)

lemma mapping_of_inject:
  assumes "(s, p) \<in> consumes k tps" "(s', p') \<in> consumes k tps'" "mapping_of k tps s p = mapping_of k tps' s' p'"
  shows "s = s' \<and> p = p'"
proof -
  let ?ts = "sort (group_topics (sub_source_topics s (tb_heap k)) p tps)"
  let ?ts' = "sort (group_topics (sub_source_topics s' (tb_heap k)) p' tps')"
  have "?ts \<noteq> []" "?ts' \<noteq> []" using assms(1,2) unfolding consumes_def by auto
  moreover have "map (\<lambda>t. \<lparr>tp_Topic = t, tp_Partition = p\<rparr>) ?ts = map (\<lambda>t. \<lparr>tp_Topic = t, tp_Partition = p'\<rparr>) ?ts'"
    using arg_cong [OF assms(3), of tm_TPs] by (simp add: mapping_of_def Let_def)
  moreover have "s = s'" using arg_cong [OF assms(3), of tm_topology] by (simp add: mapping_of_def Let_def)
  ultimately show ?thesis by (cases ?ts; cases ?ts') simp_all
qed

lemma consumes_partition: "(s, p) \<in> consumes k tps \<Longrightarrow> \<exists>tp\<in>set tps. tp_Partition tp = p"
  by (auto simp: consumes_def group_topics_def filter_empty_conv)

text \<open>Every group becomes the mapping of a sub topology and a partition.\<close>

lemma group_mapping:
  assumes d: "distinct_subs k" and g: "grouped (topicsGroupedBySubTopology k) tps G" and x: "(key, g) \<in> set G"
  obtains s p where "(s, p) \<in> consumes k tps" "key = group_key (sub_Id s (tb_heap k)) p"
    "new_mapping k g = Ok (mapping_of k tps s p)"
proof -
  have "key \<in> fst ` set G" using x by force
  with g obtain i topics p where i: "(i, topics) \<in> set (topicsGroupedBySubTopology k)" and p: "0 \<le> sint p"
      and key: "key = group_key i p"
    unfolding grouped_def by blast
  have "map_of G key = Some g" using g x by (simp add: grouped_def)
  with g i p key have gf: "group_for i topics p tps = Some g" unfolding grouped_def by fastforce
  from i obtain s where s: "s \<in> set (kt_StreamTopologies k)" "i = sub_Id s (tb_heap k)" "topics = sub_source_topics s (tb_heap k)"
    unfolding topicsGrouped_eq [OF d] by auto
  show thesis
  proof (rule that)
    show "(s, p) \<in> consumes k tps" using gf s by (auto simp: consumes_def group_for_def split: if_splits)
    show "key = group_key (sub_Id s (tb_heap k)) p" using key s by simp
    show "new_mapping k g = Ok (mapping_of k tps s p)"
      using gf s distinct_subs_facts(3) [OF d s(1)]
      by (auto simp: group_for_def new_mapping_def mapping_of_def Let_def split: if_splits)
  qed
qed

lemma generated_mappings:
  assumes d: "distinct_subs k" and p: "\<forall>tp\<in>set tps. 0 \<le> sint (tp_Partition tp)"
    and o': "\<And>n. reorders (ord n)" "reorders ordg"
  obtains ms where "mapE (\<lambda>(_, g). new_mapping k g) (ordg (group_tps ord tps (topicsGroupedBySubTopology k))) = Ok ms"
    "distinct ms" "set ms = (\<lambda>(s, p). mapping_of k tps s p) ` consumes k tps"
proof -
  let ?G = "group_tps ord tps (topicsGroupedBySubTopology k)"
  have "distinct (map (\<lambda>x. sid_name (fst x)) (topicsGroupedBySubTopology k))"
    using distinct_subs_facts(1) [OF d] by (simp add: topicsGrouped_eq [OF d] comp_def)
  then have g: "grouped (topicsGroupedBySubTopology k) tps ?G" by (rule grouped_tps [where ord = ord, OF o'(1) _ p])
  have "\<forall>x\<in>set ?G. \<exists>sp. sp \<in> consumes k tps \<and> fst x = group_key (sub_Id (fst sp) (tb_heap k)) (snd sp)
      \<and> new_mapping k (snd x) = Ok (mapping_of k tps (fst sp) (snd sp))"
  proof
    fix x assume "x \<in> set ?G"
    then have "(fst x, snd x) \<in> set ?G" by simp
    from group_mapping [OF d g this] show "\<exists>sp. sp \<in> consumes k tps \<and> fst x = group_key (sub_Id (fst sp) (tb_heap k)) (snd sp)
      \<and> new_mapping k (snd x) = Ok (mapping_of k tps (fst sp) (snd sp))" by (metis fst_conv snd_conv)
  qed
  then obtain sp where sp: "\<And>x. x \<in> set ?G \<Longrightarrow> sp x \<in> consumes k tps"
      "\<And>x. x \<in> set ?G \<Longrightarrow> fst x = group_key (sub_Id (fst (sp x)) (tb_heap k)) (snd (sp x))"
      "\<And>x. x \<in> set ?G \<Longrightarrow> new_mapping k (snd x) = Ok (mapping_of k tps (fst (sp x)) (snd (sp x)))"
    by (metis (no_types))
  let ?m = "\<lambda>x. mapping_of k tps (fst (sp x)) (snd (sp x))"
  have inj: "inj_on ?m (set ?G)"
  proof (rule inj_onI)
    fix x y assume xy: "x \<in> set ?G" "y \<in> set ?G" "?m x = ?m y"
    have "sp x = sp y"
      using mapping_of_inject [of "fst (sp x)" "snd (sp x)" k tps "fst (sp y)" "snd (sp y)" tps] sp(1) xy by (simp add: prod_eq_iff)
    then have "fst x = fst y" using sp(2) xy by simp
    moreover have "distinct (map fst ?G)" using g by (simp add: grouped_def)
    ultimately show "x = y" using xy by (simp add: distinct_map inj_on_def)
  qed
  have "sp ` set ?G = consumes k tps"
  proof (intro equalityI subsetI)
    fix q assume q: "q \<in> consumes k tps"
    obtain s r where r: "q = (s, r)" by fastforce
    let ?i = "sub_Id s (tb_heap k)" and ?t = "sub_source_topics s (tb_heap k)"
    have s: "(?i, ?t) \<in> set (topicsGroupedBySubTopology k)" "group_topics ?t r tps \<noteq> []"
      using q by (auto simp: consumes_def topicsGrouped_eq [OF d] r)
    have nn: "0 \<le> sint r" using consumes_partition p q r by blast
    have "map_of ?G (group_key ?i r) = group_for ?i ?t r tps" using g s(1) nn unfolding grouped_def by blast
    then obtain h where h: "(group_key ?i r, h) \<in> set ?G" using s(2) by (auto simp: group_for_def dest: map_of_SomeD)
    let ?q = "sp (group_key ?i r, h)"
    have c: "?q \<in> consumes k tps" "group_key ?i r = group_key (sub_Id (fst ?q) (tb_heap k)) (snd ?q)"
      using sp(1,2) [OF h] by simp_all
    have nq: "0 \<le> sint (snd ?q)" using consumes_partition p c(1) by (metis prod.collapse)
    have "sid_name ?i = sid_name (sub_Id (fst ?q) (tb_heap k))" "snd ?q = r"
      using c(2) group_key_eq [OF nn nq] by auto
    moreover have "fst ?q \<in> set (kt_StreamTopologies k)" "s \<in> set (kt_StreamTopologies k)"
      using c(1) q r by (auto simp: consumes_def)
    ultimately have "?q = q" using distinct_subs_facts(1) [OF d] r by (simp add: distinct_map inj_on_def prod_eq_iff)
    with h show "q \<in> sp ` set ?G" by (metis imageI)
  qed (use sp(1) in blast)
  moreover have "?m ` set ?G = (\<lambda>(s, p). mapping_of k tps s p) ` (sp ` set ?G)" by (simp add: image_image case_prod_unfold)
  ultimately have set: "?m ` set ?G = (\<lambda>(s, p). mapping_of k tps s p) ` consumes k tps" by simp
  have s: "set (ordg ?G) = set ?G" by (rule reorders_set [OF o'(2)])
  have dG: "distinct ?G" using g by (simp add: grouped_def distinct_map)
  then have "distinct (ordg ?G)" using mset_eq_imp_distinct_iff [OF reordersD [OF o'(2)]] by simp
  show thesis
  proof (rule that [of "map ?m (ordg ?G)"])
    show "mapE (\<lambda>(_, g). new_mapping k g) (ordg ?G) = Ok (map ?m (ordg ?G))"
      by (rule mapE_map) (simp add: s sp(3) case_prod_unfold)
    show "distinct (map ?m (ordg ?G))" using \<open>distinct (ordg ?G)\<close> inj by (simp add: distinct_map s)
    show "set (map ?m (ordg ?G)) = (\<lambda>(s, p). mapping_of k tps s p) ` consumes k tps" by (simp add: s set)
  qed
qed

section \<open>The numbered generation\<close>

definition numbered :: "task_mapping list \<Rightarrow> task_mapping list" where
  "numbered ms = map (\<lambda>(i, m). m\<lparr>tm_id := Some \<lparr>ti_id = int i, ti_hash = tm_hash m, ti_prefix = ''Task'',
     ti_partition = tp_Partition (hd (tm_TPs m)), ti_topics = sprint_tps (tm_TPs m)\<rparr>\<rparr>) (enumerate 0 ms)"

definition generation_of :: "task_mapping list \<Rightarrow> task_generation" where
  "generation_of ms = \<lparr>tg_mappings = numbered ms,
     tg_mappingsMap = fold (\<lambda>m f. f(tid_UniqueID (the (tm_id m)) \<mapsto> m)) (numbered ms) Map.empty\<rparr>"

lemma set_task_ids:
  assumes "\<forall>m\<in>set ms. tm_TPs m \<noteq> []"
  shows "mapE set_task_id (enumerate 0 ms) = Ok (numbered ms)"
  unfolding numbered_def
proof (rule mapE_map)
  fix x assume "x \<in> set (enumerate 0 ms)"
  then have "snd x \<in> set ms" by (metis enumerate_eq_zip in_set_zipE prod.collapse)
  with assms obtain tp tps where "tm_TPs (snd x) = tp # tps" by (meson list.exhaust)
  then show "set_task_id x = Ok ((\<lambda>(i, m). m\<lparr>tm_id := Some \<lparr>ti_id = int i, ti_hash = tm_hash m, ti_prefix = ''Task'',
     ti_partition = tp_Partition (hd (tm_TPs m)), ti_topics = sprint_tps (tm_TPs m)\<rparr>\<rparr>) x)"
    by (simp add: set_task_id_def case_prod_unfold)
qed

lemma mapping_of_TPs:
  "tm_topology (mapping_of k tps s p) = s"
  "tm_TPs (mapping_of k tps s p) = map (\<lambda>t. \<lparr>tp_Topic = t, tp_Partition = p\<rparr>) (sort (group_topics (sub_source_topics s (tb_heap k)) p tps))"
  "set (tm_TPs (mapping_of k tps s p)) =
     {tp \<in> set tps. tp_Partition tp = p \<and> tp_Topic tp \<in> set (sub_source_topics s (tb_heap k))}"
proof -
  have eta: "\<lparr>tp_Topic = tp_Topic tp, tp_Partition = tp_Partition tp\<rparr> = tp" for tp by simp
  show "tm_topology (mapping_of k tps s p) = s" by (simp add: mapping_of_def Let_def)
  show 2: "tm_TPs (mapping_of k tps s p) =
      map (\<lambda>t. \<lparr>tp_Topic = t, tp_Partition = p\<rparr>) (sort (group_topics (sub_source_topics s (tb_heap k)) p tps))"
    by (simp add: mapping_of_def Let_def)
  show "set (tm_TPs (mapping_of k tps s p)) =
     {tp \<in> set tps. tp_Partition tp = p \<and> tp_Topic tp \<in> set (sub_source_topics s (tb_heap k))}" (is "_ = ?R")
  proof (intro equalityI subsetI)
    fix x assume "x \<in> set (tm_TPs (mapping_of k tps s p))"
    then obtain tp where "tp \<in> ?R" "x = \<lparr>tp_Topic = tp_Topic tp, tp_Partition = tp_Partition tp\<rparr>"
      unfolding 2 by (auto simp: group_topics_def)
    then show "x \<in> ?R" unfolding eta by simp
  next
    fix x assume "x \<in> ?R"
    then have "\<lparr>tp_Topic = tp_Topic x, tp_Partition = p\<rparr> \<in> set (tm_TPs (mapping_of k tps s p))" and "tp_Partition x = p"
      unfolding 2 by (auto simp: group_topics_def)
    then show "x \<in> set (tm_TPs (mapping_of k tps s p))" using eta [of x] by metis
  qed
qed

lemma Generate_ok:
  assumes "distinct_subs k" "\<forall>tp\<in>set tps. 0 \<le> sint (tp_Partition tp)" "\<And>n. reorders (ord n)" "reorders ordg"
  obtains ms where "Generate ord ordg tps k = Ok (generation_of (sort_key tm_hash ms))" "distinct ms"
    "set ms = (\<lambda>(s, p). mapping_of k tps s p) ` consumes k tps"
proof -
  from generated_mappings [where ord = ord, OF assms] obtain ms where
    ms: "mapE (\<lambda>(_, g). new_mapping k g) (ordg (group_tps ord tps (topicsGroupedBySubTopology k))) = Ok ms"
      "distinct ms" "set ms = (\<lambda>(s, p). mapping_of k tps s p) ` consumes k tps" by blast
  have "\<forall>m\<in>set (sort_key tm_hash ms). tm_TPs m \<noteq> []"
    using ms(3) by (auto simp: consumes_def mapping_of_TPs(2))
  from set_task_ids [OF this] ms show thesis
    by (intro that [of ms]) (simp_all add: Generate_def generation_of_def)
qed

lemma numbered_facts:
  "length (numbered ms) = length ms"
  "map tm_hash (numbered ms) = map tm_hash ms"
  "map (\<lambda>m. m\<lparr>tm_id := None\<rparr>) (numbered ms) = map (\<lambda>m. m\<lparr>tm_id := None\<rparr>) ms"
  "map tm_topology (numbered ms) = map tm_topology ms"
  "map tm_TPs (numbered ms) = map tm_TPs ms"
  "i < length ms \<Longrightarrow> map_option ti_id (tm_id (numbered ms ! i)) = Some (int i)"
  by (auto simp: numbered_def case_prod_unfold nth_enumerate_eq intro!: nth_equalityI)

lemma numbered_ids: "distinct (map tm_id (numbered ms))"
proof -
  have "distinct (map (map_option ti_id \<circ> tm_id) (numbered ms))"
    by (auto simp: distinct_conv_nth numbered_facts)
  then show ?thesis by (metis distinct_of_map map_map)
qed

section \<open>What the order of iteration decides\<close>

lemma sort_mset: "mset xs = mset ys \<Longrightarrow> sort xs = sort ys"
  by (rule properties_for_sort) simp_all

lemma sort_key_mset:
  assumes "mset xs = mset ys" "distinct (map f xs)"
  shows "sort_key f xs = sort_key f ys"
proof (rule map_inj_on [where f = f])
  have "sort (map f (sort_key f xs)) = sort (map f (sort_key f ys))" using assms(1) by (intro sort_mset) (simp add: mset_map)
  then show "map f (sort_key f xs) = map f (sort_key f ys)" by (simp add: sorted_sort_id)
  have "set xs = set ys" using assms(1) by (metis set_mset_mset)
  then show "inj_on f (set (sort_key f xs) \<union> set (sort_key f ys))" using assms(2) by (simp add: distinct_map)
qed

lemma group_topics_mset:
  assumes "mset tps = mset tps'"
  shows "mset (group_topics topics p tps) = mset (group_topics topics p tps')"
  using assms by (simp add: group_topics_def mset_map mset_filter)

lemma mapping_of_mset:
  assumes "mset tps = mset tps'"
  shows "mapping_of k tps s p = mapping_of k tps' s p" "consumes k tps = consumes k tps'"
proof -
  have nil: "group_topics t q tps = [] \<longleftrightarrow> group_topics t q tps' = []" for t q
    using group_topics_mset [OF assms, of t q] by (metis mset_zero_iff)
  show "mapping_of k tps s p = mapping_of k tps' s p"
    using sort_mset [OF group_topics_mset [OF assms]] by (simp add: mapping_of_def)
  show "consumes k tps = consumes k tps'"
    unfolding consumes_def nil by (rule refl)
qed

text \<open>C27: 
  Two instances generate the same numbered tasks from the same topic partitions, in whatever order they range over their maps and the
  broker lists the partitions, when the hashes of the tasks differ.
\<close>

theorem generation_agrees:
  assumes "distinct_subs k" "\<forall>tp\<in>set tps. 0 \<le> sint (tp_Partition tp)" "mset tps' = mset tps"
    and "\<And>n. reorders (ord n)" "reorders ordg" "\<And>n. reorders (ord' n)" "reorders ordg'"
    and "Generate ord ordg tps k = Ok g" "distinct (map tm_hash (tg_mappings g))"
  shows "Generate ord' ordg' tps' k = Ok g"
proof -
  have p': "\<forall>tp\<in>set tps'. 0 \<le> sint (tp_Partition tp)" using assms(2,3) by (metis set_mset_mset)
  obtain ms where ms: "Generate ord ordg tps k = Ok (generation_of (sort_key tm_hash ms))" "distinct ms"
      "set ms = (\<lambda>(s, p). mapping_of k tps s p) ` consumes k tps"
    using Generate_ok [where ord = ord, OF assms(1,2,4,5)] by blast
  obtain ms' where ms': "Generate ord' ordg' tps' k = Ok (generation_of (sort_key tm_hash ms'))" "distinct ms'"
      "set ms' = (\<lambda>(s, p). mapping_of k tps' s p) ` consumes k tps'"
    using Generate_ok [where ord = ord', OF assms(1) p' assms(6,7)] by blast
  have "set ms = set ms'" using ms(3) ms'(3) by (simp add: mapping_of_mset [OF assms(3)])
  then have m: "mset ms = mset ms'" using ms(2) ms'(2) by (simp add: set_eq_iff_mset_eq_distinct)
  have "map tm_hash (tg_mappings g) = map tm_hash (sort_key tm_hash ms)"
    using assms(8) ms(1) numbered_facts(2) [of "sort_key tm_hash ms"] by (auto simp: generation_of_def)
  with assms(9) have "distinct (map tm_hash (sort_key tm_hash ms))" by simp
  moreover have "mset (map tm_hash (sort_key tm_hash ms)) = mset (map tm_hash ms)" by (simp add: mset_map)
  ultimately have "distinct (map tm_hash ms)" by (metis mset_eq_imp_distinct_iff)
  from sort_key_mset [OF m this] ms(1) ms'(1) assms(8) show ?thesis by simp
qed

section \<open>The assignment of a consumer\<close>

text \<open>A mapping is touched when it has one of the assigned topic partitions; the loops collect the touched mappings once each.\<close>

definition touched :: "topic_partition list \<Rightarrow> task_mapping \<Rightarrow> bool" where
  "touched tps m \<longleftrightarrow> (\<exists>tp\<in>set (tm_TPs m). tp_String tp \<in> tp_String ` set tps)"

definition collected :: "task_mapping list \<Rightarrow> task_mapping set \<Rightarrow> task_mapping list \<times> task_id option set \<Rightarrow> bool" where
  "collected ms T st \<longleftrightarrow> set (fst st) = T \<and> T \<subseteq> set ms \<and> snd st = tm_id ` T \<and> distinct (fst st)"

lemma collect_tps:
  assumes "distinct (map tm_id ms)" "m \<in> set ms" "collected ms T st"
  shows "collected ms (T \<union> (if \<exists>tp\<in>set tps. tp_String tp = tp_String part then {m} else {})) (fold (assign_tp part m) tps st)"
  using assms(3)
proof (induction tps arbitrary: st T)
  case (Cons tp tps)
  have inj: "tm_id m \<in> tm_id ` T \<longleftrightarrow> m \<in> T" if "T \<subseteq> set ms" for T
    using assms(1,2) that by (auto simp: distinct_map inj_on_def)
  show ?case
  proof (cases "tp_String tp = tp_String part")
    case True
    have "collected ms (insert m T) (assign_tp part m tp st)"
      using Cons.prems assms(2) True inj [of T] by (auto simp: collected_def assign_tp_def insert_absorb)
    from Cons.IH [OF this] True show ?thesis by (auto simp: insert_commute split: if_splits)
  next
    case False
    then have "assign_tp part m tp st = st" by (simp add: assign_tp_def)
    with Cons.IH [OF Cons.prems] False show ?thesis by simp
  qed
qed simp

lemma collect_mappings:
  assumes "distinct (map tm_id ms)" "set ms' \<subseteq> set ms" "collected ms T st"
  shows "collected ms (T \<union> {m \<in> set ms'. touched [part] m}) (fold (\<lambda>m. fold (assign_tp part m) (tm_TPs m)) ms' st)"
  using assms(2,3)
proof (induction ms' arbitrary: st T)
  case (Cons m ms')
  have "m \<in> set ms" using Cons.prems by simp
  note c = collect_tps [OF assms(1) this Cons.prems(2), of "tm_TPs m" part]
  have e: "(T \<union> (if \<exists>tp\<in>set (tm_TPs m). tp_String tp = tp_String part then {m} else {})) \<union> {m \<in> set ms'. touched [part] m}
      = T \<union> {x \<in> set (m # ms'). touched [part] x}"
    by (auto simp: touched_def)
  from Cons.IH [OF _ c] Cons.prems(1) show ?case unfolding e by simp
qed simp

lemma collect_assignment:
  assumes "distinct (map tm_id ms)" "collected ms T st"
  shows "collected ms (T \<union> {m \<in> set ms. touched tps m}) (fold (\<lambda>part. fold (\<lambda>m. fold (assign_tp part m) (tm_TPs m)) ms) tps st)"
  using assms(2)
proof (induction tps arbitrary: st T)
  case Nil
  then show ?case by (simp add: touched_def)
next
  case (Cons part tps)
  note c = collect_mappings [OF assms(1) subset_refl Cons.prems, of part]
  have e: "(T \<union> {m \<in> set ms. touched [part] m}) \<union> {m \<in> set ms. touched tps m} = T \<union> {m \<in> set ms. touched (part # tps) m}"
    by (auto simp: touched_def)
  from Cons.IH [OF c] show ?case unfolding e by simp
qed

lemma assign_loops_touched:
  assumes "distinct (map tm_id ms)"
  shows "set (fst (assign_loops tps ms)) = {m \<in> set ms. touched tps m}" "distinct (fst (assign_loops tps ms))"
  using collect_assignment [OF assms, of "{}" "([], {})" tps] by (simp_all add: collected_def assign_loops_def)

lemma Assign_eq:
  assumes "distinct (map tm_id (tg_mappings g))"
  shows "Assign tps g = (if \<exists>m\<in>set (tg_mappings g). touched tps m \<and> \<not> tp_String ` set (tm_TPs m) \<subseteq> tp_String ` set tps
     then Panic (''invalid assignment: consumer assignment '' @ sprint_tps tps @ '' doesn't match the Generation'')
     else Ok (fst (assign_loops tps (tg_mappings g))))"
proof -
  have "(\<exists>m\<in>set (fst (assign_loops tps (tg_mappings g))). \<exists>tp\<in>set (tm_TPs m). tp_String tp \<notin> set (map tp_String tps)) \<longleftrightarrow>
      (\<exists>m\<in>set (tg_mappings g). touched tps m \<and> \<not> tp_String ` set (tm_TPs m) \<subseteq> tp_String ` set tps)"
    unfolding assign_loops_touched(1) [OF assms] by auto
  then show ?thesis by (simp add: Assign_def Let_def)
qed

section \<open>Coverage\<close>

lemma distinct_by_nth: "distinct xs \<Longrightarrow> xs ! i = xs ! j \<Longrightarrow> i < length xs \<Longrightarrow> j < length xs \<Longrightarrow> i = j"
  by (simp add: nth_eq_iff_index_eq)

text \<open>The mappings of a generation are those of the consumed pairs, one each.\<close>

lemma generation_facts:
  assumes h: "distinct_subs k" "\<forall>tp\<in>set tps. 0 \<le> sint (tp_Partition tp)" "\<And>n. reorders (ord n)" "reorders ordg"
    and g: "Generate ord ordg tps k = Ok g"
  shows "distinct (map tm_id (tg_mappings g))"
    and "map (\<lambda>m. map_option ti_id (tm_id m)) (tg_mappings g) = map (\<lambda>i. Some (int i)) [0..<length (tg_mappings g)]"
    and "m \<in> set (tg_mappings g) \<Longrightarrow> \<exists>p. (tm_topology m, p) \<in> consumes k tps \<and> tm_TPs m = tm_TPs (mapping_of k tps (tm_topology m) p)"
    and "(s, p) \<in> consumes k tps \<Longrightarrow> \<exists>!m. m \<in> set (tg_mappings g) \<and> tm_topology m = s \<and> tm_TPs m = tm_TPs (mapping_of k tps s p)"
proof -
  obtain ms where ms: "Generate ord ordg tps k = Ok (generation_of (sort_key tm_hash ms))" "distinct ms"
      "set ms = (\<lambda>(s, p). mapping_of k tps s p) ` consumes k tps"
    using Generate_ok [where ord = ord, OF h] by blast
  let ?L = "sort_key tm_hash ms"
  have L: "tg_mappings g = numbered ?L" "distinct ?L" "set ?L = (\<lambda>(s, p). mapping_of k tps s p) ` consumes k tps"
    using g ms by (auto simp: generation_of_def)
  have nth: "tm_topology (numbered ?L ! i) = tm_topology (?L ! i)" "tm_TPs (numbered ?L ! i) = tm_TPs (?L ! i)" if "i < length ?L" for i
    using that numbered_facts(1,4,5) [of ?L] by (metis nth_map)+
  show ids: "distinct (map tm_id (tg_mappings g))" unfolding L(1) by (rule numbered_ids)
  show "map (\<lambda>m. map_option ti_id (tm_id m)) (tg_mappings g) = map (\<lambda>i. Some (int i)) [0..<length (tg_mappings g)]"
    unfolding L(1) by (rule nth_equalityI) (simp_all add: numbered_facts)
  show "\<exists>p. (tm_topology m, p) \<in> consumes k tps \<and> tm_TPs m = tm_TPs (mapping_of k tps (tm_topology m) p)"
    if "m \<in> set (tg_mappings g)"
  proof -
    from that obtain i where i: "i < length ?L" "m = numbered ?L ! i" unfolding L(1) by (metis in_set_conv_nth numbered_facts(1))
    then have "?L ! i \<in> (\<lambda>(s, p). mapping_of k tps s p) ` consumes k tps" using L(3) nth_mem by blast
    then obtain s p where "(s, p) \<in> consumes k tps" "?L ! i = mapping_of k tps s p" by auto
    then show ?thesis using nth [OF i(1)] i(2) by (metis mapping_of_TPs(1))
  qed
  show "\<exists>!m. m \<in> set (tg_mappings g) \<and> tm_topology m = s \<and> tm_TPs m = tm_TPs (mapping_of k tps s p)"
    if c: "(s, p) \<in> consumes k tps"
  proof -
    have "mapping_of k tps s p \<in> set ?L" unfolding L(3) using c by force
    then obtain i where i: "i < length ?L" "?L ! i = mapping_of k tps s p" by (metis in_set_conv_nth)
    show ?thesis
    proof (rule ex1I)
      show "numbered ?L ! i \<in> set (tg_mappings g) \<and> tm_topology (numbered ?L ! i) = s
          \<and> tm_TPs (numbered ?L ! i) = tm_TPs (mapping_of k tps s p)"
        using i nth [OF i(1)] nth_mem [of i "numbered ?L"] by (simp add: L(1) numbered_facts(1) mapping_of_TPs(1))
    next
      fix m assume m: "m \<in> set (tg_mappings g) \<and> tm_topology m = s \<and> tm_TPs m = tm_TPs (mapping_of k tps s p)"
      then obtain j where j: "j < length ?L" "m = numbered ?L ! j" unfolding L(1) by (metis in_set_conv_nth numbered_facts(1))
      then have "?L ! j \<in> (\<lambda>(s, p). mapping_of k tps s p) ` consumes k tps" using L(3) nth_mem by blast
      then obtain s' p' where s': "(s', p') \<in> consumes k tps" "?L ! j = mapping_of k tps s' p'" by auto
      have "s' = s" "tm_TPs (mapping_of k tps s' p') = tm_TPs (mapping_of k tps s p)"
        using m j nth [OF j(1)] s' by (auto simp: mapping_of_TPs(1))
      moreover have "tm_TPs (mapping_of k tps s p) \<noteq> []" using c by (auto simp: consumes_def mapping_of_TPs(2))
      then obtain tp where "tp \<in> set (tm_TPs (mapping_of k tps s p))" by (meson list.set_sel(1))
      ultimately have "p' = p" by (metis (mono_tags, lifting) mapping_of_TPs(3) mem_Collect_eq)
      with \<open>s' = s\<close> s' i have "?L ! j = ?L ! i" by simp
      with distinct_by_nth [OF L(2)] i j show "m = numbered ?L ! i" by metis
    qed
  qed
qed

lemma consumes_iff:
  "(s, p) \<in> consumes k tps \<longleftrightarrow> s \<in> set (kt_StreamTopologies k) \<and>
     (\<exists>tp\<in>set tps. tp_Partition tp = p \<and> tp_Topic tp \<in> set (sub_source_topics s (tb_heap k)))"
  by (auto simp: consumes_def group_topics_def filter_empty_conv)

text \<open>C28: 
  The generation always succeeds; its tasks are numbered from 0, each consumes all the topics of a sub topology that have some one
  partition, and each topic partition is consumed by exactly one task of every sub topology with that source topic.
\<close>

theorem tasks_cover:
  assumes "distinct_subs k" "\<forall>tp\<in>set tps. 0 \<le> sint (tp_Partition tp)" "\<And>n. reorders (ord n)" "reorders ordg"
  shows "\<exists>g. Generate ord ordg tps k = Ok g \<and>
    map (\<lambda>m. map_option ti_id (tm_id m)) (tg_mappings g) = map (\<lambda>i. Some (int i)) [0..<length (tg_mappings g)] \<and>
    (\<forall>m\<in>set (tg_mappings g). tm_TPs m \<noteq> [] \<and> (\<exists>p. set (tm_TPs m) =
       {tp \<in> set tps. tp_Partition tp = p \<and> tp_Topic tp \<in> set (sub_source_topics (tm_topology m) (tb_heap k))})) \<and>
    (\<forall>tp\<in>set tps. \<forall>s\<in>set (kt_StreamTopologies k). tp_Topic tp \<in> set (sub_source_topics s (tb_heap k)) \<longrightarrow>
       (\<exists>!m. m \<in> set (tg_mappings g) \<and> tm_topology m = s \<and> tp \<in> set (tm_TPs m)))"
proof -
  obtain g where g: "Generate ord ordg tps k = Ok g" using Generate_ok [where ord = ord, OF assms] by blast
  note f = generation_facts [where ord = ord, OF assms g]
  have "tm_TPs m \<noteq> [] \<and> (\<exists>p. set (tm_TPs m) =
       {tp \<in> set tps. tp_Partition tp = p \<and> tp_Topic tp \<in> set (sub_source_topics (tm_topology m) (tb_heap k))})"
    if "m \<in> set (tg_mappings g)" for m
  proof -
    from f(3) [OF that] obtain p where p: "(tm_topology m, p) \<in> consumes k tps"
        "tm_TPs m = tm_TPs (mapping_of k tps (tm_topology m) p)" by blast
    then have "tm_TPs m \<noteq> []" by (simp add: consumes_def mapping_of_TPs(2))
    with p(2) mapping_of_TPs(3) [of k tps "tm_topology m" p] show ?thesis by auto
  qed
  moreover have "\<exists>!m. m \<in> set (tg_mappings g) \<and> tm_topology m = s \<and> tp \<in> set (tm_TPs m)"
    if tp: "tp \<in> set tps" and s: "s \<in> set (kt_StreamTopologies k)" and i: "tp_Topic tp \<in> set (sub_source_topics s (tb_heap k))" for tp s
  proof -
    let ?p = "tp_Partition tp"
    have c: "(s, ?p) \<in> consumes k tps" using tp s i by (auto simp: consumes_iff)
    have "(m \<in> set (tg_mappings g) \<and> tm_topology m = s \<and> tm_TPs m = tm_TPs (mapping_of k tps s ?p)) \<longleftrightarrow>
        (m \<in> set (tg_mappings g) \<and> tm_topology m = s \<and> tp \<in> set (tm_TPs m))" for m
    proof
      assume m: "m \<in> set (tg_mappings g) \<and> tm_topology m = s \<and> tp \<in> set (tm_TPs m)"
      from f(3) m obtain p where p: "tm_TPs m = tm_TPs (mapping_of k tps s p)" by blast
      with m have "p = ?p" by (simp add: mapping_of_TPs(3))
      with m p show "m \<in> set (tg_mappings g) \<and> tm_topology m = s \<and> tm_TPs m = tm_TPs (mapping_of k tps s ?p)" by simp
    qed (use tp i in \<open>auto simp: mapping_of_TPs(3)\<close>)
    with f(4) [OF c] show ?thesis by simp
  qed
  ultimately show ?thesis using g f(2) by blast
qed

lemma touched_plain:
  assumes "\<forall>tp\<in>set tps. 0 \<le> sint (tp_Partition tp)" "set a \<subseteq> set tps" "set (tm_TPs m) \<subseteq> set tps"
  shows "touched a m \<longleftrightarrow> set (tm_TPs m) \<inter> set a \<noteq> {}" "tp_String ` set (tm_TPs m) \<subseteq> tp_String ` set a \<longleftrightarrow> set (tm_TPs m) \<subseteq> set a"
proof -
  have inj: "tp_String x = tp_String y \<longleftrightarrow> x = y" if "x \<in> set tps" "y \<in> set tps" for x y
    using tp_String_eq assms(1) that by simp
  have m: "tp_String x \<in> tp_String ` set a \<longleftrightarrow> x \<in> set a" if "x \<in> set (tm_TPs m)" for x
  proof
    assume "tp_String x \<in> tp_String ` set a"
    then obtain y where "y \<in> set a" "tp_String x = tp_String y" by blast
    then show "x \<in> set a" using inj [of x y] assms(2,3) that by auto
  qed simp
  then show "tp_String ` set (tm_TPs m) \<subseteq> tp_String ` set a \<longleftrightarrow> set (tm_TPs m) \<subseteq> set a"
    unfolding image_subset_iff by blast
  show "touched a m \<longleftrightarrow> set (tm_TPs m) \<inter> set a \<noteq> {}"
    using m by (auto simp: touched_def)
qed

text \<open>An assignment is accepted exactly when it splits no task, and then gives the tasks it has in full.\<close>

lemma assignment_accepted:
  assumes "distinct_subs k" "\<forall>tp\<in>set tps. 0 \<le> sint (tp_Partition tp)" "\<And>n. reorders (ord n)" "reorders ordg"
    and "Generate ord ordg tps k = Ok g" "set a \<subseteq> set tps"
  shows "(\<exists>ms. Assign a g = Ok ms \<and> distinct ms \<and> set ms = {m \<in> set (tg_mappings g). set (tm_TPs m) \<subseteq> set a}) \<longleftrightarrow>
      (\<forall>m\<in>set (tg_mappings g). set (tm_TPs m) \<inter> set a = {} \<or> set (tm_TPs m) \<subseteq> set a)"
    and "is_ok (Assign a g) \<longleftrightarrow> (\<forall>m\<in>set (tg_mappings g). set (tm_TPs m) \<inter> set a = {} \<or> set (tm_TPs m) \<subseteq> set a)"
    and "m \<in> set (tg_mappings g) \<Longrightarrow> tm_TPs m \<noteq> [] \<and> set (tm_TPs m) \<subseteq> set tps"
proof -
  note f = generation_facts [where ord = ord, OF assms(1-5)]
  show T: "tm_TPs m \<noteq> [] \<and> set (tm_TPs m) \<subseteq> set tps" if m: "m \<in> set (tg_mappings g)" for m
  proof -
    from f(3) [OF m] obtain p where "(tm_topology m, p) \<in> consumes k tps" "tm_TPs m = tm_TPs (mapping_of k tps (tm_topology m) p)"
      by blast
    then show ?thesis using mapping_of_TPs(3) [of k tps "tm_topology m" p] by (auto simp: consumes_def mapping_of_TPs(2))
  qed
  have bad: "(\<exists>m\<in>set (tg_mappings g). touched a m \<and> \<not> tp_String ` set (tm_TPs m) \<subseteq> tp_String ` set a) \<longleftrightarrow>
      \<not> (\<forall>m\<in>set (tg_mappings g). set (tm_TPs m) \<inter> set a = {} \<or> set (tm_TPs m) \<subseteq> set a)"
    using touched_plain [OF assms(2,6)] T by simp
  note eq = Assign_eq [OF f(1), of a, unfolded bad]
  show ok: "is_ok (Assign a g) \<longleftrightarrow> (\<forall>m\<in>set (tg_mappings g). set (tm_TPs m) \<inter> set a = {} \<or> set (tm_TPs m) \<subseteq> set a)"
    unfolding eq by simp
  show "(\<exists>ms. Assign a g = Ok ms \<and> distinct ms \<and> set ms = {m \<in> set (tg_mappings g). set (tm_TPs m) \<subseteq> set a}) \<longleftrightarrow>
      (\<forall>m\<in>set (tg_mappings g). set (tm_TPs m) \<inter> set a = {} \<or> set (tm_TPs m) \<subseteq> set a)" (is "?L \<longleftrightarrow> ?R")
  proof
    assume ?L
    then show ?R using ok by auto
  next
    assume r: ?R
    have "{m \<in> set (tg_mappings g). touched a m} = {m \<in> set (tg_mappings g). set (tm_TPs m) \<subseteq> set a}"
    proof (intro Collect_cong conj_cong refl)
      fix m assume m: "m \<in> set (tg_mappings g)"
      then have "tm_TPs m \<noteq> []" "set (tm_TPs m) \<subseteq> set tps" using T by blast+
      moreover from this(1) have "set (tm_TPs m) \<inter> set a = {} \<Longrightarrow> \<not> set (tm_TPs m) \<subseteq> set a" by (cases "tm_TPs m") auto
      ultimately show "touched a m \<longleftrightarrow> set (tm_TPs m) \<subseteq> set a"
        using r m touched_plain(1) [OF assms(2,6)] by blast
    qed
    moreover have "Assign a g = Ok (fst (assign_loops a (tg_mappings g)))" using r eq by auto
    ultimately show ?L using assign_loops_touched [OF f(1), of a] by simp
  qed
qed

text \<open>C29: 
  When the partitions are divided among consumers and every consumer accepts its assignment, each task runs at exactly one of them.
\<close>

theorem tasks_partitioned:
  assumes "distinct_subs k" "\<forall>tp\<in>set tps. 0 \<le> sint (tp_Partition tp)" "\<And>n. reorders (ord n)" "reorders ordg"
    and "Generate ord ordg tps k = Ok g"
    and "(\<Union>i<n. set (a i)) = set tps" "\<forall>i<n. \<forall>j<n. i \<noteq> j \<longrightarrow> set (a i) \<inter> set (a j) = {}" "\<forall>i<n. Assign (a i) g = Ok (ms i)"
  shows "\<forall>m\<in>set (tg_mappings g). \<exists>!i. i < n \<and> m \<in> set (ms i)"
proof
  fix m assume m: "m \<in> set (tg_mappings g)"
  have sub: "set (a i) \<subseteq> set tps" if "i < n" for i using assms(6) that by blast
  note acc = assignment_accepted [where ord = ord, OF assms(1-5)]
  have T: "tm_TPs m \<noteq> []" "set (tm_TPs m) \<subseteq> set tps" using acc(3) [of "[]"] m by auto
  have has: "m \<in> set (ms i) \<longleftrightarrow> set (tm_TPs m) \<subseteq> set (a i)" if i: "i < n" for i
  proof -
    have "is_ok (Assign (a i) g)" using assms(8) i by simp
    with acc(1,2) [OF sub [OF i]] obtain xs where "Assign (a i) g = Ok xs"
        "set xs = {m \<in> set (tg_mappings g). set (tm_TPs m) \<subseteq> set (a i)}" by blast
    then show ?thesis using assms(8) i m by auto
  qed
  obtain tp where tp: "tp \<in> set (tm_TPs m)" using T(1) by (meson list.set_sel(1))
  then obtain i where i: "i < n" "tp \<in> set (a i)" using T(2) assms(6) by blast
  have "is_ok (Assign (a i) g)" using assms(8) i by simp
  then have "set (tm_TPs m) \<subseteq> set (a i)" using acc(2) [OF sub [OF i(1)]] m tp i(2) by blast
  then have "m \<in> set (ms i)" using has i by simp
  moreover have "j = i" if "j < n" "m \<in> set (ms j)" for j
  proof (rule ccontr)
    assume "j \<noteq> i"
    then have "set (a j) \<inter> set (a i) = {}" using assms(7) that(1) i(1) by simp
    moreover have "tp \<in> set (a j)" using has that tp by blast
    ultimately show False using i(2) by blast
  qed
  ultimately show "\<exists>!i. i < n \<and> m \<in> set (ms i)" using i(1) by blast
qed

section \<open>The hash of a task\<close>

lemma hash_notin_show_int: "CHR ''#'' \<notin> set (show_int i)"
  using set_nat_digits [of "CHR ''#''"] by (auto simp: show_int_def)

lemma show_int_inject: "show_int i = show_int j \<Longrightarrow> i = j"
  using hd_nat_digits_sign(1) [of "nat i"] hd_nat_digits_sign(1) [of "nat j"]
  by (cases "i < 0"; cases "j < 0") (auto simp: show_int_def dest: arg_cong [of _ _ hd])

text \<open>
  The hash identifies the partition and the concatenation of the topic names, but not the list of names.
\<close>

theorem task_hash_unique:
  "(task_hash topics p = task_hash topics' p' \<longleftrightarrow> concat topics = concat topics' \<and> p = p') \<and>
   task_hash [''a'', ''bc''] p = task_hash [''ab'', ''c''] p"
proof -
  have "task_hash topics p = task_hash topics' p' \<longleftrightarrow>
      concat topics @ CHR ''#'' # show_int (sint p) = concat topics' @ CHR ''#'' # show_int (sint p')"
    by (simp add: task_hash_def)
  also have "\<dots> \<longleftrightarrow> concat topics = concat topics' \<and> p = p'"
    using split_at_last [OF hash_notin_show_int hash_notin_show_int] show_int_inject signed_word_eqI by blast
  finally show ?thesis by (simp add: task_hash_def)
qed

section \<open>An application with two sub topologies\<close>

definition demo_sub :: "int \<Rightarrow> nat list \<Rightarrow> unit sub_builder" where
  "demo_sub i nodes = \<lparr>sb_id = NewSubTopologyId i (''SUB-TOPOLOGY-'' @ show_int i), sb_kind = KindStream, sb_nodeBuilders = nodes,
     sb_edges = [], sb_stores = []\<rparr>"

definition demo_tasks :: "(unit, unit) topology_builder" where
  "demo_tasks = \<lparr>tb_heap = \<lparr>hp_nodes = map (\<lambda>t. \<lparr>nb_id = NewNodeId 0 [] [], nb_name = [], nb_kind = BProc (PSource (NewKSource t []))\<rparr>)
       [''b'', ''a'', ''c''], hp_subs = [demo_sub 1 [0, 1], demo_sub 2 [2]]\<rparr>, tb_subTopologies = [0, 1], tb_counter = 3\<rparr>"

definition demo_tp :: "string \<Rightarrow> int32 \<Rightarrow> topic_partition" where
  "demo_tp t p = \<lparr>tp_Topic = t, tp_Partition = p\<rparr>"

definition demo_tps :: "topic_partition list" where
  "demo_tps = [demo_tp ''a'' 0, demo_tp ''b'' 0, demo_tp ''a'' 1, demo_tp ''b'' 1, demo_tp ''c'' 0]"

definition res_value :: "'x res \<Rightarrow> 'x" where
  "res_value r = (case r of Ok x \<Rightarrow> x | _ \<Rightarrow> undefined)"

lemma res_value_ok: "is_ok r \<Longrightarrow> r = Ok (res_value r)"
  by (auto simp: is_ok_iff res_value_def)

definition demo_generation :: task_generation where
  "demo_generation = res_value (Generate (\<lambda>_ x. x) (\<lambda>x. x) demo_tps demo_tasks)"

lemma reorders_id: "reorders (\<lambda>x. x)" "reorders rev"
  by (simp_all add: reorders_def)

lemma demo_facts:
  "distinct_subs demo_tasks" "\<forall>tp\<in>set demo_tps. 0 \<le> sint (tp_Partition tp)"
  "is_ok (Generate (\<lambda>_ x. x) (\<lambda>x. x) demo_tps demo_tasks)" "distinct (map tm_hash (tg_mappings demo_generation))"
  "length (tg_mappings demo_generation) = 3"
  by code_simp+

lemma demo_generation: "Generate (\<lambda>_ x. x) (\<lambda>x. x) demo_tps demo_tasks = Ok demo_generation"
  unfolding demo_generation_def by (rule res_value_ok [OF demo_facts(3)])

theorem generation_agrees_witness: "Generate (\<lambda>_. rev) rev (rev demo_tps) demo_tasks = Ok demo_generation"
  by (rule generation_agrees [where ord = "\<lambda>_ x. x" and ordg = "\<lambda>x. x" and tps = demo_tps])
     (simp_all add: demo_facts reorders_id demo_generation)

theorem tasks_cover_witness:
  "\<exists>g. Generate (\<lambda>_. rev) rev demo_tps demo_tasks = Ok g \<and>
     (\<exists>!m. m \<in> set (tg_mappings g) \<and> tm_topology m = 0 \<and> demo_tp ''b'' 1 \<in> set (tm_TPs m))"
proof -
  have "0 \<in> set (kt_StreamTopologies demo_tasks)" "demo_tp ''b'' 1 \<in> set demo_tps"
    "tp_Topic (demo_tp ''b'' 1) \<in> set (sub_source_topics 0 (tb_heap demo_tasks))" by code_simp+
  moreover obtain g where "Generate (\<lambda>_. rev) rev demo_tps demo_tasks = Ok g"
      "\<forall>tp\<in>set demo_tps. \<forall>s\<in>set (kt_StreamTopologies demo_tasks). tp_Topic tp \<in> set (sub_source_topics s (tb_heap demo_tasks)) \<longrightarrow>
         (\<exists>!m. m \<in> set (tg_mappings g) \<and> tm_topology m = s \<and> tp \<in> set (tm_TPs m))"
    using tasks_cover [where ord = "\<lambda>_. rev" and ordg = rev, OF demo_facts(1,2) reorders_id(2) reorders_id(2)] by blast
  ultimately show ?thesis by blast
qed

definition demo_assignment :: "nat \<Rightarrow> topic_partition list" where
  "demo_assignment i = (if i = 0 then [demo_tp ''c'' 0, demo_tp ''a'' 0, demo_tp ''b'' 0] else [demo_tp ''a'' 1, demo_tp ''b'' 1])"

lemma demo_assignment_facts:
  "is_ok (Assign (demo_assignment 0) demo_generation)" "is_ok (Assign (demo_assignment (Suc 0)) demo_generation)"
  "set (demo_assignment 0) \<union> set (demo_assignment (Suc 0)) = set demo_tps"
  "set (demo_assignment 0) \<inter> set (demo_assignment (Suc 0)) = {}"
  by code_simp+

theorem tasks_partitioned_witness:
  "list_all (\<lambda>m. \<exists>!i. i < 2 \<and> m \<in> set (res_value (Assign (demo_assignment i) demo_generation))) (tg_mappings demo_generation)"
  unfolding list_all_iff
proof (rule tasks_partitioned [where ord = "\<lambda>_ x. x" and ordg = "\<lambda>x. x" and tps = demo_tps and k = demo_tasks and a = demo_assignment])
  show "(\<Union>i<2. set (demo_assignment i)) = set demo_tps"
    using demo_assignment_facts(3) by (simp add: numeral_2_eq_2 lessThan_Suc Un_commute)
  show "\<forall>i<2. \<forall>j<2. i \<noteq> j \<longrightarrow> set (demo_assignment i) \<inter> set (demo_assignment j) = {}"
    using demo_assignment_facts(4) by (auto simp: numeral_2_eq_2 less_Suc_eq)
  show "\<forall>i<2. Assign (demo_assignment i) demo_generation = Ok (res_value (Assign (demo_assignment i) demo_generation))"
    using res_value_ok [OF demo_assignment_facts(1)] res_value_ok [OF demo_assignment_facts(2)] by (auto simp: numeral_2_eq_2 less_Suc_eq)
qed (simp_all add: demo_facts reorders_id demo_generation)

end
