(* ===== verification/Run_Group.thy ===== *)
theory Run_Group
  imports Errors
begin

text \<open>
  \<open>src/pkg/async/run_group.go\<close>: a group of functions that run on goroutines of their own until one fails or the group is stopped. The
  goroutines are steps of a state machine: the state holds the wait groups, the channels (closed or not) and where each goroutine is;
  a step is one action of one goroutine, and any enabled action may come next. What a function does is open: it may call \<open>Ready\<close> and
  return nil or an error at any time. \<open>Run\<close> is called once.
\<close>

section \<open>State\<close>

text \<open>
  The goroutine of a function: inside the function, returned with an error that is not yet recorded, recorded but not yet signalled,
  past the error handling, ready, and past \<open>wg.Done\<close>. The last three keep what the function returned.
\<close>

datatype fn_phase = PRun | PFailed gerror | PNotify gerror | PReturned "gerror option" | PReady "gerror option" | PEnd "gerror option"

text \<open>\<open>fp_ready\<close>: the channel \<open>ready\<close> is closed. \<open>fp_watched\<close>: the goroutine waiting for it has done \<open>readyWg.Done\<close>.\<close>

record fn_proc =
  fp_phase :: fn_phase
  fp_ready :: bool
  fp_watched :: bool

datatype run_phase = RunIdle | RunWaiting | RunReturned "gerror option"

datatype stop_phase = StopIdle | StopWaiting | StopReturned

record run_group =
  rg_fns :: nat
  rg_wg :: int
  rg_readyWg :: int
  rg_stopping :: bool
  rg_stopped :: bool
  rg_shutDownOnce :: bool
  rg_err :: "gerror option"
  rg_shuttingDown :: bool
  rg_notifyErrOnce :: bool
  rg_procs :: "fn_proc list"
  rg_run :: run_phase
  rg_stop :: stop_phase
  rg_panicked :: bool

definition NewRunGroup :: "nat \<Rightarrow> run_group" where
  "NewRunGroup fns = \<lparr>rg_fns = fns, rg_wg = 0, rg_readyWg = 0, rg_stopping = False, rg_stopped = False, rg_shutDownOnce = False,
     rg_err = None, rg_shuttingDown = False, rg_notifyErrOnce = False, rg_procs = [], rg_run = RunIdle, rg_stop = StopIdle,
     rg_panicked = False\<rparr>"

definition rg_Add :: "run_group \<Rightarrow> run_group" where
  "rg_Add g = g\<lparr>rg_readyWg := rg_readyWg g + 1, rg_fns := rg_fns g + 1\<rparr>"

section \<open>Steps\<close>

definition rg_notifyShutDown :: "run_group \<Rightarrow> run_group" where
  "rg_notifyShutDown g =
     (if rg_shutDownOnce g then g else g\<lparr>rg_shutDownOnce := True, rg_shuttingDown := True, rg_stopping := True\<rparr>)"

definition on_proc :: "nat \<Rightarrow> (fn_proc \<Rightarrow> fn_proc) \<Rightarrow> run_group \<Rightarrow> run_group" where
  "on_proc i f g = g\<lparr>rg_procs := (rg_procs g)[i := f (rg_procs g ! i)]\<rparr>"

abbreviation set_phase :: "fn_phase \<Rightarrow> fn_proc \<Rightarrow> fn_proc" where
  "set_phase ph p \<equiv> p\<lparr>fp_phase := ph\<rparr>"

definition opts_Ready :: "fn_proc \<Rightarrow> fn_proc" where
  "opts_Ready p = p\<lparr>fp_ready := True\<rparr>"

datatype rg_action =
    ARun
  | ACallReady nat
  | AReturn nat "gerror option"
  | ASetErr nat
  | ANotify nat
  | AMakeReady nat
  | ADone nat
  | AWatch nat
  | AFinish
  | AStop
  | AStopped

text \<open>The steps of the goroutine of a function.\<close>

definition fn_step :: "rg_action \<Rightarrow> nat \<Rightarrow> run_group \<Rightarrow> run_group option" where
  "fn_step act i g =
     (case (act, fp_phase (rg_procs g ! i)) of
        (ACallReady _, PRun) \<Rightarrow> if fp_ready (rg_procs g ! i) then None else Some (on_proc i opts_Ready g)
      | (AReturn _ r, PRun) \<Rightarrow> Some (on_proc i (set_phase (case r of None \<Rightarrow> PReturned None | Some e \<Rightarrow> PFailed e)) g)
      | (ASetErr _, PFailed e) \<Rightarrow>
          Some (on_proc i (set_phase (PNotify e))
            (if rg_notifyErrOnce g then g else g\<lparr>rg_notifyErrOnce := True, rg_err := Some e\<rparr>))
      | (ANotify _, PNotify e) \<Rightarrow> Some (on_proc i (set_phase (PReturned (Some e))) (rg_notifyShutDown g))
      | (AMakeReady _, PReturned r) \<Rightarrow> Some (on_proc i (set_phase (PReady r) \<circ> opts_Ready) g)
      | (ADone _, PReady r) \<Rightarrow> Some (on_proc i (set_phase (PEnd r)) (g\<lparr>rg_wg := rg_wg g - 1\<rparr>))
      | _ \<Rightarrow> None)"

text \<open>The goroutine that waits for \<open>ready\<close>; a wait group panics when its counter becomes negative.\<close>

definition watch_step :: "nat \<Rightarrow> run_group \<Rightarrow> run_group option" where
  "watch_step i g = (let p = rg_procs g ! i in
     if fp_ready p \<and> \<not> fp_watched p then
       Some (on_proc i (\<lambda>p. p\<lparr>fp_watched := True\<rparr>) (g\<lparr>rg_readyWg := rg_readyWg g - 1, rg_panicked := rg_panicked g \<or> rg_readyWg g < 1\<rparr>))
     else None)"

definition rg_Run :: "run_group \<Rightarrow> run_group option" where
  "rg_Run g = (if rg_run g = RunIdle then
     Some (g\<lparr>rg_wg := rg_wg g + int (rg_fns g), rg_run := RunWaiting,
             rg_procs := replicate (rg_fns g) \<lparr>fp_phase = PRun, fp_ready = False, fp_watched = False\<rparr>\<rparr>) else None)"

definition rg_finish :: "run_group \<Rightarrow> run_group option" where
  "rg_finish g = (if rg_run g = RunWaiting \<and> rg_wg g = 0 then Some (g\<lparr>rg_stopped := True, rg_run := RunReturned (rg_err g)\<rparr>) else None)"

definition rg_Stop :: "run_group \<Rightarrow> run_group option" where
  "rg_Stop g = (if rg_stop g = StopIdle then Some ((rg_notifyShutDown g)\<lparr>rg_stop := StopWaiting\<rparr>) else None)"

definition rg_stop_wait :: "run_group \<Rightarrow> run_group option" where
  "rg_stop_wait g = (if rg_stop g = StopWaiting \<and> rg_stopped g then Some (g\<lparr>rg_stop := StopReturned\<rparr>) else None)"

definition action_index :: "rg_action \<Rightarrow> nat" where
  "action_index act = (case act of ACallReady i \<Rightarrow> i | AReturn i _ \<Rightarrow> i | ASetErr i \<Rightarrow> i | ANotify i \<Rightarrow> i | AMakeReady i \<Rightarrow> i
     | ADone i \<Rightarrow> i | AWatch i \<Rightarrow> i | _ \<Rightarrow> 0)"

definition rg_do :: "rg_action \<Rightarrow> run_group \<Rightarrow> run_group option" where
  "rg_do act g = (case act of
      ARun \<Rightarrow> rg_Run g
    | AFinish \<Rightarrow> rg_finish g
    | AStop \<Rightarrow> rg_Stop g
    | AStopped \<Rightarrow> rg_stop_wait g
    | AWatch i \<Rightarrow> if i < length (rg_procs g) then watch_step i g else None
    | _ \<Rightarrow> if action_index act < length (rg_procs g) then fn_step act (action_index act) g else None)"

text \<open>\<open>Ready\<close>, once it no longer blocks.\<close>

definition rg_Ready :: "run_group \<Rightarrow> unit res option" where
  "rg_Ready g = (if rg_readyWg g = 0 then
     Some (if rg_err g = None \<and> rg_shuttingDown g then Err EInterrupted
           else (case rg_err g of None \<Rightarrow> Ok () | Some e \<Rightarrow> Err e)) else None)"

text \<open>A group of \<open>n\<close> added functions, and the states it can get to.\<close>

definition group_of :: "nat \<Rightarrow> run_group" where
  "group_of n = (rg_Add ^^ n) (NewRunGroup 0)"

inductive rg_reach :: "nat \<Rightarrow> run_group \<Rightarrow> bool" where
  reach_start: "rg_reach n (group_of n)"
| reach_step: "rg_reach n g \<Longrightarrow> rg_do act g = Some g' \<Longrightarrow> rg_reach n g'"

section \<open>The invariant of the state machine\<close>

text \<open>What a function has returned, once it has.\<close>

fun returned :: "fn_phase \<Rightarrow> gerror option option" where
  "returned PRun = None"
| "returned (PFailed e) = Some (Some e)"
| "returned (PNotify e) = Some (Some e)"
| "returned (PReturned r) = Some r"
| "returned (PReady r) = Some r"
| "returned (PEnd r) = Some r"

fun ended :: "fn_phase \<Rightarrow> bool" where
  "ended (PEnd r) = True"
| "ended _ = False"

fun noted :: "fn_phase \<Rightarrow> bool" where
  "noted (PNotify e) = True"
| "noted (PReturned r) = (r \<noteq> None)"
| "noted (PReady r) = (r \<noteq> None)"
| "noted (PEnd r) = (r \<noteq> None)"
| "noted _ = False"

fun past_ready :: "fn_phase \<Rightarrow> bool" where
  "past_ready (PReady r) = True"
| "past_ready (PEnd r) = True"
| "past_ready _ = False"

definition proc_ok :: "gerror option \<Rightarrow> fn_proc \<Rightarrow> bool" where
  "proc_ok err p \<longleftrightarrow> (fp_watched p \<longrightarrow> fp_ready p) \<and> (past_ready (fp_phase p) \<longrightarrow> fp_ready p) \<and> (noted (fp_phase p) \<longrightarrow> err \<noteq> None)"

definition reported :: "gerror option \<Rightarrow> fn_proc list \<Rightarrow> bool" where
  "reported err ps \<longleftrightarrow> (\<forall>e. err = Some e \<longrightarrow> (\<exists>i<length ps. returned (fp_phase (ps ! i)) = Some (Some e)))"

text \<open>How many elements of a list satisfy a predicate, and what changing one element does to it.\<close>

primrec count_if :: "('x \<Rightarrow> bool) \<Rightarrow> 'x list \<Rightarrow> int" where
  "count_if P [] = 0"
| "count_if P (x # xs) = of_bool (P x) + count_if P xs"

lemma count_if_update:
  "i < length xs \<Longrightarrow> count_if P (xs[i := y]) = count_if P xs - of_bool (P (xs ! i)) + of_bool (P y)"
proof (induction xs arbitrary: i)
  case (Cons x xs)
  then show ?case by (cases i) auto
qed simp

lemma count_if_bounds: "0 \<le> count_if P xs" "count_if P xs \<le> int (length xs)"
  by (induction xs) auto

lemma count_if_zero: "count_if P xs = 0 \<longleftrightarrow> (\<forall>x\<in>set xs. \<not> P x)"
proof (induction xs)
  case (Cons x xs)
  with count_if_bounds(1) [of P xs] show ?case by (cases "P x") auto
qed simp

lemma count_if_not: "count_if (\<lambda>x. \<not> P x) xs = int (length xs) - count_if P xs"
  by (induction xs) auto

lemma count_if_all: "count_if P xs = int (length xs) \<longleftrightarrow> (\<forall>x\<in>set xs. P x)"
  using count_if_zero [of "\<lambda>x. \<not> P x" xs] by (auto simp: count_if_not)

lemma count_if_less: "i < length xs \<Longrightarrow> \<not> P (xs ! i) \<Longrightarrow> count_if P xs < int (length xs)"
  using count_if_all [of P xs] count_if_bounds(2) [of P xs] nth_mem [of i xs] by (metis order_le_less)

lemma count_if_replicate: "count_if P (replicate n x) = (if P x then int n else 0)"
  by (induction n) auto

definition rg_inv :: "nat \<Rightarrow> run_group \<Rightarrow> bool" where
  "rg_inv n g \<longleftrightarrow> rg_fns g = n \<and> \<not> rg_panicked g \<and> rg_shuttingDown g = rg_shutDownOnce g \<and> rg_stopping g = rg_shutDownOnce g \<and>
     rg_readyWg g = int n - count_if fp_watched (rg_procs g) \<and>
     (if rg_run g = RunIdle then rg_procs g = [] \<and> rg_wg g = 0 \<and> \<not> rg_stopped g
      else length (rg_procs g) = n \<and> rg_wg g = count_if (\<lambda>p. \<not> ended (fp_phase p)) (rg_procs g)) \<and>
     (\<forall>p\<in>set (rg_procs g). proc_ok (rg_err g) p) \<and> reported (rg_err g) (rg_procs g) \<and>
     (rg_notifyErrOnce g \<longleftrightarrow> rg_err g \<noteq> None) \<and>
     (\<forall>r. rg_run g = RunReturned r \<longrightarrow> r = rg_err g \<and> rg_wg g = 0) \<and> (rg_stopped g \<longleftrightarrow> rg_run g \<noteq> RunIdle \<and> rg_run g \<noteq> RunWaiting) \<and>
     (rg_stop g \<noteq> StopIdle \<longrightarrow> rg_shutDownOnce g) \<and> (rg_stop g = StopReturned \<longrightarrow> rg_stopped g)"

lemma group_of_eq: "group_of n = (NewRunGroup 0)\<lparr>rg_readyWg := int n, rg_fns := n\<rparr>"
  unfolding group_of_def by (induction n) (simp_all add: NewRunGroup_def rg_Add_def)

lemma rg_inv_start: "rg_inv n (group_of n)"
  by (simp add: rg_inv_def group_of_eq NewRunGroup_def reported_def)

text \<open>A step of one goroutine that keeps what its function returned.\<close>

lemma reported_update:
  assumes "reported err ps" "i < length ps" "returned (fp_phase (ps ! i)) \<noteq> None \<Longrightarrow> returned (fp_phase p) = returned (fp_phase (ps ! i))"
  shows "reported err (ps[i := p])"
  using assms unfolding reported_def by (metis length_list_update nth_list_update option.distinct(1))

lemma procs_update:
  assumes "\<forall>p\<in>set ps. proc_ok err p" "proc_ok err' q" "\<And>p. proc_ok err p \<Longrightarrow> proc_ok err' p"
  shows "\<forall>p\<in>set (ps[i := q]). proc_ok err' p"
  using assms set_update_subset_insert [of ps i q] by blast

text \<open>One goroutine moves on: its element is replaced, with the counters and the flags of the group.\<close>

definition move :: "nat \<Rightarrow> fn_proc \<Rightarrow> int \<Rightarrow> int \<Rightarrow> gerror option \<Rightarrow> bool \<Rightarrow> bool \<Rightarrow> run_group \<Rightarrow> run_group" where
  "move i q w rw err eo sd g = g\<lparr>rg_procs := (rg_procs g)[i := q], rg_wg := w, rg_readyWg := rw, rg_err := err,
     rg_notifyErrOnce := eo, rg_shutDownOnce := sd, rg_shuttingDown := sd, rg_stopping := sd\<rparr>"

lemma move_inv:
  assumes inv: "rg_inv n g" and i: "i < length (rg_procs g)" and run: "rg_run g = RunWaiting \<or> err = rg_err g \<and> w = rg_wg g"
    and q: "proc_ok err q" "returned (fp_phase (rg_procs g ! i)) \<noteq> None \<Longrightarrow> returned (fp_phase q) = returned (fp_phase (rg_procs g ! i))"
    and w: "w = rg_wg g - of_bool (\<not> ended (fp_phase (rg_procs g ! i))) + of_bool (\<not> ended (fp_phase q))"
    and rw: "rw = rg_readyWg g + of_bool (fp_watched (rg_procs g ! i)) - of_bool (fp_watched q)"
    and err: "eo \<longleftrightarrow> err \<noteq> None" "err = rg_err g \<or> rg_err g = None \<and> returned (fp_phase q) = Some err"
    and sd: "rg_shutDownOnce g \<Longrightarrow> sd"
  shows "rg_inv n (move i q w rw err eo sd g)"
proof -
  let ?g = "move i q w rw err eo sd g"
  have r: "rg_run g \<noteq> RunIdle" using inv i by (auto simp: rg_inv_def split: if_splits)
  have "proc_ok (rg_err g) p \<Longrightarrow> proc_ok err p" for p using err(2) by (auto simp: proc_ok_def)
  then have ps: "\<forall>p\<in>set ((rg_procs g)[i := q]). proc_ok err p" using inv q(1) procs_update unfolding rg_inv_def by blast
  have rep: "reported err ((rg_procs g)[i := q])"
  proof (cases "err = rg_err g")
    case True
    then show ?thesis using reported_update [OF _ i] inv q(2) by (simp add: rg_inv_def)
  next
    case False
    with err(2) have "returned (fp_phase ((rg_procs g)[i := q] ! i)) = Some err" using i by simp
    then show ?thesis using i unfolding reported_def by (metis length_list_update)
  qed
  have c1: "count_if (\<lambda>p. \<not> ended (fp_phase p)) ((rg_procs g)[i := q]) = w" using inv r w by (simp add: rg_inv_def count_if_update [OF i])
  have c2: "rw = int n - count_if fp_watched ((rg_procs g)[i := q])" using inv rw by (simp add: rg_inv_def count_if_update [OF i])
  have "\<forall>r. rg_run g = RunReturned r \<longrightarrow> r = err \<and> w = 0" using inv run by (auto simp: rg_inv_def)
  then show ?thesis
    using inv r ps rep c1 c2 err(1) sd unfolding rg_inv_def by (simp add: move_def) blast
qed

text \<open>A goroutine that is past its function runs only while \<open>Run\<close> waits.\<close>

lemma still_waiting:
  assumes "rg_inv n g" "i < length (rg_procs g)" "\<not> ended (fp_phase (rg_procs g ! i))"
  shows "rg_run g = RunWaiting"
proof -
  have r: "rg_run g \<noteq> RunIdle" using assms by (auto simp: rg_inv_def split: if_splits)
  have "rg_procs g ! i \<in> set (rg_procs g)" using assms(2) by simp
  then have "rg_wg g \<noteq> 0" using assms(1,3) r by (auto simp: rg_inv_def count_if_zero)
  then show ?thesis using assms(1) r by (cases "rg_run g") (auto simp: rg_inv_def)
qed

lemma move_frame: "move i q (rg_wg g) (rg_readyWg g) (rg_err g) (rg_notifyErrOnce g) (rg_shutDownOnce g) g = g\<lparr>rg_procs := (rg_procs g)[i := q]\<rparr>"
  if "rg_inv n g"
  using that by (simp add: move_def rg_inv_def)

lemma fn_step_inv:
  assumes "rg_inv n g" "i < length (rg_procs g)" "fn_step act i g = Some g'"
  shows "rg_inv n g'"
proof -
  let ?p = "rg_procs g ! i"
  have p: "proc_ok (rg_err g) ?p" using assms(1,2) by (simp add: rg_inv_def)
  have fl: "rg_shuttingDown g = rg_shutDownOnce g" "rg_stopping g = rg_shutDownOnce g" "rg_notifyErrOnce g \<longleftrightarrow> rg_err g \<noteq> None"
    using assms(1) by (simp_all add: rg_inv_def)
  have w: "rg_run g = RunWaiting" if "\<not> ended (fp_phase ?p)" using still_waiting [OF assms(1,2) that] .
  obtain q w rw err eo sd where g': "g' = move i q w rw err eo sd g"
    and run: "\<not> ended (fp_phase ?p)" and q: "proc_ok err q" "returned (fp_phase ?p) \<noteq> None \<Longrightarrow> returned (fp_phase q) = returned (fp_phase ?p)"
    and ws: "w = rg_wg g - of_bool (\<not> ended (fp_phase ?p)) + of_bool (\<not> ended (fp_phase q))"
      "rw = rg_readyWg g + of_bool (fp_watched ?p) - of_bool (fp_watched q)"
    and err: "eo \<longleftrightarrow> err \<noteq> None" "err = rg_err g \<or> rg_err g = None \<and> returned (fp_phase q) = Some err" "rg_shutDownOnce g \<Longrightarrow> sd"
  proof (cases act)
    case (ACallReady j)
    with assms(3) have "fp_phase ?p = PRun" "g' = g\<lparr>rg_procs := (rg_procs g)[i := ?p\<lparr>fp_ready := True\<rparr>]\<rparr>"
      by (auto simp: fn_step_def on_proc_def opts_Ready_def split: fn_phase.splits if_splits)
    then have ph: "fp_phase ?p = PRun" and g': "g' = move i (?p\<lparr>fp_ready := True\<rparr>) (rg_wg g) (rg_readyWg g) (rg_err g) (rg_notifyErrOnce g) (rg_shutDownOnce g) g"
      by (simp_all add: move_frame [OF assms(1)])
    from that [OF g'] ph p fl show thesis by (simp add: proc_ok_def)
  next
    case (AReturn j r)
    then have "fp_phase ?p = PRun"
      "g' = g\<lparr>rg_procs := (rg_procs g)[i := ?p\<lparr>fp_phase := case r of None \<Rightarrow> PReturned None | Some e \<Rightarrow> PFailed e\<rparr>]\<rparr>"
      using assms(3) by (auto simp: fn_step_def on_proc_def split: fn_phase.splits)
    then have ph: "fp_phase ?p = PRun" and g': "g' = move i (?p\<lparr>fp_phase := case r of None \<Rightarrow> PReturned None | Some e \<Rightarrow> PFailed e\<rparr>) (rg_wg g) (rg_readyWg g) (rg_err g) (rg_notifyErrOnce g) (rg_shutDownOnce g) g"
      by (simp_all add: move_frame [OF assms(1)])
    from that [OF g'] ph p fl show thesis by (cases r) (simp_all add: proc_ok_def)
  next
    case (ASetErr j)
    with assms(3) obtain e where e: "fp_phase ?p = PFailed e" "g' = on_proc i (\<lambda>p. p\<lparr>fp_phase := PNotify e\<rparr>)
        (if rg_notifyErrOnce g then g else g\<lparr>rg_notifyErrOnce := True, rg_err := Some e\<rparr>)"
      by (auto simp: fn_step_def split: fn_phase.splits)
    let ?err = "if rg_notifyErrOnce g then rg_err g else Some e"
    have "g' = move i (?p\<lparr>fp_phase := PNotify e\<rparr>) (rg_wg g) (rg_readyWg g) ?err True (rg_shutDownOnce g) g"
      using e(2) fl by (auto simp: move_def on_proc_def)
    from that [OF this] e(1) p fl show thesis by (auto simp: proc_ok_def)
  next
    case (ANotify j)
    with assms(3) obtain e where e: "fp_phase ?p = PNotify e" "g' = on_proc i (\<lambda>p. p\<lparr>fp_phase := PReturned (Some e)\<rparr>) (rg_notifyShutDown g)"
      by (auto simp: fn_step_def split: fn_phase.splits)
    have "g' = move i (?p\<lparr>fp_phase := PReturned (Some e)\<rparr>) (rg_wg g) (rg_readyWg g) (rg_err g) (rg_notifyErrOnce g) True g"
      using e(2) fl by (auto simp: move_def on_proc_def rg_notifyShutDown_def)
    from that [OF this] e(1) p fl show thesis by (auto simp: proc_ok_def)
  next
    case (AMakeReady j)
    with assms(3) obtain r where "fp_phase ?p = PReturned r" "g' = g\<lparr>rg_procs := (rg_procs g)[i := ?p\<lparr>fp_ready := True, fp_phase := PReady r\<rparr>]\<rparr>"
      by (auto simp: fn_step_def on_proc_def opts_Ready_def split: fn_phase.splits)
    then have ph: "fp_phase ?p = PReturned r" and g': "g' = move i (?p\<lparr>fp_ready := True, fp_phase := PReady r\<rparr>) (rg_wg g) (rg_readyWg g) (rg_err g) (rg_notifyErrOnce g) (rg_shutDownOnce g) g"
      by (simp_all add: move_frame [OF assms(1)])
    from that [OF g'] ph p fl show thesis by (auto simp: proc_ok_def)
  next
    case (ADone j)
    with assms(3) obtain r where e: "fp_phase ?p = PReady r"
        "g' = on_proc i (\<lambda>p. p\<lparr>fp_phase := PEnd r\<rparr>) (g\<lparr>rg_wg := rg_wg g - 1\<rparr>)"
      by (auto simp: fn_step_def split: fn_phase.splits)
    have "g' = move i (?p\<lparr>fp_phase := PEnd r\<rparr>) (rg_wg g - 1) (rg_readyWg g) (rg_err g) (rg_notifyErrOnce g) (rg_shutDownOnce g) g"
      using e(2) fl by (auto simp: move_def on_proc_def)
    from that [OF this] e(1) p fl show thesis by (auto simp: proc_ok_def)
  qed (use assms in \<open>auto simp: fn_step_def split: fn_phase.splits\<close>)
  show ?thesis unfolding g' using w [OF run] by (intro move_inv [OF assms(1,2) _ q ws err]) simp
qed

lemma watch_step_inv:
  assumes "rg_inv n g" "i < length (rg_procs g)" "watch_step i g = Some g'"
  shows "rg_inv n g'"
proof -
  let ?p = "rg_procs g ! i"
  have p: "proc_ok (rg_err g) ?p" and r: "rg_run g \<noteq> RunIdle" using assms(1,2) by (auto simp: rg_inv_def split: if_splits)
  have fl: "rg_shuttingDown g = rg_shutDownOnce g" "rg_stopping g = rg_shutDownOnce g" "rg_notifyErrOnce g \<longleftrightarrow> rg_err g \<noteq> None"
    "\<not> rg_panicked g" "rg_readyWg g = int n - count_if fp_watched (rg_procs g)"
    using assms(1) by (simp_all add: rg_inv_def)
  have w: "fp_ready ?p" "\<not> fp_watched ?p" using assms(3) by (auto simp: watch_step_def Let_def split: if_splits)
  then have "0 < rg_readyWg g" using count_if_less [OF assms(2), of fp_watched] assms(1) r by (auto simp: rg_inv_def)
  then have g': "g' = move i (?p\<lparr>fp_watched := True\<rparr>) (rg_wg g) (rg_readyWg g - 1) (rg_err g) (rg_notifyErrOnce g) (rg_shutDownOnce g) g"
    using assms(3) fl w by (auto simp: watch_step_def Let_def move_def on_proc_def)
  show ?thesis unfolding g' using p fl w by (intro move_inv [OF assms(1,2)]) (auto simp: proc_ok_def)
qed

lemma rg_do_inv:
  assumes "rg_inv n g" "rg_do act g = Some g'"
  shows "rg_inv n g'"
proof (cases act)
  case ARun
  with assms show ?thesis
    by (auto simp: rg_do_def rg_Run_def rg_inv_def count_if_replicate proc_ok_def reported_def split: if_splits)
next
  case AFinish
  with assms show ?thesis by (auto simp: rg_do_def rg_finish_def rg_inv_def split: if_splits)
next
  case AStop
  with assms show ?thesis by (auto simp: rg_do_def rg_Stop_def rg_inv_def rg_notifyShutDown_def split: if_splits)
next
  case AStopped
  with assms show ?thesis by (auto simp: rg_do_def rg_stop_wait_def rg_inv_def split: if_splits)
next
  case (AWatch i)
  with assms watch_step_inv show ?thesis by (auto simp: rg_do_def split: if_splits)
qed (use assms fn_step_inv in \<open>auto simp: rg_do_def split: if_splits\<close>)

lemma rg_reach_inv: "rg_reach n g \<Longrightarrow> rg_inv n g"
  by (induction rule: rg_reach.induct) (auto intro: rg_inv_start rg_do_inv)

section \<open>What \<open>Run\<close> and \<open>Ready\<close> return\<close>

lemma ended_iff: "ended ph \<longleftrightarrow> (\<exists>r. ph = PEnd r)"
  by (cases ph) auto

lemma run_result:
  assumes "rg_reach n g" "rg_run g = RunReturned r"
  shows "length (rg_procs g) = n \<and> \<not> rg_panicked g \<and> rg_stopped g \<and> (\<forall>p\<in>set (rg_procs g). \<exists>x. fp_phase p = PEnd x) \<and>
    (r = None \<longleftrightarrow> (\<forall>p\<in>set (rg_procs g). fp_phase p = PEnd None)) \<and>
    (\<forall>e. r = Some e \<longrightarrow> (\<exists>p\<in>set (rg_procs g). fp_phase p = PEnd (Some e)))"
proof -
  have inv: "rg_inv n g" by (rule rg_reach_inv [OF assms(1)])
  have l: "length (rg_procs g) = n" "\<not> rg_panicked g" "rg_stopped g" "r = rg_err g" "rg_wg g = 0"
    and ok: "\<forall>p\<in>set (rg_procs g). proc_ok (rg_err g) p" and rep: "reported (rg_err g) (rg_procs g)"
    using inv assms(2) by (auto simp: rg_inv_def)
  have e: "\<forall>p\<in>set (rg_procs g). \<exists>x. fp_phase p = PEnd x"
    using inv l(5) assms(2) by (simp add: rg_inv_def count_if_zero ended_iff)
  have some: "\<exists>p\<in>set (rg_procs g). fp_phase p = PEnd (Some x)" if x: "r = Some x" for x
  proof -
    from rep x l(4) obtain i where i: "i < length (rg_procs g)" "returned (fp_phase (rg_procs g ! i)) = Some (Some x)"
      by (auto simp: reported_def)
    then have "rg_procs g ! i \<in> set (rg_procs g)" by simp
    with e i(2) show ?thesis by (metis returned.simps(6) option.inject)
  qed
  have "\<forall>p\<in>set (rg_procs g). fp_phase p = PEnd None" if "r = None"
  proof
    fix p assume p: "p \<in> set (rg_procs g)"
    with e obtain x where x: "fp_phase p = PEnd x" by blast
    from ok p that l(4) have "proc_ok None p" by simp
    with x show "fp_phase p = PEnd None" by (cases x) (simp_all add: proc_ok_def)
  qed
  moreover have "r = None" if "\<forall>p\<in>set (rg_procs g). fp_phase p = PEnd None"
    using some that by (cases r) fastforce+
  ultimately show ?thesis using l(1-3) e some by blast
qed

text \<open>C30: 
  When \<open>Run\<close> returns, every function has returned. It returns nil exactly when all of them did, and otherwise an error that one of them
  returned.
\<close>

theorem run_group_result:
  assumes "rg_reach n g" "rg_run g = RunReturned r"
  shows "length (rg_procs g) = n \<and> \<not> rg_panicked g \<and> rg_stopped g \<and> (\<forall>p\<in>set (rg_procs g). \<exists>x. fp_phase p = PEnd x) \<and>
    (r = None \<longleftrightarrow> (\<forall>p\<in>set (rg_procs g). fp_phase p = PEnd None)) \<and>
    (\<forall>e. r = Some e \<longrightarrow> (\<exists>p\<in>set (rg_procs g). fp_phase p = PEnd (Some e)))"
  by (rule run_result [OF assms])

text \<open>
  \<open>Ready\<close> returns only when every function has called \<open>Ready\<close> or returned; it returns nil only if no error was recorded and the group is
  not shutting down.
\<close>

lemma ready_result:
  assumes "rg_reach n g" "rg_Ready g = Some r" "0 < n"
  shows "(\<forall>p\<in>set (rg_procs g). fp_ready p) \<and> length (rg_procs g) = n \<and> (r = Ok () \<longleftrightarrow> rg_err g = None \<and> \<not> rg_stopping g)"
proof -
  have inv: "rg_inv n g" by (rule rg_reach_inv [OF assms(1)])
  have z: "rg_readyWg g = 0" using assms(2) by (auto simp: rg_Ready_def split: if_splits)
  then have c: "count_if fp_watched (rg_procs g) = int n" using inv by (simp add: rg_inv_def)
  have l: "length (rg_procs g) = n" using inv c assms(3) by (auto simp: rg_inv_def split: if_splits)
  have "\<forall>p\<in>set (rg_procs g). fp_watched p" using count_if_all [of fp_watched "rg_procs g"] c l by simp
  then have "\<forall>p\<in>set (rg_procs g). fp_ready p" using inv by (auto simp: rg_inv_def proc_ok_def)
  moreover have "r = Ok () \<longleftrightarrow> rg_err g = None \<and> \<not> rg_stopping g"
    using assms(2) z inv by (auto simp: rg_Ready_def rg_inv_def split: option.splits if_splits)
  ultimately show ?thesis using l by blast
qed

section \<open>Every run ends\<close>

fun rg_acts :: "rg_action list \<Rightarrow> run_group \<Rightarrow> run_group option" where
  "rg_acts [] g = Some g"
| "rg_acts (a # as) g = (case rg_do a g of None \<Rightarrow> None | Some g' \<Rightarrow> rg_acts as g')"

lemma rg_acts_reach: "rg_reach n g \<Longrightarrow> rg_acts as g = Some g' \<Longrightarrow> rg_reach n g'"
  by (induction as arbitrary: g) (auto split: option.splits intro: reach_step)

fun phase_weight :: "fn_phase \<Rightarrow> nat" where
  "phase_weight PRun = 5"
| "phase_weight (PFailed e) = 4"
| "phase_weight (PNotify e) = 3"
| "phase_weight (PReturned r) = 2"
| "phase_weight (PReady r) = 1"
| "phase_weight (PEnd r) = 0"

definition proc_weight :: "fn_proc \<Rightarrow> nat" where
  "proc_weight p = phase_weight (fp_phase p) + of_bool (\<not> fp_ready p) + of_bool (\<not> fp_watched p)"

definition weight :: "run_group \<Rightarrow> nat" where
  "weight g = sum_list (map proc_weight (rg_procs g)) +
     (case rg_run g of RunIdle \<Rightarrow> 7 * rg_fns g + 2 | RunWaiting \<Rightarrow> 1 | RunReturned r \<Rightarrow> 0) +
     (case rg_stop g of StopIdle \<Rightarrow> 2 | StopWaiting \<Rightarrow> 1 | StopReturned \<Rightarrow> 0)"

lemma proc_weight_less:
  assumes "i < length (rg_procs g)" "proc_weight q < proc_weight (rg_procs g ! i)"
  shows "sum_list (map proc_weight ((rg_procs g)[i := q])) < sum_list (map proc_weight (rg_procs g))"
proof -
  have "proc_weight (rg_procs g ! i) \<le> sum_list (map proc_weight (rg_procs g))"
    using elem_le_sum_list [of i "map proc_weight (rg_procs g)"] assms(1) by simp
  then have "sum_list (map proc_weight ((rg_procs g)[i := q])) + proc_weight (rg_procs g ! i) = sum_list (map proc_weight (rg_procs g)) + proc_weight q"
    using assms(1) by (simp add: map_update sum_list_update)
  with assms(2) show ?thesis by simp
qed

lemma rg_do_weight:
  assumes "rg_inv n g" "rg_do act g = Some g'"
  shows "weight g' < weight g"
proof -
  have fn: "weight g' < weight g" if i: "i < length (rg_procs g)" and r: "rg_run g' = rg_run g" "rg_stop g' = rg_stop g" "rg_fns g' = rg_fns g"
    and ps: "rg_procs g' = (rg_procs g)[i := q]" "proc_weight q < proc_weight (rg_procs g ! i)" for i q
    using proc_weight_less [OF i ps(2)] by (simp add: weight_def r ps(1) split: run_phase.split)
  show ?thesis
  proof (cases act)
    case ARun
    with assms show ?thesis
      by (auto simp: rg_do_def rg_Run_def rg_inv_def weight_def proc_weight_def sum_list_replicate split: if_splits)
  next
    case AFinish
    with assms show ?thesis by (auto simp: rg_do_def rg_finish_def weight_def split: if_splits stop_phase.split)
  next
    case AStop
    with assms show ?thesis by (auto simp: rg_do_def rg_Stop_def weight_def rg_notifyShutDown_def split: if_splits run_phase.split)
  next
    case AStopped
    with assms show ?thesis by (auto simp: rg_do_def rg_stop_wait_def weight_def split: if_splits run_phase.split)
  next
    case (AWatch i)
    with assms show ?thesis
      by (intro fn [of i "(rg_procs g ! i)\<lparr>fp_watched := True\<rparr>"])
         (auto simp: rg_do_def watch_step_def Let_def on_proc_def proc_weight_def split: if_splits)
  next
    case (ACallReady i)
    with assms show ?thesis
      by (intro fn [of i "opts_Ready (rg_procs g ! i)"])
         (auto simp: rg_do_def fn_step_def action_index_def on_proc_def opts_Ready_def proc_weight_def split: if_splits fn_phase.splits)
  next
    case (AReturn i r)
    with assms show ?thesis
      by (intro fn [of i "(rg_procs g ! i)\<lparr>fp_phase := case r of None \<Rightarrow> PReturned None | Some e \<Rightarrow> PFailed e\<rparr>"])
         (auto simp: rg_do_def fn_step_def action_index_def on_proc_def proc_weight_def split: if_splits fn_phase.splits option.splits)
  next
    case (ASetErr i)
    with assms obtain e where "i < length (rg_procs g)" "fp_phase (rg_procs g ! i) = PFailed e"
        "g' = on_proc i (\<lambda>p. p\<lparr>fp_phase := PNotify e\<rparr>) (if rg_notifyErrOnce g then g else g\<lparr>rg_notifyErrOnce := True, rg_err := Some e\<rparr>)"
      by (auto simp: rg_do_def fn_step_def action_index_def split: if_splits fn_phase.splits)
    then show ?thesis
      by (intro fn [of i "(rg_procs g ! i)\<lparr>fp_phase := PNotify e\<rparr>"]) (auto simp: on_proc_def proc_weight_def)
  next
    case (ANotify i)
    with assms obtain e where "i < length (rg_procs g)" "fp_phase (rg_procs g ! i) = PNotify e"
        "g' = on_proc i (\<lambda>p. p\<lparr>fp_phase := PReturned (Some e)\<rparr>) (rg_notifyShutDown g)"
      by (auto simp: rg_do_def fn_step_def action_index_def split: if_splits fn_phase.splits)
    then show ?thesis
      by (intro fn [of i "(rg_procs g ! i)\<lparr>fp_phase := PReturned (Some e)\<rparr>"])
         (auto simp: on_proc_def proc_weight_def rg_notifyShutDown_def)
  next
    case (AMakeReady i)
    with assms obtain r where "i < length (rg_procs g)" "fp_phase (rg_procs g ! i) = PReturned r"
        "g' = on_proc i (set_phase (PReady r) \<circ> opts_Ready) g"
      by (auto simp: rg_do_def fn_step_def action_index_def split: if_splits fn_phase.splits)
    then show ?thesis
      by (intro fn [of i "set_phase (PReady r) (opts_Ready (rg_procs g ! i))"]) (auto simp: on_proc_def proc_weight_def opts_Ready_def)
  next
    case (ADone i)
    with assms obtain r where "i < length (rg_procs g)" "fp_phase (rg_procs g ! i) = PReady r"
        "g' = on_proc i (set_phase (PEnd r)) (g\<lparr>rg_wg := rg_wg g - 1\<rparr>)"
      by (auto simp: rg_do_def fn_step_def action_index_def split: if_splits fn_phase.splits)
    then show ?thesis
      by (intro fn [of i "set_phase (PEnd r) (rg_procs g ! i)"]) (auto simp: on_proc_def proc_weight_def)
  qed
qed

lemma rg_acts_weight: "rg_inv n g \<Longrightarrow> rg_acts as g = Some g' \<Longrightarrow> length as + weight g' \<le> weight g"
proof (induction as arbitrary: g)
  case (Cons a as)
  then obtain h where h: "rg_do a g = Some h" "rg_acts as h = Some g'" by (auto split: option.splits)
  from Cons.IH [OF rg_do_inv [OF Cons.prems(1) h(1)] h(2)] rg_do_weight [OF Cons.prems(1) h(1)] show ?case by simp
qed simp

text \<open>A state in which no goroutine can move is one where everything has ended.\<close>

lemma stuck_ended:
  assumes inv: "rg_inv n g" and stuck: "\<forall>act. rg_do act g = None"
  shows "(\<exists>r. rg_run g = RunReturned r) \<and> rg_stop g = StopReturned \<and> rg_Ready g \<noteq> None"
proof -
  have "rg_run g \<noteq> RunIdle" using stuck [rule_format, of ARun] by (simp add: rg_do_def rg_Run_def split: if_splits)
  then have run: "length (rg_procs g) = n" "rg_wg g = count_if (\<lambda>p. \<not> ended (fp_phase p)) (rg_procs g)" using inv by (auto simp: rg_inv_def)
  have pe: "ended (fp_phase (rg_procs g ! i)) \<and> fp_watched (rg_procs g ! i)" if i: "i < length (rg_procs g)" for i
  proof
    show e: "ended (fp_phase (rg_procs g ! i))"
    proof (cases "fp_phase (rg_procs g ! i)")
      case PRun
      then show ?thesis using stuck [rule_format, of "AReturn i None"] i by (simp add: rg_do_def fn_step_def action_index_def)
    next
      case (PFailed e)
      then show ?thesis using stuck [rule_format, of "ASetErr i"] i by (simp add: rg_do_def fn_step_def action_index_def)
    next
      case (PNotify e)
      then show ?thesis using stuck [rule_format, of "ANotify i"] i by (simp add: rg_do_def fn_step_def action_index_def)
    next
      case (PReturned r)
      then show ?thesis using stuck [rule_format, of "AMakeReady i"] i by (simp add: rg_do_def fn_step_def action_index_def)
    next
      case (PReady r)
      then show ?thesis using stuck [rule_format, of "ADone i"] i by (simp add: rg_do_def fn_step_def action_index_def)
    qed simp
    have "proc_ok (rg_err g) (rg_procs g ! i)" using inv i by (simp add: rg_inv_def)
    then have "fp_ready (rg_procs g ! i)" using e by (auto simp: proc_ok_def ended_iff)
    then show "fp_watched (rg_procs g ! i)"
      using stuck [rule_format, of "AWatch i"] i by (simp add: rg_do_def watch_step_def Let_def split: if_splits)
  qed
  then have all: "\<forall>p\<in>set (rg_procs g). ended (fp_phase p)" "\<forall>p\<in>set (rg_procs g). fp_watched p" by (metis in_set_conv_nth)+
  then have "rg_wg g = 0" using run(2) by (simp add: count_if_zero)
  then have "\<exists>r. rg_run g = RunReturned r"
    using stuck [rule_format, of AFinish] \<open>rg_run g \<noteq> RunIdle\<close> by (cases "rg_run g") (simp_all add: rg_do_def rg_finish_def)
  moreover from this have "rg_stopped g" using inv by (auto simp: rg_inv_def)
  then have "rg_stop g = StopReturned"
    using stuck [rule_format, of AStop] stuck [rule_format, of AStopped]
    by (cases "rg_stop g") (simp_all add: rg_do_def rg_Stop_def rg_stop_wait_def)
  moreover have "rg_readyWg g = 0" using inv all(2) run(1) count_if_all [of fp_watched "rg_procs g"] by (simp add: rg_inv_def)
  then have "rg_Ready g \<noteq> None" by (simp add: rg_Ready_def)
  ultimately show ?thesis by blast
qed

text \<open>C31: 
  However the goroutines of a group of \<open>n\<close> functions are interleaved, they take at most \<open>7 * n + 4\<close> steps, and as long as \<open>Run\<close>, \<open>Stop\<close> or
  \<open>Ready\<close> has not returned some goroutine can move; a function that does not return is one whose step is not taken.
\<close>

theorem run_group_ends:
  assumes "rg_acts as (group_of n) = Some g"
  shows "length as \<le> 7 * n + 4 \<and>
    ((\<exists>r. rg_run g = RunReturned r) \<and> rg_stop g = StopReturned \<and> rg_Ready g \<noteq> None \<or> (\<exists>act. rg_do act g \<noteq> None))"
proof
  have "weight (group_of n) = 7 * n + 4" by (simp add: weight_def group_of_eq NewRunGroup_def)
  with rg_acts_weight [OF rg_inv_start assms] show "length as \<le> 7 * n + 4" by simp
  show "(\<exists>r. rg_run g = RunReturned r) \<and> rg_stop g = StopReturned \<and> rg_Ready g \<noteq> None \<or> (\<exists>act. rg_do act g \<noteq> None)"
    using stuck_ended [OF rg_reach_inv [OF rg_acts_reach [OF reach_start assms]]] by blast
qed

section \<open>Runs of a group\<close>

definition demo_acts :: "rg_action list" where
  "demo_acts = [ARun, ACallReady 0, AReturn 1 (Some EInterrupted), AWatch 0, ASetErr 1, ANotify 1, AStop, AReturn 0 None, AMakeReady 0,
     ADone 0, AMakeReady 1, AWatch 1, ADone 1, AFinish, AStopped]"

definition demo_group :: run_group where
  "demo_group = the (rg_acts demo_acts (group_of 2))"

lemma demo_group: "rg_acts demo_acts (group_of 2) = Some demo_group" "rg_run demo_group = RunReturned (Some EInterrupted)"
proof -
  have "rg_acts demo_acts (group_of 2) \<noteq> None" "rg_run demo_group = RunReturned (Some EInterrupted)" by code_simp+
  then show "rg_acts demo_acts (group_of 2) = Some demo_group" "rg_run demo_group = RunReturned (Some EInterrupted)"
    by (auto simp: demo_group_def)
qed

theorem run_group_result_witness:
  "list_ex (\<lambda>p. fp_phase p = PEnd (Some EInterrupted)) (rg_procs demo_group) \<and> \<not> rg_panicked demo_group"
  using run_group_result [OF rg_acts_reach [OF reach_start demo_group(1)] demo_group(2)] by (simp add: list_ex_iff)

theorem run_group_ends_witness: "length demo_acts \<le> 18 \<and> (rg_stop demo_group = StopReturned \<or> (\<exists>act. rg_do act demo_group \<noteq> None))"
  using run_group_ends [OF demo_group(1)] by auto

text \<open>Functions handed to \<open>NewRunGroup\<close> are not counted in \<open>readyWg\<close>: the first one that becomes ready makes the wait group panic.\<close>

lemma new_run_group_panics: "map_option rg_panicked (rg_acts [ARun, ACallReady 0, AWatch 0] (NewRunGroup 1)) = Some True"
  by code_simp

end
