(* ===== verification/Task_Lifecycle.thy ===== *)
theory Task_Lifecycle
  imports Task Run_Group Assigner
begin

text \<open>
  The life of a task, \<open>src/streams/tasks/ktask.go\<close>: options, restoring, initialisation, and the goroutines that move records from
  the claims of the consumer through the bounded channel \<open>dataChan\<close> into the processing loop until the task is stopped. The
  goroutines are a state machine of the same kind as \<open>Run_Group\<close>; the body of the processing loop is \<open>task_step\<close>.
\<close>

section \<open>Options\<close>

record 'w task_options =
  to_FlushInterval :: int
  to_Size :: int
  to_failedMessageHandler :: "gerror \<Rightarrow> krecord \<Rightarrow> 'w \<Rightarrow> 'w"
  to_taskInterceptorBuilder :: "string option"

type_synonym 'w task_opt = "'w task_options \<Rightarrow> 'w task_options"

text \<open>One second is \<open>10 ^ 9\<close> nanoseconds.\<close>

definition to_setDefault :: "'w task_options \<Rightarrow> 'w task_options" where
  "to_setDefault t = t\<lparr>to_FlushInterval := 1000000000, to_Size := 1000, to_failedMessageHandler := (\<lambda>_ _ w. w)\<rparr>"

definition to_apply :: "'w task_opt list \<Rightarrow> 'w task_options \<Rightarrow> 'w task_options" where
  "to_apply opts t = fold (\<lambda>opt. opt) opts t"

definition WithBufferFlushInterval :: "int \<Rightarrow> 'w task_opt" where
  "WithBufferFlushInterval d t = t\<lparr>to_FlushInterval := d\<rparr>"

definition WithBufferSize :: "int \<Rightarrow> 'w task_opt" where
  "WithBufferSize n t = t\<lparr>to_Size := n\<rparr>"

definition WithFailedMessageHandler :: "(gerror \<Rightarrow> krecord \<Rightarrow> 'w \<Rightarrow> 'w) \<Rightarrow> 'w task_opt" where
  "WithFailedMessageHandler h t = t\<lparr>to_failedMessageHandler := h\<rparr>"

definition WithTaskInterceptorBuilder :: "string option \<Rightarrow> 'w task_opt" where
  "WithTaskInterceptorBuilder b t = t\<lparr>to_taskInterceptorBuilder := b\<rparr>"

section \<open>Restoring and initialising\<close>

text \<open>
  \<open>Restore\<close> adds the changelog syncer of each store to the run group, runs the group (\<open>Sync\<close>) and asks whether it is ready; \<open>None\<close> while
  it blocks.
\<close>

definition task_Sync :: "run_group \<Rightarrow> unit res option" where
  "task_Sync g = (case rg_run g of RunReturned (Some e) \<Rightarrow> Some (Err e) | RunReturned None \<Rightarrow> Some (Ok ()) | _ \<Rightarrow> None)"

definition task_Ready :: "run_group \<Rightarrow> unit res option" where
  "task_Ready g = rg_Ready g"

definition task_Restore :: "task_id \<Rightarrow> run_group \<Rightarrow> unit res option" where
  "task_Restore tid g = (case task_Sync g of
      None \<Rightarrow> None
    | Some (Ok _) \<Rightarrow>
        map_option (wrap_res (''state restore error occurred while waiting for task to be ready. TaskId:'' @ tid_String tid)) (task_Ready g)
    | Some r \<Rightarrow> Some (wrap_res (''state restore error. TaskId:'' @ tid_String tid) r))"

text \<open>\<open>Init\<close> starts the processing loop when it succeeds.\<close>

definition task_Init :: "('w, 'm) task_env \<Rightarrow> ('w \<Rightarrow> unit res \<times> 'w) \<Rightarrow> task_id \<Rightarrow> 'w task \<Rightarrow> (unit res \<times> 'w task) option" where
  "task_Init env initSub tid t =
     (case wrapR (''sub-topology init failed. TaskId:'' @ tid_String tid) initSub (tk_world t) of
        (Ok _, w) \<Rightarrow> map_option (\<lambda>(r, b, w). (wrap_res ''commitBuffer init failed'' r, t\<lparr>tk_buffer := b, tk_world := w\<rparr>))
          (buf_Init env (tk_buffer t, w))
      | (r, w) \<Rightarrow> Some (r, t\<lparr>tk_world := w\<rparr>))"

text \<open>A task that is restored has every store in step with its changelog, and nobody has stopped it meanwhile.\<close>

lemma restored:
  assumes "rg_reach n g" "task_Restore tid g = Some (Ok ())"
  shows "length (rg_procs g) = n \<and> (\<forall>p\<in>set (rg_procs g). fp_phase p = PEnd None) \<and> \<not> rg_stopping g"
proof -
  have r: "rg_run g = RunReturned None" and y: "rg_Ready g = Some (Ok ())"
    using assms(2) by (auto simp: task_Restore_def task_Sync_def task_Ready_def split: run_phase.splits option.splits)
  have "rg_inv n g" by (rule rg_reach_inv [OF assms(1)])
  then have "\<not> rg_stopping g" using y by (auto simp: rg_inv_def rg_Ready_def split: if_splits option.splits)
  with run_result [OF assms(1) r] show ?thesis by simp
qed

section \<open>The goroutines of a running task\<close>

text \<open>
  A claim is the stream of records of one topic partition; \<open>Start\<close> forwards it. \<open>cl_records\<close> are the records still to come,
  after which the stream is closed if \<open>cl_closed\<close>; \<open>cl_signal\<close>: the token is in the channel \<open>stopping\<close> of the loop.
\<close>

datatype loop_phase = LoopIdle | LoopSelect | LoopSending krecord | LoopDone

record claim =
  cl_records :: "krecord list"
  cl_closed :: bool
  cl_phase :: loop_phase
  cl_signal :: bool

text \<open>The stages of \<open>shutdown\<close>, each named after what is done.\<close>

datatype shutdown_phase = SdIdle | SdMarked | SdSubClosed | SdChangelogsStopped | SdSignalled | SdLoopStopped | SdBufferClosed
  | SdStoresClosed | SdClosed

text \<open>
  \<open>lf_dataChan\<close> holds each record with the position of its claim, and \<open>lf_inputs\<close> the inputs the loop has handled, in order; the
  code keeps neither the positions nor the list. \<open>lf_panic\<close>: the program has panicked with this message.
\<close>

record 'w life =
  lf_task :: "'w task"
  lf_claims :: "claim list"
  lf_dataChan :: "(nat \<times> trecord) list"
  lf_dataChanClosed :: bool
  lf_consumerLoops :: int
  lf_processingStopping :: bool
  lf_mainStopping :: bool
  lf_processingLoopStopped :: bool
  lf_changelogsStopped :: bool
  lf_shutdown :: shutdown_phase
  lf_inputs :: "(nat \<times> task_input) list"
  lf_panic :: "string option"

definition dataChan_cap :: nat where
  "dataChan_cap = 10"

definition on_claim :: "nat \<Rightarrow> (claim \<Rightarrow> claim) \<Rightarrow> 'w life \<Rightarrow> 'w life" where
  "on_claim i f s = s\<lparr>lf_claims := (lf_claims s)[i := f (lf_claims s ! i)]\<rparr>"

datatype life_action = LStart nat | LReceive nat | LEnd nat | LSend nat | LSignal nat | LBreak nat | LWaited | LTake | LTick | LMainBreak
  | LShutdown

text \<open>The message loop of a claim.\<close>

definition claim_step :: "life_action \<Rightarrow> nat \<Rightarrow> 'w life \<Rightarrow> 'w life option" where
  "claim_step act i s =
     (let c = lf_claims s ! i in case (act, cl_phase c) of
        (LStart _, LoopIdle) \<Rightarrow> Some (on_claim i (\<lambda>c. c\<lparr>cl_phase := LoopSelect\<rparr>) (s\<lparr>lf_consumerLoops := lf_consumerLoops s + 1\<rparr>))
      | (LReceive _, LoopSelect) \<Rightarrow> (case cl_records c of
            [] \<Rightarrow> None
          | r # rs \<Rightarrow> Some (on_claim i (\<lambda>c. c\<lparr>cl_phase := LoopSending r, cl_records := rs\<rparr>) s))
      | (LEnd _, LoopSelect) \<Rightarrow>
          if cl_records c = [] \<and> cl_closed c
          then Some (on_claim i (\<lambda>c. c\<lparr>cl_phase := LoopDone\<rparr>) (s\<lparr>lf_consumerLoops := lf_consumerLoops s - 1\<rparr>)) else None
      | (LSend _, LoopSending r) \<Rightarrow>
          if lf_dataChanClosed s then Some (s\<lparr>lf_panic := Some ''send on closed channel''\<rparr>)
          else if length (lf_dataChan s) < dataChan_cap
          then Some (on_claim i (\<lambda>c. c\<lparr>cl_phase := LoopSelect\<rparr>) (s\<lparr>lf_dataChan := lf_dataChan s @ [(i, NewTaskRecord r)]\<rparr>))
          else None
      | (LBreak _, LoopSelect) \<Rightarrow>
          if cl_signal c
          then Some (on_claim i (\<lambda>c. c\<lparr>cl_phase := LoopDone\<rparr>) (s\<lparr>lf_consumerLoops := lf_consumerLoops s - 1\<rparr>)) else None
      | (LSignal _, _) \<Rightarrow>
          if lf_processingStopping s \<and> \<not> cl_signal c \<and> cl_phase c \<noteq> LoopIdle then Some (on_claim i (\<lambda>c. c\<lparr>cl_signal := True\<rparr>) s) else None
      | _ \<Rightarrow> None)"

text \<open>The processing loop handles an input with \<open>task_step\<close>, which may not return.\<close>

definition main_step :: "('w, 'm) task_env \<Rightarrow> nat \<times> task_input \<Rightarrow> 'w life \<Rightarrow> 'w life option" where
  "main_step env inp s = (case task_step env (snd inp) (lf_task s) of
      None \<Rightarrow> None
    | Some (Panic p, t) \<Rightarrow> Some (s\<lparr>lf_task := t, lf_panic := Some p\<rparr>)
    | Some (_, t) \<Rightarrow> Some (s\<lparr>lf_task := t, lf_inputs := lf_inputs s @ [inp]\<rparr>))"

record ('w, 'm) life_env =
  le_task :: "('w, 'm) task_env"
  le_closeSub :: "'w \<Rightarrow> unit res \<times> 'w"
  le_closeStore :: "string \<Rightarrow> 'w \<Rightarrow> unit res \<times> 'w"

definition on_world :: "('w \<Rightarrow> 'w) \<Rightarrow> 'w life \<Rightarrow> 'w life" where
  "on_world f s = s\<lparr>lf_task := (lf_task s)\<lparr>tk_world := f (tk_world (lf_task s))\<rparr>\<rparr>"

text \<open>The next stage of \<open>shutdown\<close>; errors of the last three closings are logged only.\<close>

definition shutdown_step :: "('w, 'm) life_env \<Rightarrow> 'w life \<Rightarrow> 'w life option" where
  "shutdown_step env s = (let t = lf_task s; next = (\<lambda>ph s. Some (s\<lparr>lf_shutdown := ph\<rparr>)) in case lf_shutdown s of
      SdIdle \<Rightarrow> next SdMarked (s\<lparr>lf_task := t\<lparr>tk_buffer := buf_MarkAsCosing (tk_buffer t)\<rparr>\<rparr>)
    | SdMarked \<Rightarrow> (case le_closeSub env (tk_world t) of
          (Ok _, w) \<Rightarrow> next SdSubClosed (on_world (\<lambda>_. w) s)
        | (_, w) \<Rightarrow> Some ((on_world (\<lambda>_. w) s)\<lparr>lf_panic := Some ''sub-topology close error''\<rparr>))
    | SdSubClosed \<Rightarrow> if lf_changelogsStopped s then next SdChangelogsStopped s else None
    | SdChangelogsStopped \<Rightarrow> next SdSignalled (s\<lparr>lf_processingStopping := True\<rparr>)
    | SdSignalled \<Rightarrow> if lf_processingLoopStopped s then next SdLoopStopped s else None
    | SdLoopStopped \<Rightarrow> (case buf_Close (le_task env) (tk_buffer t, tk_world t) of
          (Panic p, b, w) \<Rightarrow> Some (s\<lparr>lf_task := t\<lparr>tk_buffer := b, tk_world := w\<rparr>, lf_panic := Some p\<rparr>)
        | (_, b, w) \<Rightarrow> next SdBufferClosed (s\<lparr>lf_task := t\<lparr>tk_buffer := b, tk_world := w\<rparr>\<rparr>))
    | SdBufferClosed \<Rightarrow> next SdStoresClosed (on_world (fold (\<lambda>n w. snd (le_closeStore env n w)) (te_stores (le_task env))) s)
    | SdStoresClosed \<Rightarrow> next SdClosed (on_world (\<lambda>w. snd (pr_Close (te_producer (le_task env)) w)) s)
    | SdClosed \<Rightarrow> None)"

definition life_index :: "life_action \<Rightarrow> nat" where
  "life_index act = (case act of LStart i \<Rightarrow> i | LReceive i \<Rightarrow> i | LEnd i \<Rightarrow> i | LSend i \<Rightarrow> i | LSignal i \<Rightarrow> i | LBreak i \<Rightarrow> i | _ \<Rightarrow> 0)"

definition lf_do :: "('w, 'm) life_env \<Rightarrow> life_action \<Rightarrow> 'w life \<Rightarrow> 'w life option" where
  "lf_do env act s = (if lf_panic s \<noteq> None then None else case act of
      LWaited \<Rightarrow> if lf_processingStopping s \<and> lf_consumerLoops s = 0 \<and> \<not> lf_mainStopping s then Some (s\<lparr>lf_mainStopping := True\<rparr>) else None
    | LTake \<Rightarrow> (case lf_dataChan s of
          [] \<Rightarrow> None
        | (i, r) # rest \<Rightarrow> if lf_processingLoopStopped s then None
            else main_step (le_task env) (i, TRecord r) (s\<lparr>lf_dataChan := rest\<rparr>))
    | LTick \<Rightarrow> if lf_processingLoopStopped s then None else main_step (le_task env) (0, TTick) s
    | LMainBreak \<Rightarrow> if lf_mainStopping s \<and> \<not> lf_processingLoopStopped s
        then Some (s\<lparr>lf_dataChanClosed := True, lf_processingLoopStopped := True\<rparr>) else None
    | LShutdown \<Rightarrow> shutdown_step env s
    | _ \<Rightarrow> if life_index act < length (lf_claims s) then claim_step act (life_index act) s else None)"

text \<open>A task that is restored and initialised, with the claims it will get.\<close>

definition life_of :: "(krecord list \<times> bool) list \<Rightarrow> 'w task \<Rightarrow> 'w life" where
  "life_of claims t = \<lparr>lf_task = t,
     lf_claims = map (\<lambda>(rs, closed). \<lparr>cl_records = rs, cl_closed = closed, cl_phase = LoopIdle, cl_signal = False\<rparr>) claims,
     lf_dataChan = [], lf_dataChanClosed = False, lf_consumerLoops = 0, lf_processingStopping = False, lf_mainStopping = False,
     lf_processingLoopStopped = False, lf_changelogsStopped = True, lf_shutdown = SdIdle, lf_inputs = [], lf_panic = None\<rparr>"

text \<open>The states a task gets to when \<open>Start\<close> is not called after it was told to stop.\<close>

inductive lf_reach :: "('w, 'm) life_env \<Rightarrow> (krecord list \<times> bool) list \<Rightarrow> 'w task \<Rightarrow> 'w life \<Rightarrow> bool" for env claims t0 where
  life_start: "lf_reach env claims t0 (life_of claims t0)"
| life_step: "lf_reach env claims t0 s \<Longrightarrow> lf_do env act s = Some s' \<Longrightarrow> (\<And>i. act = LStart i \<Longrightarrow> \<not> lf_processingStopping s)
    \<Longrightarrow> lf_reach env claims t0 s'"

section \<open>The processing loop\<close>

lemma reprocess_no_err: "reProcessCommitBuffer env rs t = Some (r, t') \<Longrightarrow> r \<noteq> Err e"
proof -
  assume "reProcessCommitBuffer env rs t = Some (r, t')"
  then have "case (r, t') of (r, _) \<Rightarrow> \<forall>e. r \<noteq> Err e"
    by (rule reProcessCommitBuffer.raw_induct [of "\<lambda>env rs t y. case y of (r, _) \<Rightarrow> \<forall>e. r \<noteq> Err e", rotated])
       (auto simp: Let_def split: if_splits option.splits prod.splits res.splits pass_result.splits; blast)
  then show ?thesis by simp
qed

lemma task_step_no_err: "task_step env inp t = Some (r, t') \<Longrightarrow> r \<noteq> Err e"
  by (auto simp: task_step_def split: task_input.splits prod.splits res.splits if_splits dest: reprocess_no_err)

lemma task_loop_snoc:
  assumes "task_loop env ins t = Some (Ok (), t1)" "TStop \<notin> set ins" "inp \<noteq> TStop" "task_step env inp t1 = Some (Ok (), t2)"
  shows "task_loop env (ins @ [inp]) t = Some (Ok (), t2)"
  using assms(1,2)
proof (induction ins arbitrary: t)
  case Nil
  with assms(3,4) show ?case by (cases inp) auto
next
  case (Cons i ins)
  then have "i \<noteq> TStop" by auto
  with Cons obtain t' where "task_step env i t = Some (Ok (), t')" "task_loop env ins t' = Some (Ok (), t1)"
    by (cases i) (auto split: option.splits prod.splits res.splits)
  with Cons.IH [of t'] Cons.prems(2) \<open>i \<noteq> TStop\<close> show ?case by (cases i) auto
qed

section \<open>No record is lost or reordered\<close>

definition queued :: "nat \<Rightarrow> (nat \<times> trecord) list \<Rightarrow> krecord list" where
  "queued i ch = map (tr_Record \<circ> snd) (filter (\<lambda>x. fst x = i) ch)"

definition taken :: "nat \<Rightarrow> (nat \<times> task_input) list \<Rightarrow> krecord list" where
  "taken i ins = concat (map (\<lambda>(j, inp). case inp of TRecord r \<Rightarrow> if j = i then [tr_Record r] else [] | _ \<Rightarrow> []) ins)"

definition in_hand :: "claim \<Rightarrow> krecord list" where
  "in_hand c = (case cl_phase c of LoopSending r \<Rightarrow> [r] | _ \<Rightarrow> [])"

fun active :: "loop_phase \<Rightarrow> bool" where
  "active LoopSelect = True"
| "active (LoopSending r) = True"
| "active _ = False"

definition flow :: "'w life \<Rightarrow> nat \<Rightarrow> krecord list" where
  "flow s i = taken i (lf_inputs s) @ queued i (lf_dataChan s) @ in_hand (lf_claims s ! i) @ cl_records (lf_claims s ! i)"

fun stage :: "shutdown_phase \<Rightarrow> nat" where
  "stage SdIdle = 8"
| "stage SdMarked = 7"
| "stage SdSubClosed = 6"
| "stage SdChangelogsStopped = 5"
| "stage SdSignalled = 4"
| "stage SdLoopStopped = 3"
| "stage SdBufferClosed = 2"
| "stage SdStoresClosed = 1"
| "stage SdClosed = 0"

definition lf_inv :: "('w, 'm) life_env \<Rightarrow> krecord list list \<Rightarrow> 'w task \<Rightarrow> 'w life \<Rightarrow> bool" where
  "lf_inv env rss t0 s \<longleftrightarrow> length (lf_claims s) = length rss \<and> (\<forall>i<length rss. flow s i = rss ! i) \<and>
     length (lf_dataChan s) \<le> dataChan_cap \<and>
     (lf_shutdown s = SdIdle \<longrightarrow> task_loop (le_task env) (map snd (lf_inputs s)) t0 = Some (Ok (), lf_task s)) \<and>
     TStop \<notin> snd ` set (lf_inputs s) \<and>
     lf_consumerLoops s = count_if (\<lambda>c. active (cl_phase c)) (lf_claims s) \<and>
     (lf_mainStopping s \<longrightarrow> lf_processingStopping s \<and> lf_consumerLoops s = 0) \<and>
     lf_dataChanClosed s = lf_processingLoopStopped s \<and> (lf_processingLoopStopped s \<longrightarrow> lf_mainStopping s) \<and>
     lf_changelogsStopped s \<and> (lf_processingStopping s \<longleftrightarrow> stage (lf_shutdown s) \<le> 4) \<and>
     (stage (lf_shutdown s) \<le> 3 \<longrightarrow> lf_processingLoopStopped s)"

lemma lf_inv_start: "lf_inv env (map fst claims) t0 (life_of claims t0)"
proof -
  have "flow (life_of claims t0) i = map fst claims ! i" if "i < length claims" for i
    using that by (simp add: flow_def life_of_def taken_def queued_def in_hand_def case_prod_unfold)
  moreover have "count_if (\<lambda>c. active (cl_phase c)) (lf_claims (life_of claims t0)) = 0"
    by (auto simp: count_if_zero life_of_def)
  ultimately show ?thesis by (simp add: lf_inv_def) (simp add: life_of_def)
qed

text \<open>A step of one claim that passes its records on unchanged.\<close>

lemma claim_moves:
  assumes inv: "lf_inv env rss t0 s" and i: "i < length (lf_claims s)"
    and s': "s' = s\<lparr>lf_claims := (lf_claims s)[i := c], lf_consumerLoops := k, lf_dataChan := lf_dataChan s @ q\<rparr>"
    and q: "\<forall>x\<in>set q. fst x = i" "map (tr_Record \<circ> snd) q @ in_hand c @ cl_records c = in_hand (lf_claims s ! i) @ cl_records (lf_claims s ! i)"
      "length (lf_dataChan s @ q) \<le> dataChan_cap"
    and k: "k = lf_consumerLoops s - of_bool (active (cl_phase (lf_claims s ! i))) + of_bool (active (cl_phase c))"
      "lf_mainStopping s \<Longrightarrow> k = 0"
  shows "lf_inv env rss t0 s'"
proof -
  have "flow s' j = flow s j" if "j < length (lf_claims s)" for j
  proof (cases "j = i")
    case True
    have "queued i (lf_dataChan s @ q) = queued i (lf_dataChan s) @ map (tr_Record \<circ> snd) q" using q(1) by (simp add: queued_def)
    then show ?thesis using i q(2) True by (simp add: flow_def s')
  next
    case False
    then have "filter (\<lambda>x. fst x = j) q = []" using q(1) by (auto simp: filter_empty_conv)
    then show ?thesis using False by (simp add: flow_def s' queued_def)
  qed
  moreover have "k = count_if (\<lambda>c. active (cl_phase c)) ((lf_claims s)[i := c])"
    using inv k(1) by (simp add: lf_inv_def count_if_update [OF i])
  ultimately show ?thesis using inv q(3) k(2) unfolding lf_inv_def by (auto simp: s')
qed

lemma active_now:
  assumes "lf_inv env rss t0 s" "i < length (lf_claims s)" "active (cl_phase (lf_claims s ! i))"
  shows "\<not> lf_mainStopping s" "\<not> lf_dataChanClosed s"
proof -
  have "lf_claims s ! i \<in> set (lf_claims s)" using assms(2) by simp
  then have "lf_consumerLoops s \<noteq> 0" using assms(1,3) by (auto simp: lf_inv_def count_if_zero)
  then show "\<not> lf_mainStopping s" "\<not> lf_dataChanClosed s" using assms(1) by (auto simp: lf_inv_def)
qed

lemma claim_step_inv:
  assumes inv: "lf_inv env rss t0 s" and i: "i < length (lf_claims s)" and st: "claim_step act i s = Some s'"
    and ok: "act = LStart i \<Longrightarrow> \<not> lf_processingStopping s" and ix: "life_index act = i"
  shows "lf_inv env rss t0 s' \<and> lf_panic s' = lf_panic s"
proof -
  let ?c = "lf_claims s ! i"
  have main: "lf_mainStopping s \<Longrightarrow> lf_processingStopping s \<and> lf_consumerLoops s = 0" using inv by (auto simp: lf_inv_def)
  note an = active_now [OF inv i]
  obtain c k q where "s' = s\<lparr>lf_claims := (lf_claims s)[i := c], lf_consumerLoops := k, lf_dataChan := lf_dataChan s @ q\<rparr>"
      "\<forall>x\<in>set q. fst x = i" "map (tr_Record \<circ> snd) q @ in_hand c @ cl_records c = in_hand ?c @ cl_records ?c"
      "length (lf_dataChan s @ q) \<le> dataChan_cap"
      "k = lf_consumerLoops s - of_bool (active (cl_phase ?c)) + of_bool (active (cl_phase c))" "lf_mainStopping s \<Longrightarrow> k = 0"
  proof (cases act)
    case (LStart j)
    with ix have j: "j = i" by (simp add: life_index_def)
    with LStart st have ph: "cl_phase ?c = LoopIdle"
        and s': "s' = on_claim i (\<lambda>c. c\<lparr>cl_phase := LoopSelect\<rparr>) (s\<lparr>lf_consumerLoops := lf_consumerLoops s + 1\<rparr>)"
      by (auto simp: claim_step_def Let_def split: loop_phase.splits)
    show thesis
      by (rule that [where c = "?c\<lparr>cl_phase := LoopSelect\<rparr>" and k = "lf_consumerLoops s + 1" and q = "[]"])
         (use s' ph inv main ok LStart j in \<open>auto simp: on_claim_def in_hand_def lf_inv_def\<close>)
  next
    case (LReceive j)
    then obtain r rs where ph: "cl_phase ?c = LoopSelect" "cl_records ?c = r # rs"
        and s': "s' = on_claim i (\<lambda>c. c\<lparr>cl_phase := LoopSending r, cl_records := rs\<rparr>) s"
      using st by (auto simp: claim_step_def Let_def split: loop_phase.splits list.splits)
    show thesis
      by (rule that [where c = "?c\<lparr>cl_phase := LoopSending r, cl_records := rs\<rparr>" and k = "lf_consumerLoops s" and q = "[]"])
         (use s' ph inv an(1) in \<open>auto simp: on_claim_def in_hand_def lf_inv_def\<close>)
  next
    case (LEnd j)
    then have ph: "cl_phase ?c = LoopSelect"
        and s': "s' = on_claim i (\<lambda>c. c\<lparr>cl_phase := LoopDone\<rparr>) (s\<lparr>lf_consumerLoops := lf_consumerLoops s - 1\<rparr>)"
      using st by (auto simp: claim_step_def Let_def split: loop_phase.splits if_splits)
    show thesis
      by (rule that [where c = "?c\<lparr>cl_phase := LoopDone\<rparr>" and k = "lf_consumerLoops s - 1" and q = "[]"])
         (use s' ph inv an(1) in \<open>auto simp: on_claim_def in_hand_def lf_inv_def\<close>)
  next
    case (LBreak j)
    then have ph: "cl_phase ?c = LoopSelect"
        and s': "s' = on_claim i (\<lambda>c. c\<lparr>cl_phase := LoopDone\<rparr>) (s\<lparr>lf_consumerLoops := lf_consumerLoops s - 1\<rparr>)"
      using st by (auto simp: claim_step_def Let_def split: loop_phase.splits if_splits)
    show thesis
      by (rule that [where c = "?c\<lparr>cl_phase := LoopDone\<rparr>" and k = "lf_consumerLoops s - 1" and q = "[]"])
         (use s' ph inv an(1) in \<open>auto simp: on_claim_def in_hand_def lf_inv_def\<close>)
  next
    case (LSignal j)
    then have s': "s' = on_claim i (\<lambda>c. c\<lparr>cl_signal := True\<rparr>) s"
      using st by (auto simp: claim_step_def Let_def split: loop_phase.splits if_splits)
    show thesis
      by (rule that [where c = "?c\<lparr>cl_signal := True\<rparr>" and k = "lf_consumerLoops s" and q = "[]"])
         (use s' inv main in \<open>auto simp: on_claim_def in_hand_def lf_inv_def\<close>)
  next
    case (LSend j)
    then obtain r where ph: "cl_phase ?c = LoopSending r" using st by (auto simp: claim_step_def Let_def split: loop_phase.splits)
    with an have nc: "\<not> lf_dataChanClosed s" "\<not> lf_mainStopping s" by auto
    with ph LSend st have s': "s' = on_claim i (\<lambda>c. c\<lparr>cl_phase := LoopSelect\<rparr>) (s\<lparr>lf_dataChan := lf_dataChan s @ [(i, NewTaskRecord r)]\<rparr>)"
        and l: "length (lf_dataChan s) < dataChan_cap"
      by (auto simp: claim_step_def Let_def split: if_splits)
    show thesis
      by (rule that [where c = "?c\<lparr>cl_phase := LoopSelect\<rparr>" and k = "lf_consumerLoops s" and q = "[(i, NewTaskRecord r)]"])
         (use s' ph l nc in \<open>auto simp: on_claim_def in_hand_def NewTaskRecord_def\<close>)
  qed (use st in \<open>auto simp: claim_step_def Let_def split: loop_phase.splits\<close>)
  note c = this
  from claim_moves [OF inv i c] c(1) show ?thesis by simp
qed

lemma taken_snoc: "taken i (ins @ [x]) = taken i ins @ taken i [x]"
  by (simp add: taken_def)

lemma main_step_inv:
  assumes inv: "lf_inv env rss t0 s" and inp: "snd inp \<noteq> TStop"
    and q: "\<And>i. queued i (lf_dataChan s) = taken i [inp] @ queued i rest" "length rest \<le> length (lf_dataChan s)"
    and st: "main_step (le_task env) inp (s\<lparr>lf_dataChan := rest\<rparr>) = Some s'" and np: "lf_panic s' = None"
  shows "lf_inv env rss t0 s'"
proof -
  obtain r t where r: "task_step (le_task env) (snd inp) (lf_task s) = Some (r, t)"
    using st by (auto simp: main_step_def split: option.splits)
  have "r = Ok ()" using r st np task_step_no_err [OF r] by (cases r) (auto simp: main_step_def)
  with r st have s': "s' = s\<lparr>lf_dataChan := rest, lf_task := t, lf_inputs := lf_inputs s @ [inp]\<rparr>" by (simp add: main_step_def)
  have "flow s' i = flow s i" for i by (simp add: flow_def s' taken_snoc q(1))
  moreover have "task_loop (le_task env) (map snd (lf_inputs s) @ [snd inp]) t0 = Some (Ok (), t)" if "lf_shutdown s = SdIdle"
    using inv that inp r \<open>r = Ok ()\<close> by (intro task_loop_snoc [where ?t1.0 = "lf_task s"]) (auto simp: lf_inv_def)
  ultimately show ?thesis using inv inp q(2) unfolding lf_inv_def by (auto simp: s')
qed

lemma shutdown_step_inv:
  assumes inv: "lf_inv env rss t0 s" and st: "shutdown_step env s = Some s'" and np: "lf_panic s' = None"
  shows "lf_inv env rss t0 s' \<and> stage (lf_shutdown s') < stage (lf_shutdown s)"
proof -
  have fr: "lf_inv env rss t0 s'" if "s' = s\<lparr>lf_task := t, lf_shutdown := ph\<rparr>" "ph \<noteq> SdIdle"
      "lf_processingStopping s \<longleftrightarrow> stage ph \<le> 4" "stage ph \<le> 3 \<Longrightarrow> lf_processingLoopStopped s" for t ph
    using inv that(2-) unfolding lf_inv_def by (auto simp: that(1) flow_def)
  have ps: "lf_processingStopping s \<longleftrightarrow> stage (lf_shutdown s) \<le> 4" and pl: "stage (lf_shutdown s) \<le> 3 \<Longrightarrow> lf_processingLoopStopped s"
    and cs: "lf_changelogsStopped s" using inv by (auto simp: lf_inv_def)
  show ?thesis
  proof (cases "lf_shutdown s")
    case SdIdle
    with st have s': "s' = s\<lparr>lf_task := (lf_task s)\<lparr>tk_buffer := buf_MarkAsCosing (tk_buffer (lf_task s))\<rparr>, lf_shutdown := SdMarked\<rparr>"
      by (simp add: shutdown_step_def Let_def)
    from fr [OF s'] SdIdle ps show ?thesis by (simp add: s')
  next
    case SdMarked
    with st np obtain w where s': "s' = s\<lparr>lf_task := (lf_task s)\<lparr>tk_world := w\<rparr>, lf_shutdown := SdSubClosed\<rparr>"
      by (auto simp: shutdown_step_def Let_def on_world_def split: prod.splits res.splits)
    from fr [OF s'] SdMarked ps show ?thesis by (simp add: s')
  next
    case SdSubClosed
    with st cs have s': "s' = s\<lparr>lf_task := lf_task s, lf_shutdown := SdChangelogsStopped\<rparr>" by (simp add: shutdown_step_def Let_def)
    from fr [OF s'] SdSubClosed ps show ?thesis by (simp add: s')
  next
    case SdChangelogsStopped
    with st have s': "s' = s\<lparr>lf_processingStopping := True, lf_shutdown := SdSignalled\<rparr>" by (simp add: shutdown_step_def Let_def)
    then show ?thesis using SdChangelogsStopped inv unfolding lf_inv_def by (auto simp: flow_def)
  next
    case SdSignalled
    with st have l: "lf_processingLoopStopped s" and s': "s' = s\<lparr>lf_task := lf_task s, lf_shutdown := SdLoopStopped\<rparr>"
      by (simp_all add: shutdown_step_def Let_def split: if_splits)
    from fr [OF s'] l SdSignalled ps show ?thesis by (simp add: s')
  next
    case SdLoopStopped
    with st np obtain b w where s': "s' = s\<lparr>lf_task := (lf_task s)\<lparr>tk_buffer := b, tk_world := w\<rparr>, lf_shutdown := SdBufferClosed\<rparr>"
      by (auto simp: shutdown_step_def Let_def split: prod.splits res.splits)
    from fr [OF s'] SdLoopStopped ps pl show ?thesis by (simp add: s')
  next
    case SdBufferClosed
    with st obtain w where s': "s' = s\<lparr>lf_task := (lf_task s)\<lparr>tk_world := w\<rparr>, lf_shutdown := SdStoresClosed\<rparr>"
      by (auto simp: shutdown_step_def Let_def on_world_def)
    from fr [OF s'] SdBufferClosed ps pl show ?thesis by (simp add: s')
  next
    case SdStoresClosed
    with st obtain w where s': "s' = s\<lparr>lf_task := (lf_task s)\<lparr>tk_world := w\<rparr>, lf_shutdown := SdClosed\<rparr>"
      by (auto simp: shutdown_step_def Let_def on_world_def)
    from fr [OF s'] SdStoresClosed ps pl show ?thesis by (simp add: s')
  next
    case SdClosed
    with st show ?thesis by (simp add: shutdown_step_def Let_def)
  qed
qed

definition start_ok :: "life_action \<Rightarrow> 'w life \<Rightarrow> bool" where
  "start_ok act s = (case act of LStart i \<Rightarrow> \<not> lf_processingStopping s | _ \<Rightarrow> True)"

lemma start_ok_iff: "start_ok act s \<longleftrightarrow> (\<forall>i. act = LStart i \<longrightarrow> \<not> lf_processingStopping s)"
  by (cases act) (simp_all add: start_ok_def)

lemma lf_do_inv:
  assumes inv: "lf_inv env rss t0 s" and st: "lf_do env act s = Some s'" and ok: "start_ok act s" and np: "lf_panic s' = None"
  shows "lf_inv env rss t0 s'"
proof -
  have ns: "lf_panic s = None" using st by (auto simp: lf_do_def split: if_splits)
  show ?thesis
  proof (cases act)
    case LWaited
    with st ns inv show ?thesis by (auto simp: lf_do_def lf_inv_def flow_def split: if_splits)
  next
    case LMainBreak
    with st ns inv show ?thesis by (auto simp: lf_do_def lf_inv_def flow_def split: if_splits)
  next
    case LShutdown
    with st ns have "shutdown_step env s = Some s'" by (simp add: lf_do_def)
    from shutdown_step_inv [OF inv this np] show ?thesis ..
  next
    case LTick
    with st ns have "main_step (le_task env) (0, TTick) (s\<lparr>lf_dataChan := lf_dataChan s\<rparr>) = Some s'"
      by (auto simp: lf_do_def split: if_splits)
    from main_step_inv [OF inv _ _ _ this np] show ?thesis by (simp add: taken_def)
  next
    case LTake
    with st ns obtain i r rest where d: "lf_dataChan s = (i, r) # rest"
        "main_step (le_task env) (i, TRecord r) (s\<lparr>lf_dataChan := rest\<rparr>) = Some s'"
      by (auto simp: lf_do_def split: if_splits list.splits)
    from main_step_inv [OF inv _ _ _ d(2) np] show ?thesis by (simp add: taken_def queued_def d(1))
  qed (use st ns ok claim_step_inv [OF inv] in \<open>auto simp: lf_do_def start_ok_iff split: if_splits\<close>)
qed

lemma lf_reach_inv:
  "lf_reach env claims t0 s \<Longrightarrow> lf_panic s = None \<Longrightarrow> lf_inv env (map fst claims) t0 s"
proof (induction rule: lf_reach.induct)
  case life_start
  show ?case by (rule lf_inv_start)
next
  case (life_step s act s')
  then have "lf_panic s = None" by (auto simp: lf_do_def split: if_splits)
  with life_step show ?case using lf_do_inv [of env "map fst claims" t0 s act s'] by (auto simp: start_ok_iff)
qed

text \<open>C32: 
  As long as nobody starts a claim after the task was told to stop: the processing loop has handled, for each topic partition, an
  initial part of its records in their order, and the next ones are in the channel or in the hand of the message loop; the channel
  holds at most ten; before the task is stopped the state is that of the loop run over its inputs. Sending never finds the
  channel closed.
\<close>

theorem records_in_order:
  assumes "lf_reach env claims t0 s" "lf_panic s = None"
  shows "(\<forall>i<length claims. flow s i = fst (claims ! i)) \<and> length (lf_dataChan s) \<le> dataChan_cap \<and>
    (lf_shutdown s = SdIdle \<longrightarrow> task_loop (le_task env) (map snd (lf_inputs s)) t0 = Some (Ok (), lf_task s)) \<and>
    (\<forall>i<length (lf_claims s). in_hand (lf_claims s ! i) \<noteq> [] \<longrightarrow> \<not> lf_dataChanClosed s)"
proof -
  have inv: "lf_inv env (map fst claims) t0 s" by (rule lf_reach_inv [OF assms])
  have "\<not> lf_dataChanClosed s" if "i < length (lf_claims s)" "in_hand (lf_claims s ! i) \<noteq> []" for i
    using active_now(2) [OF inv that(1)] that(2) by (cases "cl_phase (lf_claims s ! i)") (auto simp: in_hand_def)
  with inv show ?thesis by (auto simp: lf_inv_def)
qed

section \<open>Stopping ends\<close>

fun loop_weight :: "loop_phase \<Rightarrow> nat" where
  "loop_weight LoopIdle = 3"
| "loop_weight LoopSelect = 1"
| "loop_weight (LoopSending r) = 3"
| "loop_weight LoopDone = 0"

definition claim_weight :: "claim \<Rightarrow> nat" where
  "claim_weight c = 3 * length (cl_records c) + loop_weight (cl_phase c) + of_bool (\<not> cl_signal c)"

definition life_weight :: "'w life \<Rightarrow> nat" where
  "life_weight s = sum_list (map claim_weight (lf_claims s)) + length (lf_dataChan s) + of_bool (\<not> lf_mainStopping s)
     + of_bool (\<not> lf_processingLoopStopped s) + stage (lf_shutdown s)"

lemma sum_list_set:
  assumes "i < length xs"
  shows "sum_list (map f (xs[i := y])) + f (xs ! i) = sum_list (map f xs) + (f y :: nat)"
  using assms
proof (induction xs arbitrary: i)
  case (Cons x xs)
  then show ?case by (cases i) (auto simp: add.assoc)
qed simp

lemma claim_step_weight:
  assumes i: "i < length (lf_claims s)" and st: "claim_step act i s = Some s'" and np: "lf_panic s' = None" "lf_panic s = None"
  shows "life_weight s' < life_weight s"
proof -
  let ?c = "lf_claims s ! i"
  obtain c k q where s': "s' = s\<lparr>lf_claims := (lf_claims s)[i := c], lf_consumerLoops := k, lf_dataChan := lf_dataChan s @ q\<rparr>"
      and lt: "claim_weight c + length q < claim_weight ?c"
  proof (cases act)
    case (LStart j)
    with st have "cl_phase ?c = LoopIdle"
        and "s' = on_claim i (\<lambda>c. c\<lparr>cl_phase := LoopSelect\<rparr>) (s\<lparr>lf_consumerLoops := lf_consumerLoops s + 1\<rparr>)"
      by (auto simp: claim_step_def Let_def split: loop_phase.splits)
    then show thesis
      by (intro that [where c = "?c\<lparr>cl_phase := LoopSelect\<rparr>" and k = "lf_consumerLoops s + 1" and q = "[]"])
         (auto simp: on_claim_def claim_weight_def)
  next
    case (LReceive j)
    then obtain r rs where "cl_phase ?c = LoopSelect" "cl_records ?c = r # rs"
        and "s' = on_claim i (\<lambda>c. c\<lparr>cl_phase := LoopSending r, cl_records := rs\<rparr>) s"
      using st by (auto simp: claim_step_def Let_def split: loop_phase.splits list.splits)
    then show thesis
      by (intro that [where c = "?c\<lparr>cl_phase := LoopSending r, cl_records := rs\<rparr>" and k = "lf_consumerLoops s" and q = "[]"])
         (auto simp: on_claim_def claim_weight_def)
  next
    case (LEnd j)
    then have "cl_phase ?c = LoopSelect"
        and "s' = on_claim i (\<lambda>c. c\<lparr>cl_phase := LoopDone\<rparr>) (s\<lparr>lf_consumerLoops := lf_consumerLoops s - 1\<rparr>)"
      using st by (auto simp: claim_step_def Let_def split: loop_phase.splits if_splits)
    then show thesis
      by (intro that [where c = "?c\<lparr>cl_phase := LoopDone\<rparr>" and k = "lf_consumerLoops s - 1" and q = "[]"])
         (auto simp: on_claim_def claim_weight_def)
  next
    case (LBreak j)
    then have "cl_phase ?c = LoopSelect"
        and "s' = on_claim i (\<lambda>c. c\<lparr>cl_phase := LoopDone\<rparr>) (s\<lparr>lf_consumerLoops := lf_consumerLoops s - 1\<rparr>)"
      using st by (auto simp: claim_step_def Let_def split: loop_phase.splits if_splits)
    then show thesis
      by (intro that [where c = "?c\<lparr>cl_phase := LoopDone\<rparr>" and k = "lf_consumerLoops s - 1" and q = "[]"])
         (auto simp: on_claim_def claim_weight_def)
  next
    case (LSignal j)
    then have "\<not> cl_signal ?c" "s' = on_claim i (\<lambda>c. c\<lparr>cl_signal := True\<rparr>) s"
      using st by (auto simp: claim_step_def Let_def split: loop_phase.splits if_splits)
    then show thesis
      by (intro that [where c = "?c\<lparr>cl_signal := True\<rparr>" and k = "lf_consumerLoops s" and q = "[]"])
         (auto simp: on_claim_def claim_weight_def)
  next
    case (LSend j)
    then obtain r where "cl_phase ?c = LoopSending r"
        "s' = on_claim i (\<lambda>c. c\<lparr>cl_phase := LoopSelect\<rparr>) (s\<lparr>lf_dataChan := lf_dataChan s @ [(i, NewTaskRecord r)]\<rparr>)"
      using st np by (auto simp: claim_step_def Let_def split: loop_phase.splits if_splits)
    then show thesis
      by (intro that [where c = "?c\<lparr>cl_phase := LoopSelect\<rparr>" and k = "lf_consumerLoops s" and q = "[(i, NewTaskRecord r)]"])
         (auto simp: on_claim_def claim_weight_def)
  qed (use st in \<open>auto simp: claim_step_def Let_def split: loop_phase.splits\<close>)
  from sum_list_set [OF i, of claim_weight c] lt show ?thesis by (simp add: life_weight_def s')
qed

lemma main_step_frame:
  assumes "main_step env inp s = Some s'"
  shows "lf_claims s' = lf_claims s" "lf_dataChan s' = lf_dataChan s" "lf_mainStopping s' = lf_mainStopping s"
    "lf_processingLoopStopped s' = lf_processingLoopStopped s" "lf_shutdown s' = lf_shutdown s"
  using assms by (auto simp: main_step_def split: option.splits prod.splits res.splits)

lemma lf_do_weight:
  assumes inv: "lf_inv env rss t0 s" and st: "lf_do env act s = Some s'" and np: "lf_panic s' = None"
  shows "life_weight s' + of_bool (act \<noteq> LTick) \<le> life_weight s"
proof -
  have ns: "lf_panic s = None" using st by (auto simp: lf_do_def split: if_splits)
  show ?thesis
  proof (cases act)
    case LWaited
    with st ns show ?thesis by (auto simp: lf_do_def life_weight_def split: if_splits)
  next
    case LMainBreak
    with st ns show ?thesis by (auto simp: lf_do_def life_weight_def split: if_splits)
  next
    case LShutdown
    with st ns have sh: "shutdown_step env s = Some s'" by (simp add: lf_do_def)
    have "lf_claims s' = lf_claims s" "lf_dataChan s' = lf_dataChan s" "lf_mainStopping s' = lf_mainStopping s"
        "lf_processingLoopStopped s' = lf_processingLoopStopped s"
      using sh by (auto simp: shutdown_step_def Let_def on_world_def split: shutdown_phase.splits prod.splits res.splits if_splits)
    with shutdown_step_inv [OF inv sh np] LShutdown show ?thesis by (simp add: life_weight_def)
  next
    case LTick
    with st ns have "main_step (le_task env) (0, TTick) s = Some s'" by (auto simp: lf_do_def split: if_splits)
    from main_step_frame [OF this] LTick show ?thesis by (simp add: life_weight_def)
  next
    case LTake
    with st ns obtain i r rest where d: "lf_dataChan s = (i, r) # rest"
        "main_step (le_task env) (i, TRecord r) (s\<lparr>lf_dataChan := rest\<rparr>) = Some s'"
      by (auto simp: lf_do_def split: if_splits list.splits)
    from main_step_frame [OF d(2)] d(1) LTake show ?thesis by (simp add: life_weight_def)
  qed (use st ns claim_step_weight [OF _ _ np ns] in \<open>fastforce simp: lf_do_def split: if_splits\<close>)+
qed

fun lf_run :: "('w, 'm) life_env \<Rightarrow> life_action list \<Rightarrow> 'w life \<Rightarrow> 'w life option" where
  "lf_run env [] s = Some s"
| "lf_run env (a # as) s = (if start_ok a s then (case lf_do env a s of None \<Rightarrow> None | Some s' \<Rightarrow> lf_run env as s') else None)"

lemma lf_run_reach: "lf_reach env claims t0 s \<Longrightarrow> lf_run env as s = Some s' \<Longrightarrow> lf_reach env claims t0 s'"
  by (induction as arbitrary: s) (auto simp: start_ok_iff split: if_splits option.splits intro: life_step)

lemma lf_run_panic: "lf_run env as s = Some s' \<Longrightarrow> lf_panic s' = None \<Longrightarrow> lf_panic s = None"
proof (induction as arbitrary: s)
  case (Cons a as)
  then show ?case by (cases "lf_panic s") (auto simp: lf_do_def split: if_splits)
qed simp

lemma lf_run_weight:
  "lf_inv env rss t0 s \<Longrightarrow> lf_run env as s = Some s' \<Longrightarrow> lf_panic s' = None \<Longrightarrow>
     life_weight s' + length (filter (\<lambda>a. a \<noteq> LTick) as) \<le> life_weight s"
proof (induction as arbitrary: s)
  case (Cons a as)
  then obtain h where h: "start_ok a s" "lf_do env a s = Some h" "lf_run env as h = Some s'" by (auto split: option.splits if_splits)
  have np: "lf_panic h = None" by (rule lf_run_panic [OF h(3) Cons.prems(3)])
  from Cons.IH [OF lf_do_inv [OF Cons.prems(1) h(2,1) np] h(3) Cons.prems(3)] lf_do_weight [OF Cons.prems(1) h(2) np]
  show ?case by (auto split: if_splits)
qed simp

text \<open>While a stopped task is not closed, one of its goroutines can move.\<close>

lemma stop_moves:
  assumes inv: "lf_inv env rss t0 s" and np: "lf_panic s = None" and sd: "lf_shutdown s \<noteq> SdIdle" "lf_shutdown s \<noteq> SdClosed"
    and run: "\<And>inp t. task_step (le_task env) inp t \<noteq> None"
  shows "\<exists>act. act \<noteq> LTick \<and> (\<forall>i. act \<noteq> LStart i) \<and> lf_do env act s \<noteq> None"
proof (cases "lf_shutdown s = SdSignalled \<and> \<not> lf_processingLoopStopped s")
  case False
  have "shutdown_step env s \<noteq> None"
    using False sd inv by (auto simp: shutdown_step_def Let_def lf_inv_def split: shutdown_phase.splits prod.splits res.splits)
  then show ?thesis using np by (intro exI [of _ LShutdown]) (simp add: lf_do_def)
next
  case True
  then have ps: "lf_processingStopping s" using inv by (simp add: lf_inv_def)
  show ?thesis
  proof (cases "lf_mainStopping s \<or> lf_consumerLoops s = 0")
    case True
    then have "lf_do env LMainBreak s \<noteq> None \<or> lf_do env LWaited s \<noteq> None"
      using ps np \<open>lf_shutdown s = SdSignalled \<and> \<not> lf_processingLoopStopped s\<close> by (auto simp: lf_do_def)
    then show ?thesis by blast
  next
    case busy: False
    then obtain i where i: "i < length (lf_claims s)" "active (cl_phase (lf_claims s ! i))"
      using inv by (auto simp: lf_inv_def count_if_zero in_set_conv_nth)
    show ?thesis
    proof (cases "cl_phase (lf_claims s ! i)")
      case LoopSelect
      then have "lf_do env (LBreak i) s \<noteq> None \<or> lf_do env (LSignal i) s \<noteq> None"
        using i np ps by (auto simp: lf_do_def claim_step_def Let_def life_index_def)
      then show ?thesis by blast
    next
      case (LoopSending r)
      show ?thesis
      proof (cases "length (lf_dataChan s) < dataChan_cap")
        case True
        then have "lf_do env (LSend i) s \<noteq> None"
          using i np LoopSending active_now(2) [OF inv i] by (simp add: lf_do_def claim_step_def Let_def life_index_def)
        then show ?thesis by blast
      next
        case False
        then obtain j q rest where d: "lf_dataChan s = (j, q) # rest"
          by (cases "lf_dataChan s") (auto simp: dataChan_cap_def)
        have "lf_do env LTake s \<noteq> None"
          using run [of "TRecord q" "lf_task s"] d np \<open>lf_shutdown s = SdSignalled \<and> \<not> lf_processingLoopStopped s\<close>
          by (auto simp: lf_do_def main_step_def split: option.splits prod.splits res.splits)
        then show ?thesis by blast
      qed
    qed (use i in auto)
  qed
qed

text \<open>C33: 
  Apart from ticks a task takes a bounded number of steps, and a task that was told to stop does not block before everything is
  closed, whatever its goroutines were doing, provided processing a record returns.
\<close>

theorem task_stops:
  assumes "\<And>inp t. task_step (le_task env) inp t \<noteq> None"
    and "lf_run env acts (life_of claims t0) = Some s" "lf_panic s = None"
  shows "length (filter (\<lambda>a. a \<noteq> LTick) acts) \<le> sum_list (map (\<lambda>(rs, _). 3 * length rs + 4) claims) + 10 \<and>
    (lf_shutdown s = SdIdle \<or> lf_shutdown s = SdClosed \<or> (\<exists>act. act \<noteq> LTick \<and> (\<forall>i. act \<noteq> LStart i) \<and> lf_do env act s \<noteq> None))"
proof
  have "life_weight (life_of claims t0) = sum_list (map (\<lambda>(rs, _). 3 * length rs + 4) claims) + 10"
    by (simp add: life_weight_def life_of_def comp_def claim_weight_def case_prod_unfold add.commute)
  with lf_run_weight [OF lf_inv_start assms(2,3)]
  show "length (filter (\<lambda>a. a \<noteq> LTick) acts) \<le> sum_list (map (\<lambda>(rs, _). 3 * length rs + 4) claims) + 10" by simp
  have "lf_inv env (map fst claims) t0 s" by (rule lf_reach_inv [OF lf_run_reach [OF life_start assms(2)] assms(3)])
  from stop_moves [OF this assms(3) _ _ assms(1)]
  show "lf_shutdown s = SdIdle \<or> lf_shutdown s = SdClosed \<or> (\<exists>act. act \<noteq> LTick \<and> (\<forall>i. act \<noteq> LStart i) \<and> lf_do env act s \<noteq> None)"
    by blast
qed

section \<open>Runs of a task\<close>

definition call_life :: "(string list, unit) life_env" where
  "call_life = \<lparr>le_task = call_env, le_closeSub = ok_call ''close sub topology'', le_closeStore = (\<lambda>n. ok_call (''close '' @ n))\<rparr>"

definition call_task :: "string list task" where
  "call_task = \<lparr>tk_buffer = \<lparr>cb_records = [], cb_offsetMap = [], cb_closing = False\<rparr>, tk_world = [], tk_failed = []\<rparr>"

definition call_claims :: "(krecord list \<times> bool) list" where
  "call_claims = [([sample_record 0 1, sample_record 0 2], False), ([sample_record 1 5], True)]"

lemma call_env_returns: "task_step (le_task call_life) inp t \<noteq> None"
  by (cases inp)
     (auto simp: task_step_def call_life_def call_env_def task_process_def ok_call_def Let_def buf_Flush_def buf_commit_def
       call_producer_def flush_store_def bindR_def wrapR_def split: prod.splits res.splits)

definition call_acts :: "life_action list" where
  "call_acts = [LStart 0, LReceive 0, LSend 0, LStart 1, LReceive 1, LReceive 0, LTake, LTick, LShutdown, LSend 1, LShutdown, LShutdown,
     LShutdown, LSignal 0, LSend 0, LBreak 0, LTake, LEnd 1, LWaited, LMainBreak, LShutdown, LShutdown, LShutdown, LShutdown]"

definition call_end :: "string list life" where
  "call_end = the (lf_run call_life call_acts (life_of call_claims call_task))"

lemma call_end_facts:
  "lf_run call_life call_acts (life_of call_claims call_task) = Some call_end" "lf_panic call_end = None"
  "lf_shutdown call_end = SdClosed" "taken 0 (lf_inputs call_end) = [sample_record 0 1]" "length (lf_dataChan call_end) = 1"
proof -
  have "lf_run call_life call_acts (life_of call_claims call_task) \<noteq> None" by code_simp
  then show "lf_run call_life call_acts (life_of call_claims call_task) = Some call_end" by (auto simp: call_end_def)
qed code_simp+

theorem records_in_order_witness:
  "flow call_end 0 = [sample_record 0 1, sample_record 0 2] \<and> length (lf_dataChan call_end) \<le> dataChan_cap"
  using records_in_order [OF lf_run_reach [OF life_start call_end_facts(1)] call_end_facts(2)]
  by (simp add: call_claims_def)

theorem task_stops_witness: "length (filter (\<lambda>a. a \<noteq> LTick) call_acts) \<le> 27"
  using task_stops [OF call_env_returns call_end_facts(1,2)] by (simp add: call_claims_def sample_record_def)

text \<open>A claim that is started after the processing loop has ended can send on the closed channel, which panics.\<close>

lemma late_start_panics:
  "map_option lf_panic (fold (\<lambda>a s. Option.bind s (lf_do call_life a))
     [LShutdown, LShutdown, LShutdown, LShutdown, LWaited, LMainBreak, LStart 0, LReceive 0, LSend 0] (Some (life_of call_claims call_task)))
   = Some (Some ''send on closed channel'')"
  by code_simp

end
