(* ===== verification/Registry.thy ===== *)
theory Registry
  imports Store Memory
begin

text \<open>
  \<open>src/streams/stores/registry.go\<close>: the registry of the stores of an application by name, static ones and listers of instances, and
  \<open>src/streams/queryble_store_wrapper.go\<close>: the store that answers queries from all instances of a local store. Stores are handles
  \<open>'s\<close>; what the registry asks of one is the record \<open>store_ops\<close>. Locks are left out; maps are association lists, and the order in
  which one is ranged over is that of the list.
\<close>

section \<open>The registry\<close>

text \<open>
  \<open>so_Indexes\<close> is \<open>None\<close> for a store that is not an \<open>IndexedStore\<close>, else the names of its indexes with the indexes; \<open>so_writable\<close>: the
  store is a \<open>Store\<close>.
\<close>

record ('s, 'x) store_ops =
  so_Name :: "'s \<Rightarrow> string"
  so_Indexes :: "'s \<Rightarrow> (string \<times> 'x) list option"
  so_writable :: "'s \<Rightarrow> bool"

text \<open>\<open>rr_storeBuilders\<close> is \<open>None\<close> for the nil map. A lister depends on the state \<open>'w\<close> of the program.\<close>

record ('s, 'x, 'b, 'w) registry =
  rr_stores :: "(string \<times> 's) list"
  rr_storeBuilders :: "(string \<times> 'b) list option"
  rr_dynamicStores :: "(string \<times> ('w \<Rightarrow> 's list)) list"
  rr_indexes :: "(string \<times> 'x) list"

definition NewRegistry :: "('s, 'x, 'b, 'w) registry" where
  "NewRegistry = \<lparr>rr_stores = [], rr_storeBuilders = None, rr_dynamicStores = [], rr_indexes = []\<rparr>"

definition already_exists :: "string \<Rightarrow> gerror" where
  "already_exists name = err_New (''store ['' @ name @ ''] already exist'')"

definition add_indexes :: "(string \<times> 'x) list \<Rightarrow> ('s, 'x, 'b, 'w) registry \<Rightarrow> ('s, 'x, 'b, 'w) registry" where
  "add_indexes ixs r = r\<lparr>rr_indexes := fold (\<lambda>(n, i). AList.update n i) ixs (rr_indexes r)\<rparr>"

definition add_store_named :: "string \<Rightarrow> 's \<Rightarrow> ('s, 'x, 'b, 'w) registry \<Rightarrow> ('s, 'x, 'b, 'w) registry" where
  "add_store_named name s r = r\<lparr>rr_stores := AList.update name s (rr_stores r)\<rparr>"

definition reg_Register :: "('s, 'x) store_ops \<Rightarrow> 's \<Rightarrow> ('s, 'x, 'b, 'w) registry \<Rightarrow> unit res \<times> ('s, 'x, 'b, 'w) registry" where
  "reg_Register so store r =
     (let name = so_Name so store
      in if map_of (rr_stores r) name \<noteq> None then (Err (already_exists name), r)
         else (Ok (), add_store_named name store
           (case so_Indexes so store of None \<Rightarrow> r | Some ixs \<Rightarrow> add_indexes ixs r)))"

definition reg_RegisterDynamic :: "string \<Rightarrow> ('w \<Rightarrow> 's list) \<Rightarrow> ('s, 'x, 'b, 'w) registry \<Rightarrow> unit res \<times> ('s, 'x, 'b, 'w) registry" where
  "reg_RegisterDynamic name lister r =
     (if map_of (rr_dynamicStores r) name \<noteq> None then (Err (already_exists name), r)
      else (Ok (), r\<lparr>rr_dynamicStores := AList.update name lister (rr_dynamicStores r)\<rparr>))"

text \<open>\<open>build\<close> is the store builder applied to the arguments; \<open>logger.Fatal\<close> ends the program.\<close>

definition reg_Create :: "(string \<Rightarrow> 's res) \<Rightarrow> ('s, 'x) store_ops \<Rightarrow> string \<Rightarrow> ('s, 'x, 'b, 'w) registry
    \<Rightarrow> 's res \<times> ('s, 'x, 'b, 'w) registry" where
  "reg_Create build so name r =
     (if map_of (rr_stores r) name \<noteq> None then (Err (already_exists name), r)
      else (case build name of
          Ok s \<Rightarrow> (if so_writable so s then Ok s else Panic ''interface conversion: not a Store'', add_store_named name s r)
        | Err e \<Rightarrow> (Panic ''fatal'', r)
        | Panic p \<Rightarrow> (Panic p, r)))"

definition reg_CreateOrReturn :: "(string \<Rightarrow> 's res) \<Rightarrow> ('s, 'x) store_ops \<Rightarrow> string \<Rightarrow> ('s, 'x, 'b, 'w) registry
    \<Rightarrow> 's res \<times> ('s, 'x, 'b, 'w) registry" where
  "reg_CreateOrReturn build so name r = (case map_of (rr_stores r) name of
      Some s \<Rightarrow> (if so_writable so s then Ok s else Panic ''interface conversion: not a Store'', r)
    | None \<Rightarrow> reg_Create build so name r)"

text \<open>Writing to a nil map panics.\<close>

definition reg_NewBuilder :: "'b \<Rightarrow> string \<Rightarrow> ('s, 'x, 'b, 'w) registry \<Rightarrow> 'b res \<times> ('s, 'x, 'b, 'w) registry" where
  "reg_NewBuilder b name r = (case rr_storeBuilders r of
      None \<Rightarrow> (Panic ''assignment to entry in nil map'', r)
    | Some bs \<Rightarrow> (if map_of bs name \<noteq> None then (Panic ''fatal'', r)
        else (Ok b, r\<lparr>rr_storeBuilders := Some (AList.update name b bs)\<rparr>)))"

definition reg_NewIndexedStore :: "(string \<Rightarrow> 's res) \<Rightarrow> ('s, 'x) store_ops \<Rightarrow> string \<Rightarrow> ('s, 'x, 'b, 'w) registry
    \<Rightarrow> 's res \<times> ('s, 'x, 'b, 'w) registry" where
  "reg_NewIndexedStore build so name r =
     (if map_of (rr_stores r) name \<noteq> None then (Panic ''fatal'', r)
      else (case build name of
          Ok s \<Rightarrow> (Ok s, add_indexes (case so_Indexes so s of None \<Rightarrow> [] | Some ixs \<Rightarrow> ixs) (add_store_named name s r))
        | Err e \<Rightarrow> (Panic ''fatal'', r)
        | Panic p \<Rightarrow> (Panic p, r)))"

text \<open>A name that is not registered is looked for among the instances of all listers.\<close>

definition reg_Store :: "('s, 'x) store_ops \<Rightarrow> string \<Rightarrow> 'w \<Rightarrow> ('s, 'x, 'b, 'w) registry \<Rightarrow> 's res" where
  "reg_Store so name w r = (case map_of (rr_stores r) name of
      Some s \<Rightarrow> Ok s
    | None \<Rightarrow> (case find (\<lambda>s. so_Name so s = name) (concat (map (\<lambda>(_, lister). lister w) (rr_dynamicStores r))) of
          Some s \<Rightarrow> Ok s
        | None \<Rightarrow> Err (err_New (''unknown store ['' @ name @ '']''))))"

definition reg_Builder :: "string \<Rightarrow> ('s, 'x, 'b, 'w) registry \<Rightarrow> 'b res" where
  "reg_Builder name r = (case map_of (case rr_storeBuilders r of None \<Rightarrow> [] | Some bs \<Rightarrow> bs) name of
      Some b \<Rightarrow> Ok b | None \<Rightarrow> Err (err_New (''unknown storeBuilder ['' @ name @ '']'')))"

definition reg_Index :: "string \<Rightarrow> ('s, 'x, 'b, 'w) registry \<Rightarrow> 'x res" where
  "reg_Index name r = (case map_of (rr_indexes r) name of
      Some i \<Rightarrow> Ok i | None \<Rightarrow> Err (err_New (''unknown index ['' @ name @ '']'')))"

definition reg_Stores :: "'w \<Rightarrow> ('s, 'x, 'b, 'w) registry \<Rightarrow> 's list" where
  "reg_Stores w r = map snd (rr_stores r) @ concat (map (\<lambda>(_, lister). lister w) (rr_dynamicStores r))"

definition reg_Builders :: "('s, 'x, 'b, 'w) registry \<Rightarrow> 'b list" where
  "reg_Builders r = map snd (case rr_storeBuilders r of None \<Rightarrow> [] | Some bs \<Rightarrow> bs)"

definition reg_Indexes :: "('s, 'x, 'b, 'w) registry \<Rightarrow> 'x list" where
  "reg_Indexes r = map snd (rr_indexes r)"

section \<open>Queries over the instances of a store\<close>

text \<open>\<open>LocalQueryableStoreWrapper.Get\<close>: the first instance that has the key answers.\<close>

fun wrapper_Get :: "('s \<Rightarrow> goval \<Rightarrow> goval res) \<Rightarrow> 's list \<Rightarrow> goval \<Rightarrow> goval res" where
  "wrapper_Get get [] key = Ok GNil"
| "wrapper_Get get (s # ss) key = bind_res (get s key) (\<lambda>v. if v \<noteq> GNil then Ok v else wrapper_Get get ss key)"

text \<open>\<open>MultiStoreIterator\<close>. Indexing with \<open>current\<close> out of range panics.\<close>

record 'i multi_iter =
  ms_current :: nat
  ms_iterators :: "'i list"

definition ms_at :: "nat \<Rightarrow> 'i multi_iter \<Rightarrow> 'i res" where
  "ms_at n m = (if n < length (ms_iterators m) then Ok (ms_iterators m ! n) else Panic ''index out of range'')"

definition ms_put :: "nat \<Rightarrow> 'i \<Rightarrow> 'i multi_iter \<Rightarrow> 'i multi_iter" where
  "ms_put n i m = m\<lparr>ms_iterators := (ms_iterators m)[n := i]\<rparr>"

definition ms_SeekToFirst :: "'i iter_ops \<Rightarrow> 'i store_iter multi_iter \<Rightarrow> 'i store_iter multi_iter res" where
  "ms_SeekToFirst io m = bind_res (ms_at 0 m) (\<lambda>i. Ok (ms_put 0 (si_SeekToFirst io i) m))"

definition ms_Next :: "'i iter_ops \<Rightarrow> 'i store_iter multi_iter \<Rightarrow> 'i store_iter multi_iter res" where
  "ms_Next io m =
     bind_res (bind_res (ms_at (ms_current m) m) (\<lambda>i.
       if \<not> si_Valid io i then
         (let m1 = m\<lparr>ms_current := ms_current m + 1\<rparr>
          in bind_res (ms_at (ms_current m1) m1) (\<lambda>j. Ok (ms_put (ms_current m1) (si_SeekToFirst io j) m1)))
       else Ok m))
       (\<lambda>m. bind_res (ms_at (ms_current m) m) (\<lambda>i. Ok (ms_put (ms_current m) (si_Next io i) m)))"

definition ms_Close :: "'i iter_ops \<Rightarrow> 'i store_iter multi_iter \<Rightarrow> 'i store_iter multi_iter" where
  "ms_Close io m = m\<lparr>ms_iterators := map (si_Close io) (ms_iterators m)\<rparr>"

definition ms_Key :: "'i iter_ops \<Rightarrow> 'i store_iter multi_iter \<Rightarrow> goval res" where
  "ms_Key io m = bind_res (ms_at (ms_current m) m) (si_Key io)"

definition ms_Value :: "'i iter_ops \<Rightarrow> 'i store_iter multi_iter \<Rightarrow> goval res" where
  "ms_Value io m = bind_res (ms_at (ms_current m) m) (si_Value io)"

text \<open>\<open>Valid\<close> moves on to the next iterator.\<close>

function ms_Valid :: "'i iter_ops \<Rightarrow> 'i store_iter multi_iter \<Rightarrow> (bool \<times> 'i store_iter multi_iter) res" where
  "ms_Valid io m = bind_res (ms_at (ms_current m) m) (\<lambda>i.
     if si_Valid io i then Ok (True, m)
     else if ms_current m + 1 < length (ms_iterators m) then ms_Valid io (m\<lparr>ms_current := ms_current m + 1\<rparr>)
     else Ok (False, m))"
  by pat_completeness auto

termination
  by (relation "measure (\<lambda>(io, m). length (ms_iterators m) - ms_current m)") auto

declare ms_Valid.simps [simp del]

definition ms_Error :: "'i iter_ops \<Rightarrow> 'i store_iter multi_iter \<Rightarrow> gerror option res" where
  "ms_Error io m = bind_res (ms_at (ms_current m) m) (\<lambda>i. Ok (si_Error io i))"

text \<open>The iterators of the instances, with a prefix and its encoder or without.\<close>

definition wrapper_iterator :: "('b, 'i) backend_ops \<Rightarrow> 'i iter_ops \<Rightarrow> (goval \<times> encoder) option \<Rightarrow> 'b store list \<Rightarrow> 'i store_iter multi_iter res" where
  "wrapper_iterator bk io pre instances =
     foldr (\<lambda>s rest. bind_res (case pre of Some (p, enc) \<Rightarrow> store_PrefixedIterator bk io p enc s | None \<Rightarrow> store_Iterator bk io s)
         (\<lambda>i. bind_res rest (\<lambda>m. Ok (m\<lparr>ms_iterators := i # ms_iterators m\<rparr>))))
       instances (Ok \<lparr>ms_current = 0, ms_iterators = []\<rparr>)"

definition wrapper_Iterator :: "('b, 'i) backend_ops \<Rightarrow> 'i iter_ops \<Rightarrow> 'b store list \<Rightarrow> 'i store_iter multi_iter res" where
  "wrapper_Iterator bk io instances = wrapper_iterator bk io None instances"

text \<open>A nil prefix is no prefix.\<close>

definition wrapper_PrefixedIterator :: "('b, 'i) backend_ops \<Rightarrow> 'i iter_ops \<Rightarrow> goval \<Rightarrow> encoder \<Rightarrow> 'b store list
    \<Rightarrow> 'i store_iter multi_iter res" where
  "wrapper_PrefixedIterator bk io keyPrefix enc instances =
     wrapper_iterator bk io (if keyPrefix = GNil then None else Some (keyPrefix, enc)) instances"

text \<open>The loop \<open>for it.Valid() { body; it.Next() }\<close> of a client.\<close>

partial_function (option) multi_loop :: "'i iter_ops \<Rightarrow> ('i store_iter multi_iter \<Rightarrow> 's \<Rightarrow> unit res \<times> 's) \<Rightarrow> 'i store_iter multi_iter \<Rightarrow> 's
    \<Rightarrow> (unit res \<times> 's) option" where
  "multi_loop io body m s = (case ms_Valid io m of
      Panic p \<Rightarrow> Some (Panic p, s)
    | Err e \<Rightarrow> Some (Err e, s)
    | Ok (valid, m1) \<Rightarrow>
        if \<not> valid then Some (Ok (), s)
        else (case body m1 s of
            (Ok _, s1) \<Rightarrow> (case ms_Next io m1 of
                Ok m2 \<Rightarrow> multi_loop io body m2 s1
              | Err e \<Rightarrow> Some (Err e, s1)
              | Panic p \<Rightarrow> Some (Panic p, s1))
          | r \<Rightarrow> Some r))"

section \<open>What a query over several instances finds\<close>

text \<open>What is left: the rest of the current iterator, then the later ones.\<close>

definition ms_left :: "('i \<Rightarrow> (bytes \<times> slice) list) \<Rightarrow> 'i store_iter multi_iter \<Rightarrow> (bytes \<times> slice) list" where
  "ms_left left m = concat (map (\<lambda>i. left (si_i i)) (drop (ms_current m) (ms_iterators m)))"

definition ms_ok :: "('i \<Rightarrow> bool) \<Rightarrow> 'i store_iter multi_iter \<Rightarrow> bool" where
  "ms_ok ok m \<longleftrightarrow> ms_current m < length (ms_iterators m) \<and>
     (\<forall>j. ms_current m \<le> j \<longrightarrow> j < length (ms_iterators m) \<longrightarrow> ok (si_i (ms_iterators m ! j)))"

lemma ms_left_step:
  "ms_current m < length (ms_iterators m) \<Longrightarrow>
     ms_left left m = left (si_i (ms_iterators m ! ms_current m)) @ ms_left left (m\<lparr>ms_current := ms_current m + 1\<rparr>)"
  by (simp add: ms_left_def flip: Cons_nth_drop_Suc)

context iterator
begin

lemma ms_Valid_left:
  assumes "ms_ok ok m"
  shows "\<exists>n. ms_Valid io m = Ok (ms_left left m \<noteq> [], m\<lparr>ms_current := n\<rparr>) \<and> ms_ok ok (m\<lparr>ms_current := n\<rparr>) \<and>
    ms_left left (m\<lparr>ms_current := n\<rparr>) = ms_left left m \<and> (ms_left left m \<noteq> [] \<longrightarrow> left (si_i (ms_iterators m ! n)) \<noteq> [])"
  using assms
proof (induction "length (ms_iterators m) - ms_current m" arbitrary: m)
  case 0
  then show ?case by (simp add: ms_ok_def)
next
  case (Suc d)
  let ?i = "ms_iterators m ! ms_current m" and ?m = "m\<lparr>ms_current := ms_current m + 1\<rparr>"
  have cur: "ms_current m < length (ms_iterators m)" and ok: "ok (si_i ?i)" using Suc.prems by (auto simp: ms_ok_def)
  have at: "ms_at (ms_current m) m = Ok ?i" using cur by (simp add: ms_at_def)
  have v: "si_Valid io ?i \<longleftrightarrow> left (si_i ?i) \<noteq> []" using valid_left [OF ok] by (simp add: si_Valid_def)
  note step = ms_left_step [OF cur, of left]
  show ?case
  proof (cases "left (si_i ?i) = []")
    case False
    then show ?thesis using at v step Suc.prems by (intro exI [of _ "ms_current m"]) (subst ms_Valid.simps, simp)
  next
    case True
    show ?thesis
    proof (cases "ms_current m + 1 < length (ms_iterators m)")
      case more: True
      have "ms_ok ok ?m" using Suc.prems more by (simp add: ms_ok_def)
      moreover have "d = length (ms_iterators ?m) - ms_current ?m" using Suc.hyps(2) by simp
      ultimately obtain n where n:
        "ms_Valid io ?m = Ok (ms_left left ?m \<noteq> [], ?m\<lparr>ms_current := n\<rparr>)" "ms_ok ok (?m\<lparr>ms_current := n\<rparr>)"
        "ms_left left (?m\<lparr>ms_current := n\<rparr>) = ms_left left ?m"
        "ms_left left ?m \<noteq> [] \<longrightarrow> left (si_i (ms_iterators ?m ! n)) \<noteq> []"
        using Suc.hyps(1) [of ?m] by blast
      have "ms_Valid io m = ms_Valid io ?m" using at v True more by (subst ms_Valid.simps) simp
      with n step True show ?thesis by (intro exI [of _ n]) simp
    next
      case False
      then have "ms_left left ?m = []" by (simp add: ms_left_def)
      with step True have "ms_left left m = []" by simp
      then show ?thesis using at v True False Suc.prems by (intro exI [of _ "ms_current m"]) (subst ms_Valid.simps, simp)
    qed
  qed
qed

lemma ms_Next_left:
  assumes "ms_ok ok m" "left (si_i (ms_iterators m ! ms_current m)) = (k, v) # r"
  shows "\<exists>m'. ms_Next io m = Ok m' \<and> ms_ok ok m' \<and> ms_left left m = (k, v) # ms_left left m' \<and>
    map si_keyEncoder (ms_iterators m') = map si_keyEncoder (ms_iterators m) \<and>
    map si_valEncoder (ms_iterators m') = map si_valEncoder (ms_iterators m)"
proof -
  let ?i = "ms_iterators m ! ms_current m"
  have cur: "ms_current m < length (ms_iterators m)" and ok: "ok (si_i ?i)" using assms(1) by (auto simp: ms_ok_def)
  have nx: "left (it_next io (si_i ?i)) = r" "ok (it_next io (si_i ?i))" using next_left [OF ok assms(2)] by simp_all
  let ?m = "ms_put (ms_current m) (si_Next io ?i) m"
  have "ms_Next io m = Ok ?m"
    using cur valid_left [OF ok] assms(2) by (simp add: ms_Next_def ms_at_def si_Valid_def)
  moreover have "ms_ok ok ?m" using assms(1) nx(2) by (auto simp: ms_ok_def ms_put_def si_Next_def nth_list_update)
  moreover have "ms_left left ?m = r @ ms_left left (m\<lparr>ms_current := ms_current m + 1\<rparr>)"
    using cur nx(1) by (simp add: ms_left_def ms_put_def si_Next_def flip: Cons_nth_drop_Suc)
  moreover have "map si_keyEncoder (ms_iterators ?m) = map si_keyEncoder (ms_iterators m)"
    "map si_valEncoder (ms_iterators ?m) = map si_valEncoder (ms_iterators m)"
    using cur by (simp_all add: ms_put_def si_Next_def map_update list_update_same_conv)
  ultimately show ?thesis using ms_left_step [OF cur, of left] assms(2) by auto
qed

lemma multi_loop_forR:
  assumes "ms_ok ok m" "map si_keyEncoder (ms_iterators m) = kes" "map si_valEncoder (ms_iterators m) = ves"
    and "\<And>m s k v r. ms_ok ok m \<Longrightarrow> map si_keyEncoder (ms_iterators m) = kes \<Longrightarrow> map si_valEncoder (ms_iterators m) = ves \<Longrightarrow>
      left (si_i (ms_iterators m ! ms_current m)) = (k, v) # r \<Longrightarrow> body m s = f (k, v) s"
  shows "multi_loop io body m s = Some (forR f (ms_left left m) s)"
  using assms(1-3)
proof (induction "ms_left left m" arbitrary: m s)
  case Nil
  with ms_Valid_left [OF Nil.prems(1)] show ?case by (subst multi_loop.simps) (auto simp flip: Nil.hyps)
next
  case (Cons x xs)
  have ne: "ms_left left m \<noteq> []" "ms_left left m = x # xs" using Cons.hyps(2) by auto
  obtain n where n: "ms_Valid io m = Ok (True, m\<lparr>ms_current := n\<rparr>)"
    "ms_ok ok (m\<lparr>ms_current := n\<rparr>)" "ms_left left (m\<lparr>ms_current := n\<rparr>) = x # xs" "left (si_i (ms_iterators m ! n)) \<noteq> []"
    using ms_Valid_left [OF Cons.prems(1)] ne by auto
  let ?m = "m\<lparr>ms_current := n\<rparr>"
  obtain k v r where l: "left (si_i (ms_iterators ?m ! ms_current ?m)) = (k, v) # r"
    using n(4) by (auto simp: neq_Nil_conv)
  from ms_Next_left [OF n(2) l] n(3) obtain m' where m': "ms_Next io ?m = Ok m'" "ms_ok ok m'" "x = (k, v)" "ms_left left m' = xs"
    "map si_keyEncoder (ms_iterators m') = kes" "map si_valEncoder (ms_iterators m') = ves"
    using Cons.prems(2,3) by auto
  have e: "ms_left left m = (k, v) # xs" using ne(2) m'(3) by simp
  have ih: "multi_loop io body m' s = Some (forR f xs s)" for s using Cons.hyps(1) [of m'] m'(2,4-6) by auto
  show ?case
    unfolding e using n(1) m'(1) assms(4) [OF n(2) _ _ l] Cons.prems(2,3) ih
    by (subst multi_loop.simps) (auto simp: bindR_def split: prod.splits res.splits)
qed

end

text \<open>Over a backend that can be scanned, the query iterates over all entries of all instances.\<close>

context scan_backend
begin

lemma wrapper_iterator_left:
  assumes "\<forall>s\<in>set instances. inv (st_backend s)"
  shows "\<exists>its. wrapper_iterator bk io None instances = Ok \<lparr>ms_current = 0, ms_iterators = its\<rparr> \<and>
    list_all2 (\<lambda>s i. ok (si_i i) \<and> left (si_i i) = entries (st_backend s) \<and> ok (it_first io (si_i i)) \<and>
      left (it_first io (si_i i)) = entries (st_backend s) \<and> si_keyEncoder i = st_keyEncoder s \<and> si_valEncoder i = st_valEncoder s) instances its"
  using assms
proof (induction instances)
  case Nil
  then show ?case by (simp add: wrapper_iterator_def)
next
  case (Cons s instances)
  then obtain its where its: "wrapper_iterator bk io None instances = Ok \<lparr>ms_current = 0, ms_iterators = its\<rparr>"
    "list_all2 (\<lambda>s i. ok (si_i i) \<and> left (si_i i) = entries (st_backend s) \<and> ok (it_first io (si_i i)) \<and>
      left (it_first io (si_i i)) = entries (st_backend s) \<and> si_keyEncoder i = st_keyEncoder s \<and> si_valEncoder i = st_valEncoder s) instances its"
    by auto
  from iterator_entries [of "st_backend s"] Cons.prems obtain i where i: "bk_iterator bk (st_backend s) = Ok i"
    "ok (it_first io i)" "left (it_first io i) = entries (st_backend s)" by auto
  have "store_Iterator bk io s = Ok (NewIterator (it_first io i) (st_keyEncoder s) (st_valEncoder s))"
    by (simp add: store_Iterator_def i)
  moreover have "wrapper_iterator bk io None (s # instances) = bind_res (store_Iterator bk io s)
      (\<lambda>i. bind_res (wrapper_iterator bk io None instances) (\<lambda>m. Ok (m\<lparr>ms_iterators := i # ms_iterators m\<rparr>)))"
    by (simp add: wrapper_iterator_def)
  ultimately show ?case using its i first_again [of i]
    by (intro exI [of _ "NewIterator (it_first io i) (st_keyEncoder s) (st_valEncoder s) # its"]) (simp add: NewIterator_def)
qed

lemma list_all2_concat:
  assumes "list_all2 (\<lambda>s i. left (si_i i) = entries (st_backend s)) instances its"
  shows "concat (map (\<lambda>i. left (si_i i)) its) = concat (map (\<lambda>s. entries (st_backend s)) instances)"
  using assms by (induction rule: list_all2_induct) simp_all

lemma query_all:
  assumes "\<forall>s\<in>set instances. inv (st_backend s) \<and> st_keyEncoder s = kenc \<and> st_valEncoder s = venc" "instances \<noteq> []"
  shows "\<exists>m0 m. wrapper_Iterator bk io instances = Ok m0 \<and> ms_SeekToFirst io m0 = Ok m \<and>
    multi_loop io (\<lambda>m. bindR (pureR (ms_Key io m)) (\<lambda>k. bindR (pureR (ms_Value io m)) (\<lambda>v. f (k, v)))) m s =
      Some (forR (\<lambda>(k, v). bindR (pureR (decode_value kenc (Some k))) (\<lambda>k. bindR (pureR (decode_value venc v)) (\<lambda>v. f (k, v))))
        (concat (map (\<lambda>s. entries (st_backend s)) instances)) s)"
proof -
  obtain its where its: "wrapper_Iterator bk io instances = Ok \<lparr>ms_current = 0, ms_iterators = its\<rparr>"
    and la: "list_all2 (\<lambda>s i. ok (si_i i) \<and> left (si_i i) = entries (st_backend s) \<and> ok (it_first io (si_i i)) \<and>
      left (it_first io (si_i i)) = entries (st_backend s) \<and> si_keyEncoder i = st_keyEncoder s \<and> si_valEncoder i = st_valEncoder s) instances its"
    using wrapper_iterator_left assms(1) unfolding wrapper_Iterator_def by blast
  obtain i r where ir: "its = i # r" using la assms(2) by (cases its) auto
  let ?its = "si_SeekToFirst io i # r" and ?m = "\<lparr>ms_current = 0, ms_iterators = si_SeekToFirst io i # r\<rparr>"
  from assms(2) obtain t ts where inst: "instances = t # ts" by (cases instances) auto
  let ?Q = "\<lambda>s i. ok (si_i i) \<and> left (si_i i) = entries (st_backend s) \<and> si_keyEncoder i = kenc \<and> si_valEncoder i = venc"
  have "list_all2 ?Q ts r"
    by (rule list.rel_mono_strong [OF la [unfolded ir inst list_all2_Cons, THEN conjunct2]]) (use assms(1) inst in auto)
  moreover have "?Q t (si_SeekToFirst io i)"
    using la assms(1) unfolding ir inst list_all2_Cons by (simp add: si_SeekToFirst_def)
  ultimately have la': "list_all2 ?Q instances ?its" unfolding inst by simp
  have seek: "ms_SeekToFirst io \<lparr>ms_current = 0, ms_iterators = its\<rparr> = Ok ?m"
    by (simp add: ms_SeekToFirst_def ms_at_def ms_put_def ir)
  have enc: "\<forall>j<length ?its. si_keyEncoder (?its ! j) = kenc \<and> si_valEncoder (?its ! j) = venc \<and> ok (si_i (?its ! j))"
    using la' by (auto simp: list_all2_conv_all_nth)
  have left: "ms_left left ?m = concat (map (\<lambda>s. entries (st_backend s)) instances)"
    using list_all2_concat [OF list.rel_mono_strong [OF la']] by (simp add: ms_left_def)
  let ?body = "\<lambda>m. bindR (pureR (ms_Key io m)) (\<lambda>k. bindR (pureR (ms_Value io m)) (\<lambda>v. f (k, v)))"
  let ?f = "\<lambda>(k, v). bindR (pureR (decode_value kenc (Some k))) (\<lambda>k. bindR (pureR (decode_value venc v)) (\<lambda>v. f (k, v)))"
  have "multi_loop io ?body ?m s = Some (forR ?f (ms_left left ?m) s)"
  proof (rule multi_loop_forR)
    show "ms_ok ok ?m" using enc by (simp add: ms_ok_def)
    fix m :: "'i store_iter multi_iter" and s and k :: bytes and v r
    assume h: "ms_ok ok m" "map si_keyEncoder (ms_iterators m) = map si_keyEncoder ?its"
      "map si_valEncoder (ms_iterators m) = map si_valEncoder ?its" "left (si_i (ms_iterators m ! ms_current m)) = (k, v) # r"
    then have c: "ms_current m < length (ms_iterators m)" and o: "ok (si_i (ms_iterators m ! ms_current m))" by (auto simp: ms_ok_def)
    have "length (ms_iterators m) = length ?its" using map_eq_imp_length_eq [OF h(2)] .
    with c have "si_keyEncoder (ms_iterators m ! ms_current m) = kenc" "si_valEncoder (ms_iterators m ! ms_current m) = venc"
      using enc nth_map [of "ms_current m" ?its si_keyEncoder] nth_map [of "ms_current m" ?its si_valEncoder]
        arg_cong [OF h(2), of "\<lambda>l. l ! ms_current m"] arg_cong [OF h(3), of "\<lambda>l. l ! ms_current m"] by (metis nth_map)+
    then show "?body m s = ?f (k, v) s"
      using c key_left [OF o h(4)] value_left [OF o h(4)] by (simp add: ms_Key_def ms_Value_def ms_at_def si_Key_def si_Value_def)
  qed simp_all
  with its seek left show ?thesis by auto
qed

end


definition sample_instance :: "memory store" where
  "sample_instance = \<lparr>st_name = ''counts'', st_keyEncoder = ByteEncoder, st_valEncoder = ByteEncoder, st_backend = sample_memory,
     st_backendBuilder = (\<lambda>_. Ok sample_memory)\<rparr>"


text \<open>A store without instances is not empty for a client that seeks first: it panics.\<close>

lemma no_instances_panic:
  "wrapper_Iterator bk io [] = Ok m0 \<Longrightarrow> ms_SeekToFirst io m0 = Panic ''index out of range''"
  by (auto simp: wrapper_Iterator_def wrapper_iterator_def ms_SeekToFirst_def ms_at_def)

section \<open>What the registry finds\<close>

definition reg_inv :: "('s, 'x) store_ops \<Rightarrow> ('s, 'x, 'b, 'w) registry \<Rightarrow> bool" where
  "reg_inv so r \<longleftrightarrow> distinct (map fst (rr_stores r)) \<and> (\<forall>(n, s)\<in>set (rr_stores r). so_Name so s = n)"

lemma new_registry_inv [simp]: "reg_inv so NewRegistry" by (simp add: reg_inv_def NewRegistry_def)

lemma add_indexes_inv [simp]: "reg_inv so (add_indexes ixs r) = reg_inv so r" by (simp add: reg_inv_def add_indexes_def)

lemma add_store_inv:
  assumes "reg_inv so r" "so_Name so s = name"
  shows "reg_inv so (add_store_named name s r)"
proof -
  have "so_Name so s' = n" if "(n, s') \<in> set (AList.update name s (rr_stores r))" for n s'
  proof -
    have "map_of (AList.update name s (rr_stores r)) n = Some s'"
      using that assms(1) by (simp add: reg_inv_def distinct_update)
    then show ?thesis using assms by (auto simp: update_conv' reg_inv_def split: if_splits dest!: map_of_SomeD)
  qed
  then show ?thesis using assms(1) by (auto simp: reg_inv_def add_store_named_def distinct_update)
qed

lemma Register_inv: "reg_inv so r \<Longrightarrow> reg_inv so (snd (reg_Register so store r))"
  by (auto simp: reg_Register_def Let_def intro!: add_store_inv split: option.splits)

lemma RegisterDynamic_inv: "reg_inv so r \<Longrightarrow> reg_inv so (snd (reg_RegisterDynamic name lister r))"
  by (simp add: reg_RegisterDynamic_def reg_inv_def)

lemma Create_inv:
  assumes "reg_inv so r" "\<And>s. build name = Ok s \<Longrightarrow> so_Name so s = name"
  shows "reg_inv so (snd (reg_Create build so name r))" "reg_inv so (snd (reg_CreateOrReturn build so name r))"
    "reg_inv so (snd (reg_NewIndexedStore build so name r))"
  using assms by (auto simp: reg_Create_def reg_CreateOrReturn_def reg_NewIndexedStore_def intro!: add_store_inv split: res.splits option.splits)

lemma NewBuilder_inv: "reg_inv so r \<Longrightarrow> reg_inv so (snd (reg_NewBuilder b name r))"
  by (auto simp: reg_NewBuilder_def reg_inv_def split: option.splits)

text \<open>\<open>NewRegistry\<close> does not make the map of the builders, so no builder can ever be added.\<close>

lemma new_builder_panics:
  "reg_NewBuilder b name NewRegistry = (Panic ''assignment to entry in nil map'', NewRegistry)"
  by (simp add: reg_NewBuilder_def NewRegistry_def)

text \<open>C35: In a registry whose entries are named after their stores, an invariant of all its operations, \<open>Store\<close> finds a store of the given
  name exactly when there is one among the static stores and the instances, static ones first; and after a successful \<open>Register\<close> it finds
  the registered store, whatever the listers give, while a second store of the name is refused and changes nothing.\<close>
theorem registry_lookup:
  assumes "reg_inv so r"
  shows "(case reg_Store so name w r of
      Ok s \<Rightarrow> s \<in> set (reg_Stores w r) \<and> so_Name so s = name
    | Err _ \<Rightarrow> \<not> list_ex (\<lambda>s. so_Name so s = name) (reg_Stores w r)
    | Panic _ \<Rightarrow> False) \<and>
    (let (e, r') = reg_Register so s r
     in reg_inv so r' \<and>
       (if list_ex (\<lambda>s'. so_Name so s' = so_Name so s) (map snd (rr_stores r)) then r' = r \<and> e = Err (already_exists (so_Name so s))
        else e = Ok () \<and> reg_Store so (so_Name so s) w r' = Ok s \<and>
          (so_Name so s \<noteq> name \<longrightarrow> reg_Store so name w r' = reg_Store so name w r)))"
proof -
  have named: "map_of (rr_stores r) n = Some s \<Longrightarrow> so_Name so s = n \<and> (n, s) \<in> set (rr_stores r)" for n s
    using assms by (auto simp: reg_inv_def dest: map_of_SomeD)
  have none: "map_of (rr_stores r) n = None \<longleftrightarrow> \<not> list_ex (\<lambda>s. so_Name so s = n) (map snd (rr_stores r))" for n
    using assms by (force simp: reg_inv_def map_of_eq_None_iff list_ex_iff)
  have "case reg_Store so name w r of
      Ok s \<Rightarrow> s \<in> set (reg_Stores w r) \<and> so_Name so s = name
    | Err _ \<Rightarrow> \<not> list_ex (\<lambda>s. so_Name so s = name) (reg_Stores w r)
    | Panic _ \<Rightarrow> False"
  proof -
    define dyn where "dyn = concat (map (\<lambda>(_, lister). lister w) (rr_dynamicStores r))"
    have st: "reg_Stores w r = map snd (rr_stores r) @ dyn" by (simp add: reg_Stores_def dyn_def)
    have fd: "find P dyn = None \<longleftrightarrow> \<not> list_ex P dyn" "find P dyn = Some s \<Longrightarrow> s \<in> set dyn \<and> P s" for P s
      by (auto simp: find_None_iff list_ex_iff find_Some_iff)
    show ?thesis
      unfolding st reg_Store_def dyn_def [symmetric]
      using named [of name] none [of name] fd(1) [of "\<lambda>s. so_Name so s = name"] fd(2) [of "\<lambda>s. so_Name so s = name"]
      by (auto split: option.splits intro: rev_image_eqI)
  qed
  moreover have "let (e, r') = reg_Register so s r
     in reg_inv so r' \<and>
       (if list_ex (\<lambda>s'. so_Name so s' = so_Name so s) (map snd (rr_stores r)) then r' = r \<and> e = Err (already_exists (so_Name so s))
        else e = Ok () \<and> reg_Store so (so_Name so s) w r' = Ok s \<and>
          (so_Name so s \<noteq> name \<longrightarrow> reg_Store so name w r' = reg_Store so name w r))"
    using Register_inv [OF assms, of s] none [of "so_Name so s"]
    by (auto simp: reg_Register_def reg_Store_def add_store_named_def add_indexes_def update_conv' Let_def split: option.splits)
  ultimately show ?thesis by blast
qed

theorem registry_lookup_witness:
  "let so = \<lparr>so_Name = fst, so_Indexes = (\<lambda>_. None), so_writable = (\<lambda>_. True)\<rparr> :: (string \<times> nat, nat) store_ops;
       r = snd (reg_RegisterDynamic ''counts'' (\<lambda>w. [(''counts-0'', w)]) (snd (reg_Register so (''counts'', 7) NewRegistry))) :: (_, nat, nat, nat) registry
   in reg_Store so ''counts'' 3 r = Ok (''counts'', 7) \<and> reg_Store so ''counts-0'' 3 r = Ok (''counts-0'', 3) \<and>
     reg_Register so (''counts'', 8) r = (Err (already_exists ''counts''), r)"
proof -
  let ?so = "\<lparr>so_Name = fst, so_Indexes = (\<lambda>_. None), so_writable = (\<lambda>_. True)\<rparr> :: (string \<times> nat, nat) store_ops"
  let ?r = "snd (reg_RegisterDynamic ''counts'' (\<lambda>w. [(''counts-0'', w)]) (snd (reg_Register ?so (''counts'', 7) NewRegistry))) :: (_, nat, nat, nat) registry"
  have i: "reg_inv ?so ?r" by (intro RegisterDynamic_inv Register_inv) simp
  have r: "?r = \<lparr>rr_stores = [(''counts'', ''counts'', 7)], rr_storeBuilders = None, rr_dynamicStores = [(''counts'', \<lambda>w. [(''counts-0'', w)])],
      rr_indexes = []\<rparr>"
    by (simp add: NewRegistry_def reg_Register_def reg_RegisterDynamic_def add_store_named_def)
  show ?thesis
    using registry_lookup [OF i, where name = "''counts-0''" and w = 3 and s = "(''counts'', 8)"]
    unfolding Let_def r by (auto simp: reg_Store_def split: if_splits)
qed

end
