(* ===== verification/Goroutines.thy ===== *)
theory Goroutines
  imports Prelude
begin

text \<open>
  Goroutines started together over a shared state, as in \<open>for ... { wg.Add(1); go f() }; wg.Wait()\<close>. A goroutine is a value \<open>'g\<close>, the
  point it is at with what it has computed; \<open>step i g m\<close> is the next atomic step of the \<open>i\<close>-th of them in the shared state \<open>m\<close>, or
  \<open>None\<close> when it has ended. A schedule names the goroutine that moves at each step, so a property that holds for every schedule holds for
  every interleaving.
\<close>

fun par_run :: "(nat \<Rightarrow> 'g \<Rightarrow> 'm \<Rightarrow> ('g \<times> 'm) option) \<Rightarrow> nat list \<Rightarrow> 'g list \<times> 'm \<Rightarrow> ('g list \<times> 'm) option" where
  "par_run step [] s = Some s"
| "par_run step (i # sched) (gs, m) =
     (if i < length gs then (case step i (gs ! i) m of
          Some (g', m') \<Rightarrow> par_run step sched (gs[i := g'], m')
        | None \<Rightarrow> None)
      else None)"

text \<open>
  Where the goroutines have got to: \<open>outcome g\<close> is \<open>None\<close> while \<open>g\<close> runs, then what it ended with. A panic ends the program at once, else
  the group is waited for.
\<close>

definition is_panic :: "unit res option \<Rightarrow> bool" where
  "is_panic r = (case r of Some (Panic _) \<Rightarrow> True | _ \<Rightarrow> False)"

definition par_end :: "('g \<Rightarrow> unit res option) \<Rightarrow> 'g list \<Rightarrow> unit res option" where
  "par_end outcome gs = (case find (\<lambda>g. is_panic (outcome g)) gs of
      Some g \<Rightarrow> outcome g
    | None \<Rightarrow> if list_all (\<lambda>g. outcome g \<noteq> None) gs then Some (Ok ()) else None)"

lemma is_panic_iff: "is_panic r \<longleftrightarrow> (\<exists>p. r = Some (Panic p))"
  by (auto simp: is_panic_def split: option.splits res.splits)

lemma par_run_Cons:
  "par_run step (i # sched) (gs, m) = Some s \<longleftrightarrow>
     i < length gs \<and> (\<exists>g' m'. step i (gs ! i) m = Some (g', m') \<and> par_run step sched (gs[i := g'], m') = Some s)"
  by (auto split: option.splits)

declare par_run.simps(2) [simp del]

lemma par_run_length: "par_run step sched (gs, m) = Some (gs', m') \<Longrightarrow> length gs' = length gs"
  by (induction sched arbitrary: gs m) (auto simp: par_run_Cons)

lemma par_end_Ok:
  assumes "par_end outcome gs = Some (Ok ())" "i < length gs"
  shows "outcome (gs ! i) \<noteq> None \<and> (\<forall>p. outcome (gs ! i) \<noteq> Some (Panic p))"
proof -
  have "find (\<lambda>g. \<exists>p. outcome g = Some (Panic p)) gs = None"
    using assms(1) by (auto simp: par_end_def is_panic_iff find_Some_iff split: option.splits)
  with assms have "find (\<lambda>g. \<exists>p. outcome g = Some (Panic p)) gs = None" "list_all (\<lambda>g. outcome g \<noteq> None) gs"
    by (auto simp: par_end_def is_panic_iff split: if_splits)
  then show ?thesis using assms(2) by (auto simp: find_None_iff list_all_length)
qed

text \<open>
  Rely and guarantee: what a goroutine establishes about itself and the shared state (\<open>Q i\<close>), which the steps of the others do not
  disturb, holds at the end, and so does what every step keeps (\<open>I\<close>).
\<close>

lemma par_run_inv:
  assumes "par_run step sched (gs, m) = Some (gs', m')" "I m" "\<And>i. i < length gs \<Longrightarrow> Q i (gs ! i) m"
    and own: "\<And>i g m g' m'. i < length gs \<Longrightarrow> I m \<Longrightarrow> Q i g m \<Longrightarrow> step i g m = Some (g', m') \<Longrightarrow> Q i g' m' \<and> I m'"
    and others: "\<And>i j g h m g' m'. i < length gs \<Longrightarrow> j < length gs \<Longrightarrow> i \<noteq> j \<Longrightarrow> I m \<Longrightarrow> Q i g m \<Longrightarrow> Q j h m \<Longrightarrow>
      step i g m = Some (g', m') \<Longrightarrow> Q j h m'"
  shows "I m' \<and> (\<forall>i < length gs. Q i (gs' ! i) m')"
proof -
  define n where "n = length gs"
  have "par_run step sched (gs, m) = Some (gs', m') \<Longrightarrow> length gs = n \<Longrightarrow> I m \<Longrightarrow> \<forall>i < n. Q i (gs ! i) m \<Longrightarrow>
      I m' \<and> (\<forall>i < n. Q i (gs' ! i) m')" for gs m
  proof (induction sched arbitrary: gs m)
    case (Cons i sched)
    from Cons.prems(1,2) obtain g1 m1 where i: "i < n" "step i (gs ! i) m = Some (g1, m1)"
      "par_run step sched (gs[i := g1], m1) = Some (gs', m')" by (auto simp: par_run_Cons)
    have "Q i g1 m1 \<and> I m1" using own [OF _ Cons.prems(3) _ i(2)] i(1) Cons.prems(4) by (simp add: n_def)
    moreover have "\<And>j. j < n \<Longrightarrow> j \<noteq> i \<Longrightarrow> Q j (gs ! j) m1"
      using others [OF _ _ _ Cons.prems(3) _ _ i(2)] i(1) Cons.prems(4) by (simp add: n_def)
    ultimately have "\<forall>j < n. Q j (gs[i := g1] ! j) m1" "I m1" using i(1) Cons.prems(2) by (auto simp: nth_list_update)
    then show ?case using Cons.IH [OF i(3)] Cons.prems(2) by simp
  qed simp
  then show ?thesis using assms(1-3) by (simp add: n_def)
qed

section \<open>Groups that always end\<close>

text \<open>When every step gets a goroutine closer to its end and none ever blocks, every schedule is short and every group ends.\<close>

locale goroutines =
  fixes step :: "nat \<Rightarrow> 'g \<Rightarrow> 'm \<Rightarrow> ('g \<times> 'm) option" and left :: "'g \<Rightarrow> nat" and outcome :: "'g \<Rightarrow> unit res option"
  assumes step_left: "step i g m = Some (g', m') \<Longrightarrow> left g' < left g"
    and ended: "outcome g \<noteq> None \<longleftrightarrow> left g = 0"
    and never_blocks: "left g \<noteq> 0 \<Longrightarrow> step i g m \<noteq> None"
begin

lemma par_run_bound:
  "par_run step sched (gs, m) = Some (gs', m') \<Longrightarrow> length sched + sum_list (map left gs') \<le> sum_list (map left gs)"
proof (induction sched arbitrary: gs m)
  case (Cons i sched)
  then obtain g1 m1 where i: "i < length gs" "step i (gs ! i) m = Some (g1, m1)" "par_run step sched (gs[i := g1], m1) = Some (gs', m')"
    by (auto simp: par_run_Cons)
  have "sum_list (map left (gs[i := g1])) < sum_list (map left gs)"
    using i(1) step_left [OF i(2)] elem_le_sum_list [of i "map left gs"] by (simp add: map_update sum_list_update)
  with Cons.IH [OF i(3)] show ?case by simp
qed simp

lemma par_run_goes_on:
  assumes "par_end outcome gs = None"
  shows "\<exists>i s. par_run step [i] (gs, m) = Some s"
proof -
  obtain i where i: "i < length gs" "left (gs ! i) \<noteq> 0"
    using assms ended by (fastforce simp: par_end_def is_panic_iff list_all_length find_Some_iff split: option.splits if_splits)
  from never_blocks [OF i(2)] show ?thesis using i(1) by (force simp: par_run_Cons)
qed

text \<open>So a schedule can always be completed.\<close>

lemma par_run_completes:
  "\<exists>sched gs' m'. par_run step sched (gs, m) = Some (gs', m') \<and> par_end outcome gs' \<noteq> None"
proof (induction "sum_list (map left gs)" arbitrary: gs m rule: less_induct)
  case less
  show ?case
  proof (cases "par_end outcome gs")
    case None
    then obtain i gs1 m1 where i: "par_run step [i] (gs, m) = Some (gs1, m1)" using par_run_goes_on [of gs m] by auto
    with par_run_bound [OF i] obtain sched gs' m' where "par_run step sched (gs1, m1) = Some (gs', m')" "par_end outcome gs' \<noteq> None"
      using less [of gs1 m1] by force
    with i have "par_run step (i # sched) (gs, m) = Some (gs', m')" by (auto simp: par_run_Cons)
    then show ?thesis using \<open>par_end outcome gs' \<noteq> None\<close> by blast
  next
    case (Some r)
    then have "par_run step [] (gs, m) = Some (gs, m) \<and> par_end outcome gs \<noteq> None" by simp
    then show ?thesis by blast
  qed
qed

end

end
