(* ===== verification/Task_Manager.thy ===== *)
theory Task_Manager
  imports Goroutines Task_Assignment Task_Lifecycle
begin

text \<open>
  The task manager, \<open>src/streams/tasks/task_manager.go\<close>, with the producer it gives a task (\<open>stream_producer.go\<close>) and the tasks of
  global tables (\<open>global_task.go\<close>), and the consumer that adds and removes tasks as partitions are assigned and revoked,
  \<open>src/streams/stream_consumer_instance.go\<close>. The \<open>sync.Map\<close> of the tasks is an association list; loggers and metrics are left out.
\<close>

section \<open>State\<close>

text \<open>\<open>sp_interceptor\<close> is set after the sub topology has been built with the producer, so stream producers live in the manager and are
  named by their position.\<close>

record 'p stream_producer =
  sp_TransactionalProducer :: 'p
  sp_interceptor :: "string option"

text \<open>The fields of a task that are set when it is made; what a task does afterwards is the state \<open>'w\<close> of the program.\<close>

record ('p, 'v, 'st, 'w) ktask =
  kk_id :: task_id
  kk_global :: bool
  kk_subTopology :: "('v, 'st) ksub_topology"
  kk_producer :: "'p option"
  kk_options :: "'w task_options"
  kk_processorInterceptor :: "string option"

text \<open>
  What the manager calls: the application, the builder of producers (given a transactional id), the interceptors that a builder name and
  a producer stand for, \<open>Build\<close> of a sub topology for a partition and a producer, and the operations of the built tasks.
\<close>

record ('p, 'v, 'st, 'w) manager_env =
  me_ApplicationId :: string
  me_ProducerBuilder :: "string \<Rightarrow> 'w \<Rightarrow> 'p res \<times> 'w"
  me_transactional :: "'p \<Rightarrow> bool"
  me_ProduceAsync :: "'p \<Rightarrow> krecord \<Rightarrow> 'w \<Rightarrow> unit res \<times> 'w"
  me_OnProduce :: "string \<Rightarrow> 'p \<Rightarrow> krecord \<Rightarrow> krecord"
  me_Build :: "nat \<Rightarrow> int32 \<Rightarrow> nat option \<Rightarrow> (string \<times> ktopic) list \<Rightarrow> 'w \<Rightarrow> ('v, 'st) ksub_topology res \<times> 'w"
  me_taskOpts :: "'w task_opt list"
  me_failedMessageHandler :: "gerror \<Rightarrow> krecord \<Rightarrow> 'w \<Rightarrow> 'w"
  me_Restore :: "('p, 'v, 'st, 'w) ktask \<Rightarrow> 'w \<Rightarrow> unit res \<times> 'w"
  me_Init :: "('p, 'v, 'st, 'w) ktask \<Rightarrow> 'w \<Rightarrow> unit res \<times> 'w"
  me_Start :: "topic_partition \<Rightarrow> ('p, 'v, 'st, 'w) ktask \<Rightarrow> 'w \<Rightarrow> unit res \<times> 'w"
  me_Stop :: "('p, 'v, 'st, 'w) ktask \<Rightarrow> 'w \<Rightarrow> unit res \<times> 'w"

record ('p, 'v, 'st, 'w) task_manager =
  mg_tasks :: "(string \<times> ('p, 'v, 'st, 'w) ktask) list"
  mg_producers :: "'p stream_producer list"
  mg_topicConfigs :: "(string \<times> ktopic) list"
  mg_world :: 'w

text \<open>\<open>fetchInfo\<close> is \<open>FetchInfo\<close> of the admin client on the topics of the sub topologies.\<close>

definition NewTaskManager :: "('w \<Rightarrow> (string \<times> ktopic) list res \<times> 'w) \<Rightarrow> string \<Rightarrow> 'w \<Rightarrow> ('p, 'v, 'st, 'w) task_manager res \<times> 'w" where
  "NewTaskManager fetchInfo topics w =
     bindR (wrapR (''Topic meta fetch failed for '' @ topics) fetchInfo)
       (\<lambda>cfg w. (Ok \<lparr>mg_tasks = [], mg_producers = [], mg_topicConfigs = cfg, mg_world = w\<rparr>, w)) w"

definition sp_ProduceAsync :: "('p, 'v, 'st, 'w) manager_env \<Rightarrow> nat \<Rightarrow> krecord \<Rightarrow> ('p, 'v, 'st, 'w) task_manager
    \<Rightarrow> unit res \<times> ('p, 'v, 'st, 'w) task_manager" where
  "sp_ProduceAsync env i rec m =
     (let p = mg_producers m ! i;
          rec' = (case sp_interceptor p of Some ic \<Rightarrow> me_OnProduce env ic (sp_TransactionalProducer p) rec | None \<Rightarrow> rec)
      in case me_ProduceAsync env (sp_TransactionalProducer p) rec' (mg_world m) of (r, w) \<Rightarrow> (r, m\<lparr>mg_world := w\<rparr>))"

definition NewTaskId :: "string \<Rightarrow> topic_partition \<Rightarrow> task_id" where
  "NewTaskId pre tp =
     (let pre' = (if pre \<noteq> '''' then pre @ ''-'' else pre)
      in \<lparr>ti_id = 0, ti_hash = '''', ti_prefix = pre' @ ''Task('' @ tp_String tp @ '')'', ti_partition = tp_Partition tp, ti_topics = ''''\<rparr>)"

section \<open>The tasks of global tables\<close>

text \<open>
  \<open>Init\<close> initialises the sub topology, then (deferred) adds the syncer of each of its \<open>n\<close> stores to the group; a global task processes
  nothing itself; \<open>Stop\<close> is \<open>Stop\<close> of the group.
\<close>

definition gt_Init :: "('w \<Rightarrow> unit res \<times> 'w) \<Rightarrow> nat \<Rightarrow> run_group \<times> 'w \<Rightarrow> unit res \<times> run_group \<times> 'w" where
  "gt_Init initSub n s = (case initSub (snd s) of (r, w) \<Rightarrow> (r, (rg_Add ^^ n) (fst s), w))"

definition gt_Start :: "unit res" where
  "gt_Start = Panic ''GlobalTask does not support processing''"

definition gt_Stop :: "run_group \<Rightarrow> run_group option" where
  "gt_Stop g = rg_Stop g"

text \<open>A call on a task of the manager.\<close>

definition on_task :: "(('p, 'v, 'st, 'w) ktask \<Rightarrow> 'w \<Rightarrow> unit res \<times> 'w) \<Rightarrow> ('p, 'v, 'st, 'w) ktask
    \<Rightarrow> ('p, 'v, 'st, 'w) task_manager \<Rightarrow> unit res \<times> ('p, 'v, 'st, 'w) task_manager" where
  "on_task call t m = (case call t (mg_world m) of (r, w) \<Rightarrow> (r, m\<lparr>mg_world := w\<rparr>))"

definition task_Start :: "('p, 'v, 'st, 'w) manager_env \<Rightarrow> topic_partition \<Rightarrow> ('p, 'v, 'st, 'w) ktask
    \<Rightarrow> ('p, 'v, 'st, 'w) task_manager \<Rightarrow> unit res \<times> ('p, 'v, 'st, 'w) task_manager" where
  "task_Start env claim t m = (if kk_global t then (gt_Start, m) else on_task (me_Start env claim) t m)"

section \<open>Adding a task\<close>

text \<open>The stages of \<open>addTask\<close>; each is one or more calls on the shared state.\<close>

definition load_task :: "task_id \<Rightarrow> ('p, 'v, 'st, 'w) task_manager \<Rightarrow> ('p, 'v, 'st, 'w) ktask option" where
  "load_task tid m = map_of (mg_tasks m) (tid_String tid)"

definition store_task :: "('p, 'v, 'st, 'w) ktask \<Rightarrow> ('p, 'v, 'st, 'w) task_manager \<Rightarrow> ('p, 'v, 'st, 'w) task_manager" where
  "store_task t m = m\<lparr>mg_tasks := AList.update (tid_String (kk_id t)) t (mg_tasks m)\<rparr>"

definition delete_task :: "task_id \<Rightarrow> ('p, 'v, 'st, 'w) task_manager \<Rightarrow> ('p, 'v, 'st, 'w) task_manager" where
  "delete_task tid m = m\<lparr>mg_tasks := AList.delete (tid_String tid) (mg_tasks m)\<rparr>"

definition close_existing :: "('p, 'v, 'st, 'w) manager_env \<Rightarrow> task_id \<Rightarrow> ('p, 'v, 'st, 'w) task_manager
    \<Rightarrow> unit res \<times> ('p, 'v, 'st, 'w) task_manager" where
  "close_existing env tid m = (case load_task tid m of
      Some t \<Rightarrow> wrapR ''task close error'' (on_task (me_Stop env) t) m
    | None \<Rightarrow> (Ok (), m))"

definition txID :: "string \<Rightarrow> task_id \<Rightarrow> string" where
  "txID app tid = app @ ''-'' @ tid_String tid @ ''('' @ tid_UniqueID tid @ '')''"

text \<open>The new stream producer is returned by its position.\<close>

definition build_producer :: "('p, 'v, 'st, 'w) manager_env \<Rightarrow> task_id \<Rightarrow> ('p, 'v, 'st, 'w) task_manager
    \<Rightarrow> ('p \<times> nat) res \<times> ('p, 'v, 'st, 'w) task_manager" where
  "build_producer env tid m =
     (case wrapR ''task build failed'' (me_ProducerBuilder env (txID (me_ApplicationId env) tid)) (mg_world m) of
        (r, w) \<Rightarrow> (bind_res r (\<lambda>p. if me_transactional env p then Ok (p, length (mg_producers m))
                      else Panic ''interface conversion: not a TransactionalProducer''),
                   m\<lparr>mg_world := w, mg_producers := mg_producers m @
                       (case r of Ok p \<Rightarrow> if me_transactional env p then [\<lparr>sp_TransactionalProducer = p, sp_interceptor = None\<rparr>] else []
                        | _ \<Rightarrow> [])\<rparr>))"

definition build_sub :: "('p, 'v, 'st, 'w) manager_env \<Rightarrow> task_id \<Rightarrow> nat \<Rightarrow> nat option \<Rightarrow> ('p, 'v, 'st, 'w) task_manager
    \<Rightarrow> ('v, 'st) ksub_topology res \<times> ('p, 'v, 'st, 'w) task_manager" where
  "build_sub env tid tp sp m =
     (case me_Build env tp (tid_Partition tid) sp (mg_topicConfigs m) (mg_world m) of (r, w) \<Rightarrow> (r, m\<lparr>mg_world := w\<rparr>))"

text \<open>A \<open>taskOptions\<close> with the defaults and the options of the manager.\<close>

definition new_options :: "('p, 'v, 'st, 'w) manager_env \<Rightarrow> 'w task_options" where
  "new_options env = to_apply (me_taskOpts env)
     ((to_setDefault \<lparr>to_FlushInterval = 0, to_Size = 0, to_failedMessageHandler = (\<lambda>_ _ w. w), to_taskInterceptorBuilder = None\<rparr>)
        \<lparr>to_failedMessageHandler := me_failedMessageHandler env\<rparr>)"

text \<open>The interceptor is wired to the producer, which the sub topology already has, and to the task.\<close>

definition make_task :: "('p, 'v, 'st, 'w) manager_env \<Rightarrow> task_id \<Rightarrow> 'p \<Rightarrow> nat \<Rightarrow> ('v, 'st) ksub_topology \<Rightarrow> ('p, 'v, 'st, 'w) task_manager
    \<Rightarrow> ('p, 'v, 'st, 'w) ktask res \<times> ('p, 'v, 'st, 'w) task_manager" where
  "make_task env tid p i sub m =
     (let opts = new_options env; ic = to_taskInterceptorBuilder opts
      in (Ok \<lparr>kk_id = tid, kk_global = False, kk_subTopology = sub, kk_producer = Some p, kk_options = opts, kk_processorInterceptor = ic\<rparr>,
          m\<lparr>mg_producers := (mg_producers m)[i := (mg_producers m ! i)\<lparr>sp_interceptor := ic\<rparr>]\<rparr>))"

definition addTask :: "('p, 'v, 'st, 'w) manager_env \<Rightarrow> task_id \<Rightarrow> nat \<Rightarrow> ('p, 'v, 'st, 'w) task_manager
    \<Rightarrow> ('p, 'v, 'st, 'w) ktask res \<times> ('p, 'v, 'st, 'w) task_manager" where
  "addTask env tid subTopology =
     bindR (close_existing env tid) (\<lambda>_.
     bindR (build_producer env tid) (\<lambda>(p, i).
     bindR (build_sub env tid subTopology (Some i)) (\<lambda>sub.
     bindR (make_task env tid p i sub) (\<lambda>t.
     bindR (wrapR ''task restore failed'' (on_task (me_Restore env) t)) (\<lambda>_ m.
     (Ok t, store_task t m))))))"

definition addGlobalTask :: "('p, 'v, 'st, 'w) manager_env \<Rightarrow> task_id \<Rightarrow> nat \<Rightarrow> ('p, 'v, 'st, 'w) task_manager
    \<Rightarrow> ('p, 'v, 'st, 'w) ktask res \<times> ('p, 'v, 'st, 'w) task_manager" where
  "addGlobalTask env tid subTpB =
     bindR (build_sub env tid subTpB None) (\<lambda>sub.
       let t = \<lparr>kk_id = tid, kk_global = True, kk_subTopology = sub, kk_producer = None, kk_options = new_options env,
                kk_processorInterceptor = None\<rparr>
       in bindR (on_task (me_Init env) t) (\<lambda>_ m. (Ok t, store_task t m)))"

section \<open>Finding and removing tasks\<close>

definition mg_RemoveTask :: "('p, 'v, 'st, 'w) manager_env \<Rightarrow> task_id \<Rightarrow> ('p, 'v, 'st, 'w) task_manager
    \<Rightarrow> unit res \<times> ('p, 'v, 'st, 'w) task_manager" where
  "mg_RemoveTask env tid m = (case load_task tid m of
      None \<Rightarrow> (Ok (), m)
    | Some t \<Rightarrow> bindR (wrapR ''task stop failed'' (on_task (me_Stop env) t)) (\<lambda>_ m. (Ok (), delete_task tid m)) m)"

definition mg_Task :: "task_id \<Rightarrow> ('p, 'v, 'st, 'w) task_manager \<Rightarrow> ('p, 'v, 'st, 'w) ktask res" where
  "mg_Task tid m = (case load_task tid m of
      None \<Rightarrow> Err (err_New (''task ['' @ tid_String tid @ ''] doesn't exists''))
    | Some t \<Rightarrow> Ok t)"

definition StoreInstances :: "string \<Rightarrow> ('p, 'v, 'st, 'w) task_manager \<Rightarrow> 'st list" where
  "StoreInstances name m = List.map_filter (\<lambda>(_, t). map_of (ks_stores (kk_subTopology t)) name) (mg_tasks m)"

section \<open>Adding a task as a goroutine\<close>

text \<open>
  The stages of \<open>addTask\<close> as atomic steps of a goroutine whose error is a panic (\<open>panic(err)\<close> in \<open>OnPartitionAssigned\<close>). Run by itself it
  does what \<open>addTask\<close> does.
\<close>

datatype ('p, 'v, 'st, 'w) add_phase = AddStart | AddClosed | AddProducer 'p nat | AddSub 'p nat "('v, 'st) ksub_topology"
  | AddMade "('p, 'v, 'st, 'w) ktask" | AddRestored "('p, 'v, 'st, 'w) ktask" | AddDone "('p, 'v, 'st, 'w) ktask" | AddPanic string

definition add_next :: "('x \<Rightarrow> ('p, 'v, 'st, 'w) add_phase) \<Rightarrow> 'x res \<times> 'm \<Rightarrow> (('p, 'v, 'st, 'w) add_phase \<times> 'm) option" where
  "add_next f rm = (case rm of (Ok x, m) \<Rightarrow> Some (f x, m) | (Err e, m) \<Rightarrow> Some (AddPanic ''task add error'', m)
     | (Panic p, m) \<Rightarrow> Some (AddPanic p, m))"

fun add_step :: "('p, 'v, 'st, 'w) manager_env \<Rightarrow> task_id \<Rightarrow> nat \<Rightarrow> ('p, 'v, 'st, 'w) add_phase \<Rightarrow> ('p, 'v, 'st, 'w) task_manager
    \<Rightarrow> (('p, 'v, 'st, 'w) add_phase \<times> ('p, 'v, 'st, 'w) task_manager) option" where
  "add_step env tid tp AddStart m = add_next (\<lambda>_. AddClosed) (close_existing env tid m)"
| "add_step env tid tp AddClosed m = add_next (\<lambda>(p, i). AddProducer p i) (build_producer env tid m)"
| "add_step env tid tp (AddProducer p i) m = add_next (AddSub p i) (build_sub env tid tp (Some i) m)"
| "add_step env tid tp (AddSub p i sub) m = add_next AddMade (make_task env tid p i sub m)"
| "add_step env tid tp (AddMade t) m =
     add_next (\<lambda>_. AddRestored t) (wrapR ''task restore failed'' (on_task (me_Restore env) t) m)"
| "add_step env tid tp (AddRestored t) m = Some (AddDone t, store_task t m)"
| "add_step env tid tp (AddDone t) m = None"
| "add_step env tid tp (AddPanic p) m = None"

fun add_outcome :: "('p, 'v, 'st, 'w) add_phase \<Rightarrow> unit res option" where
  "add_outcome (AddDone t) = Some (Ok ())"
| "add_outcome (AddPanic p) = Some (Panic p)"
| "add_outcome _ = None"

fun add_left :: "('p, 'v, 'st, 'w) add_phase \<Rightarrow> nat" where
  "add_left AddStart = 6"
| "add_left AddClosed = 5"
| "add_left (AddProducer _ _) = 4"
| "add_left (AddSub _ _ _) = 3"
| "add_left (AddMade _) = 2"
| "add_left (AddRestored _) = 1"
| "add_left (AddDone _) = 0"
| "add_left (AddPanic _) = 0"

lemma add_next_Some: "add_next f rm \<noteq> None"
  by (auto simp: add_next_def split: prod.splits res.splits)

lemma add_next_cases:
  "add_next f rm = Some (g, m) \<longleftrightarrow> (\<exists>x. rm = (Ok x, m) \<and> g = f x) \<or>
     (\<exists>e. rm = (Err e, m) \<and> g = AddPanic ''task add error'') \<or> (\<exists>p. rm = (Panic p, m) \<and> g = AddPanic p)"
  by (auto simp: add_next_def split: prod.splits res.splits)

lemma add_step_Some: "add_left g \<noteq> 0 \<Longrightarrow> add_step env tid tp g m \<noteq> None"
  by (cases g) (simp_all add: add_next_Some del: not_None_eq)

lemma add_step_left: "add_step env tid tp g m = Some (g', m') \<Longrightarrow> add_left g' < add_left g"
  by (cases g) (auto simp: add_next_cases)

lemma add_ended: "add_outcome g \<noteq> None \<longleftrightarrow> add_left g = 0"
  by (cases g) simp_all

interpretation adds: goroutines "\<lambda>i. add_step env (tids i) (tps i)" add_left add_outcome
  by unfold_locales (simp_all only: add_step_left add_ended add_step_Some not_False_eq_True)

text \<open>Before the last stage the tasks of the manager are left alone.\<close>

lemma stages_keep_tasks [simp]:
  "mg_tasks (snd (close_existing env tid m)) = mg_tasks m"
  "mg_tasks (snd (build_producer env tid m)) = mg_tasks m"
  "mg_tasks (snd (build_sub env tid tp sp m)) = mg_tasks m"
  "mg_tasks (snd (make_task env tid p i sub m)) = mg_tasks m"
  "mg_tasks (snd (wrapR msg (on_task call t) m)) = mg_tasks m"
  "mg_tasks (snd (on_task call t m)) = mg_tasks m"
  by (simp_all add: close_existing_def build_producer_def build_sub_def make_task_def on_task_def wrapR_def Let_def
    split: prod.splits option.splits)

lemma make_task_id [simp]: "fst (make_task env tid p i sub m) = Ok t \<Longrightarrow> kk_id t = tid \<and> \<not> kk_global t \<and> kk_subTopology t = sub"
  by (auto simp: make_task_def Let_def)

lemma wrap_res_unit: "wrapR msg f m = (Ok x, m') \<longleftrightarrow> f m = (Ok x, m')"
  by (simp add: wrapR_def split: prod.splits)

text \<open>What a goroutine knows while it adds its task: the map is unchanged at its key, and in the end has the task there.\<close>

definition adding :: "task_id \<Rightarrow> (string \<rightharpoonup> ('p, 'v, 'st, 'w) ktask) \<Rightarrow> ('p, 'v, 'st, 'w) add_phase \<Rightarrow> ('p, 'v, 'st, 'w) task_manager \<Rightarrow> bool"
  where "adding tid f g m \<longleftrightarrow> (case g of
      AddDone t \<Rightarrow> kk_id t = tid \<and> \<not> kk_global t \<and> load_task tid m = Some t
    | AddMade t \<Rightarrow> kk_id t = tid \<and> \<not> kk_global t \<and> load_task tid m = f (tid_String tid)
    | AddRestored t \<Rightarrow> kk_id t = tid \<and> \<not> kk_global t \<and> load_task tid m = f (tid_String tid)
    | _ \<Rightarrow> load_task tid m = f (tid_String tid))"

lemma adding_cong: "load_task tid m = load_task tid m' \<Longrightarrow> adding tid f g m = adding tid f g m'"
  by (cases g) (simp_all add: adding_def)

lemma load_store [simp]:
  "load_task tid (store_task t m) = (if tid_String tid = tid_String (kk_id t) then Some t else load_task tid m)"
  by (simp add: load_task_def store_task_def update_conv')

lemma load_delete [simp]:
  "load_task tid (delete_task tid' m) = (if tid_String tid = tid_String tid' then None else load_task tid m)"
  by (simp add: load_task_def delete_task_def delete_conv')

lemma load_keep: "mg_tasks m = mg_tasks m' \<Longrightarrow> load_task tid m = load_task tid m'"
  by (simp add: load_task_def)

lemma add_step_tasks:
  assumes "add_step env tid tp g m = Some (g', m')"
  shows "(\<exists>t. g = AddRestored t \<and> g' = AddDone t \<and> m' = store_task t m) \<or>
    (mg_tasks m' = mg_tasks m \<and> (\<forall>t. g \<noteq> AddRestored t) \<and> (\<forall>t. g' \<noteq> AddDone t))"
  using assms by (cases g) (force simp: add_next_cases
    dest: arg_cong [of _ _ "\<lambda>x. mg_tasks (snd x)"])+

lemma add_step_own:
  assumes "add_step env tid tp g m = Some (g', m')" "adding tid f g m"
  shows "adding tid f g' m'"
proof -
  consider t where "g = AddRestored t" "g' = AddDone t" "m' = store_task t m"
    | "mg_tasks m' = mg_tasks m" "\<forall>t. g \<noteq> AddRestored t" "\<forall>t. g' \<noteq> AddDone t"
    using add_step_tasks [OF assms(1)] by blast
  then show ?thesis
  proof cases
    case 1
    then show ?thesis using assms(2) by (simp add: adding_def)
  next
    case 2
    then have "load_task tid m' = load_task tid m" by (intro load_keep) simp
    then show ?thesis using assms 2
      by (cases g) (auto simp: adding_def add_next_cases
        dest: arg_cong [of _ _ fst] make_task_id)
  qed
qed

lemma add_step_others:
  assumes "add_step env tid tp g m = Some (g', m')" "adding tid f g m" "tid_String tid' \<noteq> tid_String tid"
  shows "load_task tid' m' = load_task tid' m"
  using add_step_tasks [OF assms(1)]
proof (elim disjE exE conjE)
  fix t assume "g = AddRestored t" "m' = store_task t m"
  then show ?thesis using assms(2,3) by (simp add: adding_def)
qed (rule load_keep)

text \<open>A goroutine that runs undisturbed does what \<open>addTask\<close> does.\<close>

lemma par_stage:
  assumes "add_step env tid tp g m = add_next f rm"
  shows "par_run (\<lambda>_. add_step env tid tp) (replicate (Suc n) 0) ([g], m) = Some ([AddDone t], m') \<longleftrightarrow>
    (\<exists>x m1. rm = (Ok x, m1) \<and> par_run (\<lambda>_. add_step env tid tp) (replicate n 0) ([f x], m1) = Some ([AddDone t], m'))"
proof -
  have "par_run (\<lambda>_. add_step env tid tp) (replicate n 0) ([AddPanic p], m1) \<noteq> Some ([AddDone t], m')" for p m1
    by (cases n) (simp_all add: par_run_Cons)
  then show ?thesis by (auto simp: par_run_Cons assms add_next_cases)
qed

lemma bindR_Ok_iff: "bindR f k m = (Ok t, m') \<longleftrightarrow> (\<exists>x m1. f m = (Ok x, m1) \<and> k x m1 = (Ok t, m'))"
  by (auto simp: bindR_def split: prod.splits res.splits)

lemma addTask_steps:
  "par_run (\<lambda>_. add_step env tid tp) (replicate 6 0) ([AddStart], m) = Some ([AddDone t], m') \<longleftrightarrow> addTask env tid tp m = (Ok t, m')"
proof -
  have r: "replicate 6 (0::nat) = replicate (Suc (Suc (Suc (Suc (Suc (Suc 0)))))) 0" by (simp add: numeral_eq_Suc)
  have l: "par_run (\<lambda>_. add_step env tid tp) (replicate (Suc 0) 0) ([AddRestored x], m1) = Some ([AddDone t], m') \<longleftrightarrow>
      x = t \<and> store_task x m1 = m'" for x m1
    by (simp add: par_run_Cons)
  show ?thesis
    unfolding r addTask_def bindR_Ok_iff par_stage [OF add_step.simps(1)] par_stage [OF add_step.simps(2)]
    by (simp add: par_stage [OF add_step.simps(3)] par_stage [OF add_step.simps(4)] par_stage [OF add_step.simps(5)] case_prod_unfold
        bindR_Ok_iff l del: replicate.simps(2))
qed

text \<open>A task whose construction fails has already closed the task it was to replace, which stays in the map, stopped.\<close>

lemma bindR_keeps:
  assumes "bindR f k m = (r, m')" "\<not> is_ok r" "mg_tasks (snd (f m)) = mg_tasks m"
    and "\<And>x m1. k x m1 = (r, m') \<Longrightarrow> mg_tasks m' = mg_tasks m1"
  shows "mg_tasks m' = mg_tasks m"
  using assms by (auto simp: bindR_def split: prod.splits res.splits)

lemma addTask_failure:
  assumes "addTask env tid tp m = (r, m')" "\<not> is_ok r"
  shows "mg_tasks m' = mg_tasks m"
  using assms(1) unfolding addTask_def case_prod_unfold
proof (rule bindR_keeps [OF _ assms(2)], goal_cases)
  case (2 u m1)
  then show ?case
  proof (rule bindR_keeps [OF _ assms(2)], goal_cases)
    case (2 pi m2)
    then show ?case
    proof (rule bindR_keeps [OF _ assms(2)], goal_cases)
      case (2 sub m3)
      then show ?case
      proof (rule bindR_keeps [OF _ assms(2)], goal_cases)
        case (2 t m4)
        then show ?case by (rule bindR_keeps [OF _ assms(2)]) (use assms(2) in auto)
      qed simp
    qed simp
  qed simp
qed simp

end
