(* ===== verification/Consumer_Instance.thy ===== *)
theory Consumer_Instance
  imports Task_Manager
begin

text \<open>
  \<open>src/streams/stream_consumer_instance.go\<close>: a consumer of the group adds the tasks of the partitions it is assigned, each in a goroutine
  of its own, then initialises them, removes them when the partitions are revoked, and starts the task of each partition it is to
  consume. What the group session offers is a parameter; loggers are left out, but logging an assignment sorts it.
\<close>

section \<open>State\<close>

record consumer_instance =
  ci_generation :: task_generation
  ci_currentAssignment :: "task_mapping list"

text \<open>\<open>resetOffset\<close> is \<open>ResetOffset\<close> of the assignment of the session.\<close>

definition reset_offsets :: "(topic_partition \<Rightarrow> int64 \<Rightarrow> 'w \<Rightarrow> 'w) \<Rightarrow> ('v, 'b) topology_builder \<Rightarrow> topic_partition list
    \<Rightarrow> ('p, 'v, 'st, 'w) task_manager \<Rightarrow> ('p, 'v, 'st, 'w) task_manager" where
  "reset_offsets resetOffset k tps m = fold (\<lambda>tp m. case kt_SourceByTopic (tp_Topic tp) k of
      None \<Rightarrow> m
    | Some a \<Rightarrow> (case nb_source (hp_nodes (tb_heap k) ! a) of
          None \<Rightarrow> m
        | Some src \<Rightarrow> m\<lparr>mg_world := resetOffset tp (src_offsetReset src) (mg_world m)\<rparr>)) tps m"

section \<open>The goroutines\<close>

text \<open>A method call on the nil interface that an unnumbered mapping has as its id panics.\<close>

definition mapping_add :: "('p, 'v, 'st, 'w) manager_env \<Rightarrow> task_mapping \<Rightarrow> ('p, 'v, 'st, 'w) add_phase \<Rightarrow> ('p, 'v, 'st, 'w) task_manager
    \<Rightarrow> (('p, 'v, 'st, 'w) add_phase \<times> ('p, 'v, 'st, 'w) task_manager) option" where
  "mapping_add env mp g m = (case tm_TaskId mp of
      None \<Rightarrow> if add_outcome g = None then Some (AddPanic ''nil pointer dereference'', m) else None
    | Some tid \<Rightarrow> add_step env tid (tm_SubTopologyBuilder mp) g m)"

datatype 't init_phase = InitStart | InitFound 't | InitDone | InitPanic string

fun init_step :: "('p, 'v, 'st, 'w) manager_env \<Rightarrow> task_mapping \<Rightarrow> ('p, 'v, 'st, 'w) ktask init_phase \<Rightarrow> ('p, 'v, 'st, 'w) task_manager
    \<Rightarrow> (('p, 'v, 'st, 'w) ktask init_phase \<times> ('p, 'v, 'st, 'w) task_manager) option" where
  "init_step env mp InitStart m = (case tm_TaskId mp of
      None \<Rightarrow> Some (InitPanic ''nil pointer dereference'', m)
    | Some tid \<Rightarrow> (case mg_Task tid m of Ok t \<Rightarrow> Some (InitFound t, m) | _ \<Rightarrow> Some (InitPanic ''no such task'', m)))"
| "init_step env mp (InitFound t) m = (case on_task (me_Init env) t m of
      (Ok _, m') \<Rightarrow> Some (InitDone, m')
    | (Err e, m') \<Rightarrow> Some (InitPanic ''task init error'', m')
    | (Panic p, m') \<Rightarrow> Some (InitPanic p, m'))"
| "init_step env mp InitDone m = None"
| "init_step env mp (InitPanic p) m = None"

fun init_outcome :: "'t init_phase \<Rightarrow> unit res option" where
  "init_outcome InitDone = Some (Ok ())"
| "init_outcome (InitPanic p) = Some (Panic p)"
| "init_outcome _ = None"

fun init_left :: "'t init_phase \<Rightarrow> nat" where
  "init_left InitStart = 2"
| "init_left (InitFound _) = 1"
| "init_left InitDone = 0"
| "init_left (InitPanic _) = 0"

text \<open>\<open>RemoveTask\<close> in three steps; a failure is \<open>logger.Fatal\<close>.\<close>

datatype 't rem_phase = RemStart | RemFound 't | RemStopped | RemDone | RemFatal string

fun rem_step :: "('p, 'v, 'st, 'w) manager_env \<Rightarrow> task_mapping \<Rightarrow> ('p, 'v, 'st, 'w) ktask rem_phase \<Rightarrow> ('p, 'v, 'st, 'w) task_manager
    \<Rightarrow> (('p, 'v, 'st, 'w) ktask rem_phase \<times> ('p, 'v, 'st, 'w) task_manager) option" where
  "rem_step env mp RemStart m = (case tm_TaskId mp of
      None \<Rightarrow> Some (RemFatal ''nil pointer dereference'', m)
    | Some tid \<Rightarrow> (case load_task tid m of None \<Rightarrow> Some (RemDone, m) | Some t \<Rightarrow> Some (RemFound t, m)))"
| "rem_step env mp (RemFound t) m = (case on_task (me_Stop env) t m of
      (Ok _, m') \<Rightarrow> Some (RemStopped, m')
    | (Err e, m') \<Rightarrow> Some (RemFatal ''fatal'', m')
    | (Panic p, m') \<Rightarrow> Some (RemFatal p, m'))"
| "rem_step env mp RemStopped m = Some (RemDone, case tm_TaskId mp of None \<Rightarrow> m | Some tid \<Rightarrow> delete_task tid m)"
| "rem_step env mp RemDone m = None"
| "rem_step env mp (RemFatal p) m = None"

fun rem_outcome :: "'t rem_phase \<Rightarrow> unit res option" where
  "rem_outcome RemDone = Some (Ok ())"
| "rem_outcome (RemFatal p) = Some (Panic p)"
| "rem_outcome _ = None"

fun rem_left :: "'t rem_phase \<Rightarrow> nat" where
  "rem_left RemStart = 3"
| "rem_left (RemFound _) = 2"
| "rem_left RemStopped = 1"
| "rem_left RemDone = 0"
| "rem_left (RemFatal _) = 0"

section \<open>The handlers\<close>

text \<open>
  The result is \<open>None\<close> when the schedules are not complete runs of the goroutines. After a panic the program has ended.
\<close>

definition run_group_of :: "(task_mapping \<Rightarrow> 'g \<Rightarrow> 'm \<Rightarrow> ('g \<times> 'm) option) \<Rightarrow> ('g \<Rightarrow> unit res option) \<Rightarrow> 'g \<Rightarrow> task_mapping list \<Rightarrow> nat list
    \<Rightarrow> 'm \<Rightarrow> (unit res \<times> 'm) option" where
  "run_group_of step outcome start mps sched m =
     (case par_run (\<lambda>i. step (mps ! i)) sched (map (\<lambda>_. start) mps, m) of
        None \<Rightarrow> None
      | Some (gs, m') \<Rightarrow> map_option (\<lambda>r. (r, m')) (par_end outcome gs))"

definition OnPartitionAssigned :: "('p, 'v, 'st, 'w) manager_env \<Rightarrow> (topic_partition \<Rightarrow> int64 \<Rightarrow> 'w \<Rightarrow> 'w) \<Rightarrow> ('v, 'b) topology_builder
    \<Rightarrow> topic_partition list \<Rightarrow> nat list \<Rightarrow> nat list \<Rightarrow> consumer_instance \<times> ('p, 'v, 'st, 'w) task_manager
    \<Rightarrow> (unit res \<times> consumer_instance \<times> ('p, 'v, 'st, 'w) task_manager) option" where
  "OnPartitionAssigned env resetOffset k tps adds inits s = (case s of (r, m) \<Rightarrow>
     (case Assign tps (ci_generation r) of
        Ok a \<Rightarrow>
          (let r1 = r\<lparr>ci_currentAssignment := snd (assignment_String a)\<rparr>;
               mps = ci_currentAssignment r1
           in case run_group_of (mapping_add env) add_outcome AddStart mps adds (reset_offsets resetOffset k tps m) of
                Some (Ok _, m2) \<Rightarrow> map_option (\<lambda>(e, m3). (e, r1, m3)) (run_group_of (init_step env) init_outcome InitStart mps inits m2)
              | Some (e, m2) \<Rightarrow> Some (e, r1, m2)
              | None \<Rightarrow> None)
      | Err e \<Rightarrow> Some (Err e, r, m)
      | Panic p \<Rightarrow> Some (Panic p, r, m)))"

definition OnPartitionRevoked :: "('p, 'v, 'st, 'w) manager_env \<Rightarrow> nat list \<Rightarrow> consumer_instance \<times> ('p, 'v, 'st, 'w) task_manager
    \<Rightarrow> (unit res \<times> consumer_instance \<times> ('p, 'v, 'st, 'w) task_manager) option" where
  "OnPartitionRevoked env rems s = (case s of (r, m) \<Rightarrow>
     (let r1 = r\<lparr>ci_currentAssignment := snd (assignment_String (ci_currentAssignment r))\<rparr>
      in map_option (\<lambda>(e, m'). (e, r1, m')) (run_group_of (rem_step env) rem_outcome RemStart (ci_currentAssignment r1) rems m)))"

definition OnLost :: "unit res" where
  "OnLost = Ok ()"

definition ci_Consume :: "('p, 'v, 'st, 'w) manager_env \<Rightarrow> topic_partition \<Rightarrow> consumer_instance \<Rightarrow> ('p, 'v, 'st, 'w) task_manager
    \<Rightarrow> unit res \<times> ('p, 'v, 'st, 'w) task_manager" where
  "ci_Consume env claim r m = (case FindMappingByTP claim (ci_generation r) of
      None \<Rightarrow> (Panic ''nil pointer dereference'', m)
    | Some mp \<Rightarrow> (case tm_TaskId mp of
          None \<Rightarrow> (Panic ''nil pointer dereference'', m)
        | Some tid \<Rightarrow> bindR (pureR (wrap_res (''task '' @ tid_String tid @ '' error'') (mg_Task tid m))) (task_Start env claim) m))"

text \<open>\<open>subscribe\<close> and \<open>unsubscribe\<close> are the calls of the group consumer.\<close>

definition ci_Subscribe :: "(string list \<Rightarrow> 'w \<Rightarrow> unit res \<times> 'w) \<Rightarrow> ('v, 'b) topology_builder \<Rightarrow> 'w \<Rightarrow> unit res \<times> 'w" where
  "ci_Subscribe subscribe k = subscribe (subs_SourceTopics (tb_heap k) (kt_StreamTopologies k))"

definition ci_Unsubscribe :: "('w \<Rightarrow> unit res \<times> 'w) \<Rightarrow> 'w \<Rightarrow> unit res \<times> 'w" where
  "ci_Unsubscribe unsubscribe = unsubscribe"

section \<open>The goroutines always end\<close>

lemma mapping_add_id [simp]: "tm_id mp = Some tid \<Longrightarrow> mapping_add env mp = add_step env tid (tm_topology mp)"
  by (simp add: mapping_add_def tm_TaskId_def tm_SubTopologyBuilder_def fun_eq_iff)

lemma mapping_add_left: "mapping_add env mp g m = Some (g', m') \<Longrightarrow> add_left g' < add_left g"
proof (cases "tm_id mp")
  case None
  moreover assume "mapping_add env mp g m = Some (g', m')"
  ultimately have "add_left g' = 0" "add_outcome g = None" by (auto simp: mapping_add_def tm_TaskId_def split: if_splits)
  then show ?thesis using add_ended [of g] by simp
next
  case (Some tid)
  moreover assume "mapping_add env mp g m = Some (g', m')"
  ultimately show ?thesis by (simp add: add_step_left)
qed

lemma mapping_add_Some: "add_left g \<noteq> 0 \<Longrightarrow> mapping_add env mp g m \<noteq> None"
  using add_ended [of g] add_step_Some [of g env _ _ m] by (cases "tm_id mp") (simp_all add: mapping_add_def tm_TaskId_def)

interpretation mapping_adds: goroutines "\<lambda>i. mapping_add env (mps i)" add_left add_outcome
  by unfold_locales (simp_all only: mapping_add_left add_ended mapping_add_Some not_False_eq_True)

lemma init_goroutine:
  "init_step env mp g m = Some (g', m') \<Longrightarrow> init_left g' < init_left g"
  "init_outcome g \<noteq> None \<longleftrightarrow> init_left g = 0"
  "init_left g \<noteq> 0 \<Longrightarrow> init_step env mp g m \<noteq> None"
  by (cases g; auto split: option.splits res.splits prod.splits)+

interpretation inits: goroutines "\<lambda>i. init_step env (mps i)" init_left init_outcome
  by unfold_locales (simp_all only: init_goroutine not_False_eq_True)

lemma rem_goroutine:
  "rem_step env mp g m = Some (g', m') \<Longrightarrow> rem_left g' < rem_left g"
  "rem_outcome g \<noteq> None \<longleftrightarrow> rem_left g = 0"
  "rem_left g \<noteq> 0 \<Longrightarrow> rem_step env mp g m \<noteq> None"
  by (cases g; auto split: option.splits res.splits prod.splits)+

interpretation rems: goroutines "\<lambda>i. rem_step env (mps i)" rem_left rem_outcome
  by unfold_locales (simp_all only: rem_goroutine not_False_eq_True)

section \<open>What they do to the tasks of the manager\<close>

definition key :: "task_mapping \<Rightarrow> string" where
  "key mp = tid_String (the (tm_id mp))"

definition keyed :: "task_mapping list \<Rightarrow> bool" where
  "keyed mps \<longleftrightarrow> (\<forall>mp\<in>set mps. tm_id mp \<noteq> None) \<and> distinct (map key mps)"

definition same_but :: "string set \<Rightarrow> ('p, 'v, 'st, 'w) task_manager \<Rightarrow> ('p, 'v, 'st, 'w) task_manager \<Rightarrow> bool" where
  "same_but K m m' \<longleftrightarrow> (\<forall>k. k \<notin> K \<longrightarrow> map_of (mg_tasks m') k = map_of (mg_tasks m) k)"

lemma keyed_nth:
  assumes "keyed mps" "i < length mps"
  shows "tm_id (mps ! i) = Some (the (tm_id (mps ! i)))" "key (mps ! i) \<in> key ` set mps"
    "j < length mps \<Longrightarrow> i \<noteq> j \<Longrightarrow> tid_String (the (tm_id (mps ! i))) \<noteq> tid_String (the (tm_id (mps ! j)))"
  using assms nth_mem [OF assms(2)] by (auto simp: keyed_def key_def distinct_conv_nth)

lemma run_group_of_Ok:
  assumes "run_group_of step outcome start mps sched m = Some (Ok (), m')"
  obtains gs where "par_run (\<lambda>i. step (mps ! i)) sched (map (\<lambda>_. start) mps, m) = Some (gs, m')" "length gs = length mps"
    "\<And>i. i < length mps \<Longrightarrow> outcome (gs ! i) \<noteq> None \<and> (\<forall>p. outcome (gs ! i) \<noteq> Some (Panic p))"
proof -
  obtain gs where gs: "par_run (\<lambda>i. step (mps ! i)) sched (map (\<lambda>_. start) mps, m) = Some (gs, m')" "par_end outcome gs = Some (Ok ())"
    using assms by (auto simp: run_group_of_def split: option.splits)
  have "length gs = length mps" using par_run_length [OF gs(1)] by simp
  with gs par_end_Ok [OF gs(2)] show thesis by (intro that) auto
qed

lemma run_group_completes:
  assumes "\<exists>sched gs m'. par_run (\<lambda>i. step (mps ! i)) sched (map (\<lambda>_. start) mps, m) = Some (gs, m') \<and> par_end outcome gs \<noteq> None"
  shows "\<exists>sched. run_group_of step outcome start mps sched m \<noteq> None"
proof -
  from assms obtain sched gs m' where "par_run (\<lambda>i. step (mps ! i)) sched (map (\<lambda>_. start) mps, m) = Some (gs, m')"
    "par_end outcome gs \<noteq> None" by blast
  then have "run_group_of step outcome start mps sched m \<noteq> None" by (simp add: run_group_of_def)
  then show ?thesis by blast
qed

lemma adds_result:
  assumes "keyed mps" "run_group_of (mapping_add env) add_outcome AddStart mps sched m = Some (Ok (), m')"
  shows "same_but (key ` set mps) m m'"
    and "mp \<in> set mps \<Longrightarrow> \<exists>t. load_task (the (tm_id mp)) m' = Some t \<and> kk_id t = the (tm_id mp) \<and> \<not> kk_global t"
proof -
  let ?n = "length mps" and ?tid = "\<lambda>i. the (tm_id (mps ! i))"
  obtain gs where gs: "par_run (\<lambda>i. mapping_add env (mps ! i)) sched (map (\<lambda>_. AddStart) mps, m) = Some (gs, m')" "length gs = ?n"
    and fin: "\<And>i. i < ?n \<Longrightarrow> add_outcome (gs ! i) \<noteq> None \<and> (\<forall>p. add_outcome (gs ! i) \<noteq> Some (Panic p))"
    using run_group_of_Ok [OF assms(2)] by blast
  have r: "same_but (key ` set mps) m m' \<and> (\<forall>i < length (map (\<lambda>_. AddStart :: ('a, 'b, 'c, 'd) add_phase) mps). adding (?tid i) (map_of (mg_tasks m)) (gs ! i) m')"
  proof (rule par_run_inv [OF gs(1), where I = "same_but (key ` set mps) m" and Q = "\<lambda>i. adding (?tid i) (map_of (mg_tasks m))"])
    show "same_but (key ` set mps) m m" by (simp add: same_but_def)
    fix i assume i: "i < length (map (\<lambda>_. AddStart :: ('a, 'b, 'c, 'd) add_phase) mps)"
    then have n: "i < ?n" by simp
    note id = mapping_add_id [OF keyed_nth(1) [OF assms(1) n]]
    show "adding (?tid i) (map_of (mg_tasks m)) (map (\<lambda>_. AddStart) mps ! i) m" using n by (simp add: adding_def load_task_def)
    fix g m1 g' m2
    assume a: "same_but (key ` set mps) m m1" "adding (?tid i) (map_of (mg_tasks m)) g m1" "mapping_add env (mps ! i) g m1 = Some (g', m2)"
    then have st: "add_step env (?tid i) (tm_topology (mps ! i)) g m1 = Some (g', m2)" by (simp add: id)
    have "same_but (key ` set mps) m m2"
      using add_step_tasks [OF st] a(1,2) keyed_nth(2) [OF assms(1) n]
      by (auto simp: same_but_def adding_def store_task_def update_conv' key_def)
    with add_step_own [OF st a(2)] show "adding (?tid i) (map_of (mg_tasks m)) g' m2 \<and> same_but (key ` set mps) m m2" by simp
    fix j h assume j: "j < length (map (\<lambda>_. AddStart :: ('a, 'b, 'c, 'd) add_phase) mps)" "i \<noteq> j" "adding (?tid j) (map_of (mg_tasks m)) h m1"
    then have "load_task (?tid j) m2 = load_task (?tid j) m1"
      using add_step_others [OF st a(2)] keyed_nth(3) [OF assms(1) n, of j] by auto
    then show "adding (?tid j) (map_of (mg_tasks m)) h m2" using j(3) adding_cong by blast
  qed
  then show "same_but (key ` set mps) m m'" by simp
  show "\<exists>t. load_task (the (tm_id mp)) m' = Some t \<and> kk_id t = the (tm_id mp) \<and> \<not> kk_global t" if "mp \<in> set mps"
  proof -
    from that obtain i where i: "i < ?n" "mps ! i = mp" by (auto simp: in_set_conv_nth)
    then have "adding (the (tm_id mp)) (map_of (mg_tasks m)) (gs ! i) m'" using r by auto
    then show ?thesis using fin [OF i(1)] by (cases "gs ! i") (auto simp: adding_def)
  qed
qed

lemma init_step_tasks: "init_step env mp g m = Some (g', m') \<Longrightarrow> mg_tasks m' = mg_tasks m"
  by (cases g) (auto simp: on_task_def split: option.splits res.splits prod.splits)

lemma inits_result:
  assumes "run_group_of (init_step env) init_outcome InitStart mps sched m = Some (r, m')"
  shows "mg_tasks m' = mg_tasks m"
proof -
  obtain gs where gs: "par_run (\<lambda>i. init_step env (mps ! i)) sched (map (\<lambda>_. InitStart) mps, m) = Some (gs, m')"
    using assms by (auto simp: run_group_of_def split: option.splits)
  have "mg_tasks m' = mg_tasks m \<and> (\<forall>i < length (map (\<lambda>_. InitStart :: ('a, 'b, 'c, 'd) ktask init_phase) mps). True)"
    by (rule par_run_inv [OF gs, where I = "\<lambda>m'. mg_tasks m' = mg_tasks m"]) (simp_all add: init_step_tasks)
  then show ?thesis by simp
qed

lemma rem_step_tasks:
  assumes "rem_step env mp g m = Some (g', m')" "tm_id mp = Some tid"
  shows "same_but {tid_String tid} m m'" "g' = RemDone \<Longrightarrow> load_task tid m' = None"
  using assms by (cases g; force simp: on_task_def same_but_def delete_task_def delete_conv' tm_TaskId_def load_task_def
    split: option.splits res.splits prod.splits)+

text \<open>A goroutine that runs undisturbed does what \<open>RemoveTask\<close> does.\<close>

lemma RemoveTask_steps:
  assumes "tm_id mp = Some tid"
  shows "par_run (\<lambda>_. rem_step env mp) (replicate (if load_task tid m = None then 1 else 3) 0) ([RemStart], m) = Some ([RemDone], m') \<longleftrightarrow>
    mg_RemoveTask env tid m = (Ok (), m')"
  by (auto simp: par_run_Cons mg_RemoveTask_def tm_TaskId_def assms numeral_3_eq_3 bindR_def wrapR_def
    split: option.splits prod.splits res.splits)

lemma rems_result:
  assumes "keyed mps" "run_group_of (rem_step env) rem_outcome RemStart mps sched m = Some (Ok (), m')"
  shows "same_but (key ` set mps) m m'" and "mp \<in> set mps \<Longrightarrow> load_task (the (tm_id mp)) m' = None"
proof -
  let ?n = "length mps" and ?tid = "\<lambda>i. the (tm_id (mps ! i))"
  let ?gs = "map (\<lambda>_. RemStart) mps :: ('a, 'b, 'c, 'd) ktask rem_phase list"
  let ?Q = "\<lambda>i (g :: ('a, 'b, 'c, 'd) ktask rem_phase) m'. g = RemDone \<longrightarrow> load_task (?tid i) m' = None"
  obtain gs where gs: "par_run (\<lambda>i. rem_step env (mps ! i)) sched (?gs, m) = Some (gs, m')" "length gs = ?n"
    and fin: "\<And>i. i < ?n \<Longrightarrow> rem_outcome (gs ! i) \<noteq> None \<and> (\<forall>p. rem_outcome (gs ! i) \<noteq> Some (Panic p))"
    using run_group_of_Ok [OF assms(2)] by blast
  have r: "same_but (key ` set mps) m m' \<and> (\<forall>i < length ?gs. ?Q i (gs ! i) m')"
  proof (rule par_run_inv [OF gs(1), where I = "same_but (key ` set mps) m" and Q = ?Q])
    show "same_but (key ` set mps) m m" by (simp add: same_but_def)
    fix i assume "i < length ?gs"
    then have n: "i < ?n" by simp
    show "?Q i (?gs ! i) m" using n by simp
    fix g m1 g' m2
    assume a: "same_but (key ` set mps) m m1" "?Q i g m1" "rem_step env (mps ! i) g m1 = Some (g', m2)"
    note st = rem_step_tasks [OF a(3) keyed_nth(1) [OF assms(1) n]]
    show "?Q i g' m2 \<and> same_but (key ` set mps) m m2"
      using st a(1) keyed_nth(2) [OF assms(1) n] by (metis key_def same_but_def singletonD)
    fix j h assume j: "j < length ?gs" "i \<noteq> j" "?Q j h m1"
    then have "load_task (?tid j) m2 = load_task (?tid j) m1"
      using st(1) keyed_nth(3) [OF assms(1) n, of j] by (auto simp: same_but_def load_task_def)
    then show "?Q j h m2" using j(3) by simp
  qed
  then show "same_but (key ` set mps) m m'" by simp
  show "load_task (the (tm_id mp)) m' = None" if "mp \<in> set mps"
  proof -
    from that obtain i where i: "i < ?n" "mps ! i = mp" by (auto simp: in_set_conv_nth)
    then show ?thesis using fin [OF i(1)] r by (cases "gs ! i") auto
  qed
qed

lemma reset_offsets_tasks [simp]: "mg_tasks (reset_offsets ro k tps m) = mg_tasks m"
  unfolding reset_offsets_def by (induction tps arbitrary: m) (auto split: option.splits)

lemma assignment_String_set:
  "set (snd (assignment_String a)) = set a" "length (snd (assignment_String a)) = length a"
  "distinct (map f (snd (assignment_String a))) = distinct (map f a)"
proof -
  let ?s = "sort_key (\<lambda>m. ti_id (the (tm_id m))) a"
  have "mset (map f ?s) = mset (map f a)" by (simp add: mset_map)
  from mset_eq_imp_distinct_iff [OF this] show "distinct (map f (snd (assignment_String a))) = distinct (map f a)"
    by (simp only: assignment_String_def Let_def snd_conv)
qed (simp_all add: assignment_String_def Let_def)

section \<open>Generated tasks\<close>

text \<open>The ids of the tasks of a generation are different strings.\<close>

lemma generation_keyed:
  assumes "distinct_subs k" "\<forall>tp\<in>set tps. 0 \<le> sint (tp_Partition tp)" "\<And>n. reorders (ord n)" "reorders ordg"
    and "Generate ord ordg tps k = Ok g"
  shows "keyed (tg_mappings g)"
    and "i < length (tg_mappings g) \<Longrightarrow> key (tg_mappings g ! i) = ''Task#'' @ show_int (int i)"
    and "i < length (tg_mappings g) \<Longrightarrow> tid_UniqueID (the (tm_id (tg_mappings g ! i))) = tm_hash (tg_mappings g ! i)"
proof -
  obtain ms where "Generate ord ordg tps k = Ok (generation_of (sort_key tm_hash ms))" "distinct ms"
    "set ms = (\<lambda>(s, p). mapping_of k tps s p) ` consumes k tps"
    by (rule Generate_ok [where ord = ord, OF assms(1-4)])
  then have L: "tg_mappings g = numbered (sort_key tm_hash ms)" using assms(5) by (simp add: generation_of_def)
  show k: "key (tg_mappings g ! i) = ''Task#'' @ show_int (int i)" if "i < length (tg_mappings g)" for i
    using that by (simp only: L) (simp add: key_def numbered_def nth_enumerate_eq case_prod_unfold tid_String_def)
  show "tid_UniqueID (the (tm_id (tg_mappings g ! i))) = tm_hash (tg_mappings g ! i)" if "i < length (tg_mappings g)"
    using that by (simp only: L) (simp add: numbered_def nth_enumerate_eq case_prod_unfold tid_UniqueID_def)
  have "distinct (map key (tg_mappings g))"
    unfolding distinct_conv_nth length_map
  proof (intro allI impI)
    fix i j assume "i < length (tg_mappings g)" "j < length (tg_mappings g)" "i \<noteq> j"
    then show "map key (tg_mappings g) ! i \<noteq> map key (tg_mappings g) ! j"
      using k [of i] k [of j] show_int_inject [of "int i" "int j"] by auto
  qed
  moreover have "\<forall>mp\<in>set (tg_mappings g). tm_id mp \<noteq> None" by (auto simp: L numbered_def)
  ultimately show "keyed (tg_mappings g)" by (simp add: keyed_def)
qed

lemma keyed_sub:
  assumes "keyed ms" "set a \<subseteq> set ms" "distinct a"
  shows "keyed a" "keyed (snd (assignment_String a))"
proof -
  have "inj_on key (set a)" using assms(1,2) by (auto simp: keyed_def distinct_map inj_on_def)
  then show "keyed a" using assms by (auto simp: keyed_def distinct_map)
  then show "keyed (snd (assignment_String a))" by (simp add: keyed_def assignment_String_set)
qed

text \<open>The tasks of an assignment.\<close>

definition assigned :: "topic_partition list \<Rightarrow> task_generation \<Rightarrow> task_mapping set" where
  "assigned a g = {mp \<in> set (tg_mappings g). set (tm_TPs mp) \<subseteq> set a}"

lemma assigned_result:
  assumes gen: "distinct_subs k" "\<forall>tp\<in>set tps. 0 \<le> sint (tp_Partition tp)" "\<And>n. reorders (ord n)" "reorders ordg"
      "Generate ord ordg tps k = Ok (ci_generation r)" "set a \<subseteq> set tps"
    and run: "OnPartitionAssigned env ro k a adds inits (r, m) = Some (Ok (), r', m')"
  shows "set (ci_currentAssignment r') = assigned a (ci_generation r)" "keyed (ci_currentAssignment r')"
    "ci_generation r' = ci_generation r"
    "same_but (key ` assigned a (ci_generation r)) m m'"
    "mp \<in> assigned a (ci_generation r) \<Longrightarrow> \<exists>t. load_task (the (tm_id mp)) m' = Some t \<and> kk_id t = the (tm_id mp) \<and> \<not> kk_global t"
proof -
  let ?g = "ci_generation r"
  obtain ms where ms: "Assign a ?g = Ok ms" using run by (auto simp: OnPartitionAssigned_def split: res.splits)
  then have "is_ok (Assign a ?g)" by simp
  with assignment_accepted(1,2) [where ord = ord, OF gen] ms have mset: "distinct ms" "set ms = assigned a ?g"
    by (auto simp: assigned_def)
  let ?mps = "snd (assignment_String ms)"
  obtain m1 where m1: "run_group_of (mapping_add env) add_outcome AddStart ?mps adds (reset_offsets ro k a m) = Some (Ok (), m1)"
    and i: "run_group_of (init_step env) init_outcome InitStart ?mps inits m1 = Some (Ok (), m')"
    and r': "r' = r\<lparr>ci_currentAssignment := ?mps\<rparr>"
    using run ms by (auto simp: OnPartitionAssigned_def Let_def split: option.splits prod.splits res.splits)
  have k: "keyed ?mps"
    using keyed_sub [OF generation_keyed(1) [where ord = ord, OF gen(1-5)], of ms] mset by (auto simp: assigned_def)
  show s: "set (ci_currentAssignment r') = assigned a ?g" "keyed (ci_currentAssignment r')" "ci_generation r' = ?g"
    using k mset by (simp_all add: r' assignment_String_set)
  have t: "mg_tasks m' = mg_tasks m1" by (rule inits_result [OF i])
  note ad = adds_result [OF k m1]
  show "same_but (key ` assigned a ?g) m m'"
    using ad(1) by (simp add: same_but_def t assignment_String_set mset)
  show "\<exists>t. load_task (the (tm_id mp)) m' = Some t \<and> kk_id t = the (tm_id mp) \<and> \<not> kk_global t" if "mp \<in> assigned a ?g"
    using ad(2) [of mp] that by (simp add: assignment_String_set mset load_keep [OF t])
qed

section \<open>Assigning, consuming, revoking\<close>

text \<open>C36: 
  However the goroutines interleave, when \<open>OnPartitionAssigned\<close> returns, the manager has a task for every task of the generation whose
  partitions were assigned, those are the current assignment, and the manager's other tasks are untouched.
\<close>
theorem assigned_tasks:
  assumes "distinct_subs k" "\<forall>tp\<in>set tps. 0 \<le> sint (tp_Partition tp)" "\<And>n. reorders (ord n)" "reorders ordg"
      "Generate ord ordg tps k = Ok (ci_generation r)" "set a \<subseteq> set tps"
      "OnPartitionAssigned env ro k a adds inits (r, m) = Some (Ok (), r', m')"
  shows "set (ci_currentAssignment r') = assigned a (ci_generation r) \<and> ci_generation r' = ci_generation r \<and>
    (\<forall>mp\<in>assigned a (ci_generation r). \<exists>t. mg_Task (the (tm_id mp)) m' = Ok t \<and> kk_id t = the (tm_id mp) \<and> \<not> kk_global t) \<and>
    (\<forall>n. n \<notin> key ` assigned a (ci_generation r) \<longrightarrow> map_of (mg_tasks m') n = map_of (mg_tasks m) n)"
  using assigned_result [where ord = ord, OF assms] by (fastforce simp: same_but_def mg_Task_def)

text \<open>C37: 
  When the partitions are revoked, the manager is left without the tasks of the assignment and with all the others it had before.
\<close>
theorem revoked_tasks:
  assumes "distinct_subs k" "\<forall>tp\<in>set tps. 0 \<le> sint (tp_Partition tp)" "\<And>n. reorders (ord n)" "reorders ordg"
      "Generate ord ordg tps k = Ok (ci_generation r)" "set a \<subseteq> set tps"
      "OnPartitionAssigned env ro k a adds inits (r, m) = Some (Ok (), r', m1)"
      "mg_tasks m2 = mg_tasks m1" "OnPartitionRevoked env rems (r', m2) = Some (Ok (), r'', m3)"
  shows "map_of (mg_tasks m3) n = (if n \<in> key ` assigned a (ci_generation r) then None else map_of (mg_tasks m) n)"
proof -
  let ?mps = "snd (assignment_String (ci_currentAssignment r'))"
  note as = assigned_result [where ord = ord, OF assms(1-7)]
  have k: "keyed ?mps" using as(2) by (simp add: keyed_def assignment_String_set)
  have run: "run_group_of (rem_step env) rem_outcome RemStart ?mps rems m2 = Some (Ok (), m3)"
    using assms(9) by (auto simp: OnPartitionRevoked_def Let_def)
  note re = rems_result [OF k run]
  show ?thesis
  proof (cases "n \<in> key ` assigned a (ci_generation r)")
    case True
    then obtain mp where "mp \<in> set ?mps" "n = key mp" by (auto simp: assignment_String_set as(1))
    with re(2) True show ?thesis by (simp add: load_task_def key_def)
  next
    case False
    then have "map_of (mg_tasks m3) n = map_of (mg_tasks m2) n" "map_of (mg_tasks m1) n = map_of (mg_tasks m) n"
      using re(1) as(4) by (simp_all add: same_but_def assignment_String_set as(1))
    with False show ?thesis by (simp add: assms(8))
  qed
qed


text \<open>C39: 
  A claim starts the task with the lowest number that has the partition, and only that one: when another sub topology has the same source
  topic, its task is assigned too but never gets the records.
\<close>
theorem consume_starts_first:
  assumes "distinct_subs k" "\<forall>tp\<in>set tps. 0 \<le> sint (tp_Partition tp)" "\<And>n. reorders (ord n)" "reorders ordg"
      "Generate ord ordg tps k = Ok (ci_generation r)" "set a \<subseteq> set tps"
      "OnPartitionAssigned env ro k a adds inits (r, m) = Some (Ok (), r', m')"
      "claim \<in> set a" "s \<in> set (kt_StreamTopologies k)" "tp_Topic claim \<in> set (sub_source_topics s (tb_heap k))"
  shows "\<exists>mp t. mp \<in> assigned a (ci_generation r) \<and> claim \<in> set (tm_TPs mp) \<and> mg_Task (the (tm_id mp)) m' = Ok t \<and>
    ci_Consume env claim r' m' = on_task (me_Start env claim) t m' \<and>
    (\<forall>mp'\<in>assigned a (ci_generation r). claim \<in> set (tm_TPs mp') \<longrightarrow> ti_id (the (tm_id mp)) \<le> ti_id (the (tm_id mp')))"
proof -
  let ?g = "ci_generation r" and ?ms = "tg_mappings (ci_generation r)"
  note as = assigned_result [where ord = ord, OF assms(1-7)]
  note f = generation_facts [where ord = ord, OF assms(1-5)]
  have acc: "m \<in> assigned a ?g" if m: "m \<in> set ?ms" "claim \<in> set (tm_TPs m)" for m
  proof -
    have "is_ok (Assign a ?g)" using assms(7) by (auto simp: OnPartitionAssigned_def split: res.splits)
    then show ?thesis using assignment_accepted(2) [where ord = ord, OF assms(1-6)] m assms(8) by (auto simp: assigned_def)
  qed
  have P: "(\<exists>tp\<in>set (tm_TPs m). tp_String tp = tp_String claim) \<longleftrightarrow> claim \<in> set (tm_TPs m)" if "m \<in> set ?ms" for m
  proof -
    have "set (tm_TPs m) \<subseteq> set tps" using assignment_accepted(3) [where ord = ord, OF assms(1-6)] that by blast
    then show ?thesis using tp_String_eq assms(2,6,8) by (metis subsetD)
  qed
  have c: "(s, tp_Partition claim) \<in> consumes k tps" using assms(6,8-10) by (auto simp: consumes_iff)
  then obtain m0 where m0: "m0 \<in> set ?ms" "tm_TPs m0 = tm_TPs (mapping_of k tps s (tp_Partition claim))" using f(4) by blast
  then have "claim \<in> set (tm_TPs m0)" using assms(6,8,10) by (auto simp: mapping_of_TPs(3))
  with m0(1) P obtain mp where mp: "FindMappingByTP claim ?g = Some mp"
    by (cases "FindMappingByTP claim ?g") (auto simp: FindMappingByTP_def find_None_iff)
  then obtain i where i0: "i < length ?ms" "mp = ?ms ! i" "\<exists>tp\<in>set (tm_TPs (?ms ! i)). tp_String tp = tp_String claim"
    "\<forall>j<i. \<not> (\<exists>tp\<in>set (tm_TPs (?ms ! j)). tp_String tp = tp_String claim)"
    by (auto simp only: FindMappingByTP_def find_Some_iff)
  then have i: "i < length ?ms" "mp = ?ms ! i" "claim \<in> set (tm_TPs mp)" "\<And>j. j < i \<Longrightarrow> claim \<notin> set (tm_TPs (?ms ! j))"
    using P [OF nth_mem] less_trans [of _ i "length ?ms"] by blast+
  have nth: "map_option ti_id (tm_id (?ms ! j)) = Some (int j)" if "j < length ?ms" for j
    using arg_cong [OF f(2), of "\<lambda>xs. xs ! j"] that by simp
  have a: "mp \<in> assigned a ?g" using acc i by simp
  from as(5) [OF a] obtain t where t: "load_task (the (tm_id mp)) m' = Some t" "\<not> kk_global t" by blast
  obtain tid where id: "tm_id mp = Some tid" using nth [OF i(1)] i(2) by auto
  have "ci_Consume env claim r' m' = on_task (me_Start env claim) t m'"
    using mp id t by (auto simp: ci_Consume_def as(3) tm_TaskId_def mg_Task_def bindR_def pureR_def task_Start_def)
  moreover have "ti_id (the (tm_id mp)) \<le> ti_id (the (tm_id mp'))" if "mp' \<in> assigned a ?g" "claim \<in> set (tm_TPs mp')" for mp'
  proof -
    from that obtain j where j: "j < length ?ms" "mp' = ?ms ! j" by (auto simp: assigned_def in_set_conv_nth)
    then have "i \<le> j" using i(4) that(2) by (meson not_le)
    then show ?thesis using nth [OF i(1)] nth [OF j(1)] i(2) j(2) by auto
  qed
  ultimately show ?thesis using a i(3) t(1) by (auto simp: mg_Task_def)
qed

text \<open>C40: The tasks of a generation have different transactional ids, so their producers never fence one another.\<close>
theorem transactional_ids:
  assumes "distinct_subs k" "\<forall>tp\<in>set tps. 0 \<le> sint (tp_Partition tp)" "\<And>n. reorders (ord n)" "reorders ordg"
      "Generate ord ordg tps k = Ok g"
  shows "distinct (map (\<lambda>mp. txID app (the (tm_id mp))) (tg_mappings g))"
proof -
  note f = generation_keyed(2) [where ord = ord, OF assms]
  have paren: "CHR ''('' \<notin> set (show_int i)" for i
    using set_nat_digits [of "CHR ''(''"] by (auto simp: show_int_def)
  have cut: "x = y" if "x @ CHR ''('' # u = y @ CHR ''('' # v" "CHR ''('' \<notin> set x" "CHR ''('' \<notin> set y" for x y u v
  proof -
    have "takeWhile (\<lambda>c. c \<noteq> CHR ''('') (x @ CHR ''('' # u) = x" using that(2) by (simp add: takeWhile_append)
    moreover have "takeWhile (\<lambda>c. c \<noteq> CHR ''('') (y @ CHR ''('' # v) = y" using that(3) by (simp add: takeWhile_append)
    ultimately show ?thesis using that(1) by simp
  qed
  show ?thesis
    unfolding distinct_conv_nth length_map
  proof (intro allI impI notI)
    fix i j assume ij: "i < length (tg_mappings g)" "j < length (tg_mappings g)" "i \<noteq> j"
    assume "map (\<lambda>mp. txID app (the (tm_id mp))) (tg_mappings g) ! i = map (\<lambda>mp. txID app (the (tm_id mp))) (tg_mappings g) ! j"
    then have "show_int (int i) = show_int (int j)"
      using ij f [OF ij(1)] f [OF ij(2)] cut [OF _ paren paren] by (auto simp: txID_def key_def)
    then show False using ij(3) show_int_inject by fastforce
  qed
qed

section \<open>A rebalance of the demo application\<close>

text \<open>The world is the list of the calls made.\<close>

definition logged :: "string \<Rightarrow> (string, unit, unit, string list) ktask \<Rightarrow> string list \<Rightarrow> unit res \<times> string list" where
  "logged call t w = (Ok (), w @ [call @ tid_String (kk_id t)])"

definition demo_env :: "(string, unit, unit, string list) manager_env" where
  "demo_env = \<lparr>me_ApplicationId = ''app'', me_ProducerBuilder = (\<lambda>i w. (Ok i, w)), me_transactional = (\<lambda>_. True),
     me_ProduceAsync = (\<lambda>_ _ w. (Ok (), w)), me_OnProduce = (\<lambda>_ _ r. r),
     me_Build = (\<lambda>s p _ _ w. (Ok \<lparr>ks_id = NewSubTopologyId (int s) [], ks_edges = [], ks_nodes = [], ks_sources = [], ks_sinks = [],
       ks_stores = [(''counts'', ())]\<rparr>, w)),
     me_taskOpts = [], me_failedMessageHandler = (\<lambda>_ _ w. w), me_Restore = logged ''restore '', me_Init = logged ''init '',
     me_Start = (\<lambda>_. logged ''start ''), me_Stop = logged ''stop ''\<rparr>"

definition demo_instance :: "task_generation \<Rightarrow> consumer_instance" where
  "demo_instance g = \<lparr>ci_generation = g, ci_currentAssignment = []\<rparr>"

definition demo_manager :: "(string, unit, unit, string list) task_manager" where
  "demo_manager = \<lparr>mg_tasks = [], mg_producers = [], mg_topicConfigs = [], mg_world = []\<rparr>"

type_synonym demo_state = "consumer_instance \<times> (string, unit, unit, string list) task_manager"

definition demo_assign :: "(unit, unit) topology_builder \<Rightarrow> topic_partition list \<Rightarrow> task_generation \<Rightarrow> (unit res \<times> demo_state) option" where
  "demo_assign k a g = OnPartitionAssigned demo_env (\<lambda>_ _ w. w) k a [0, 1, 1, 0, 0, 1, 0, 1, 1, 0, 0, 1] [1, 0, 0, 1] (demo_instance g, demo_manager)"

definition demo_assigned :: demo_state where
  "demo_assigned = snd (the (demo_assign demo_tasks (demo_assignment 0) demo_generation))"

definition demo_revoke :: "(unit res \<times> demo_state) option" where
  "demo_revoke = OnPartitionRevoked demo_env [1, 0, 0, 1, 1, 0] demo_assigned"

definition succeeded :: "(unit res \<times> 's) option \<Rightarrow> bool" where
  "succeeded r = (case r of Some (Ok _, _) \<Rightarrow> True | _ \<Rightarrow> False)"

lemma succeeded_eq: "succeeded r \<Longrightarrow> r = Some (Ok (), fst (snd (the r)), snd (snd (the r)))"
  by (auto simp: succeeded_def split: option.splits res.splits)

lemma demo_rebalance_runs:
  "succeeded (demo_assign demo_tasks (demo_assignment 0) demo_generation)" "succeeded demo_revoke"
  "set (demo_assignment 0) \<subseteq> set demo_tps"
  by code_simp+

lemma demo_run:
  "OnPartitionAssigned demo_env (\<lambda>_ _ w. w) demo_tasks (demo_assignment 0) [0, 1, 1, 0, 0, 1, 0, 1, 1, 0, 0, 1] [1, 0, 0, 1]
     (demo_instance demo_generation, demo_manager) = Some (Ok (), fst demo_assigned, snd demo_assigned)"
  "OnPartitionRevoked demo_env [1, 0, 0, 1, 1, 0] (fst demo_assigned, snd demo_assigned) =
     Some (Ok (), fst (snd (the demo_revoke)), snd (snd (the demo_revoke)))"
  using succeeded_eq [OF demo_rebalance_runs(1)] succeeded_eq [OF demo_rebalance_runs(2)]
  by (simp_all add: demo_assign_def demo_assigned_def demo_revoke_def)

lemma demo_gen: "Generate (\<lambda>_ x. x) (\<lambda>x. x) demo_tps demo_tasks = Ok (ci_generation (demo_instance demo_generation))"
  by (simp add: demo_instance_def demo_generation)

theorem assigned_tasks_witness:
  "set (ci_currentAssignment (fst demo_assigned)) = assigned (demo_assignment 0) demo_generation"
  using assigned_tasks [where ord = "\<lambda>_ x. x" and ordg = "\<lambda>x. x", OF demo_facts(1,2) reorders_id(1) reorders_id(1) demo_gen
      demo_rebalance_runs(3) demo_run(1)]
  by (simp add: demo_instance_def)

theorem revoked_tasks_witness:
  "map_of (mg_tasks (snd (snd (the demo_revoke)))) ''Task#0'' = None"
  using revoked_tasks [where ord = "\<lambda>_ x. x" and ordg = "\<lambda>x. x", OF demo_facts(1,2) reorders_id(1) reorders_id(1) demo_gen
      demo_rebalance_runs(3) demo_run(1) refl demo_run(2), of "''Task#0''"]
  by (simp add: demo_manager_def)


text \<open>Two sub topologies with the same source topic: both tasks are assigned, one is started.\<close>

definition shared_tasks :: "(unit, unit) topology_builder" where
  "shared_tasks = \<lparr>tb_heap = \<lparr>hp_nodes = map (\<lambda>t. \<lparr>nb_id = NewNodeId 0 [] [], nb_name = [], nb_kind = BProc (PSource (NewKSource t []))\<rparr>)
       [''a'', ''a''], hp_subs = [demo_sub 1 [0], demo_sub 2 [1]]\<rparr>, tb_subTopologies = [0, 1], tb_counter = 3\<rparr>"

definition shared_generation :: task_generation where
  "shared_generation = res_value (Generate (\<lambda>_ x. x) (\<lambda>x. x) [demo_tp ''a'' 0] shared_tasks)"

definition shared_assigned :: demo_state where
  "shared_assigned = snd (the (demo_assign shared_tasks [demo_tp ''a'' 0] shared_generation))"

lemma shared_facts:
  "distinct_subs shared_tasks" "\<forall>tp\<in>set [demo_tp ''a'' 0]. 0 \<le> sint (tp_Partition tp)"
  "is_ok (Generate (\<lambda>_ x. x) (\<lambda>x. x) [demo_tp ''a'' 0] shared_tasks)"
  "succeeded (demo_assign shared_tasks [demo_tp ''a'' 0] shared_generation)"
  "0 \<in> set (kt_StreamTopologies shared_tasks)" "tp_Topic (demo_tp ''a'' 0) \<in> set (sub_source_topics 0 (tb_heap shared_tasks))"
  "map key (ci_currentAssignment (fst shared_assigned)) = [''Task#0'', ''Task#1'']"
  "list_all (\<lambda>mp. demo_tp ''a'' 0 \<in> set (tm_TPs mp)) (ci_currentAssignment (fst shared_assigned))"
  "map (\<lambda>mp. ti_id (the (tm_id mp))) (ci_currentAssignment (fst shared_assigned)) = [0, 1]"
  by code_simp+

lemma shared_run:
  "OnPartitionAssigned demo_env (\<lambda>_ _ w. w) shared_tasks [demo_tp ''a'' 0] [0, 1, 1, 0, 0, 1, 0, 1, 1, 0, 0, 1] [1, 0, 0, 1]
     (demo_instance shared_generation, demo_manager) = Some (Ok (), fst shared_assigned, snd shared_assigned)"
  "Generate (\<lambda>_ x. x) (\<lambda>x. x) [demo_tp ''a'' 0] shared_tasks = Ok (ci_generation (demo_instance shared_generation))"
  using succeeded_eq [OF shared_facts(4)] res_value_ok [OF shared_facts(3)]
  by (simp_all add: demo_assign_def shared_assigned_def demo_instance_def shared_generation_def)

theorem consume_starts_first_witness:
  "\<exists>(mp :: task_mapping) t. ti_id (the (tm_id mp)) = 0 \<and> mg_Task (the (tm_id mp)) (snd shared_assigned) = Ok t \<and>
     ci_Consume demo_env (demo_tp ''a'' 0) (fst shared_assigned) (snd shared_assigned) = on_task (me_Start demo_env (demo_tp ''a'' 0)) t (snd shared_assigned)"
proof -
  let ?as = "assigned [demo_tp ''a'' 0] (ci_generation (demo_instance shared_generation))"
  note gen = shared_facts(1,2) reorders_id(1) reorders_id(1) shared_run(2) subset_refl shared_run(1)
  have as: "set (ci_currentAssignment (fst shared_assigned)) = ?as"
    by (rule assigned_result(1) [where ord = "\<lambda>_ x. x" and ordg = "\<lambda>x. x", OF gen])
  have ids: "ti_id (the (tm_id mp)) \<in> {0, 1}" if "mp \<in> ?as" for mp
    using that shared_facts(9) unfolding as [symmetric] by (metis list.set(1,2) list.set_map image_eqI)
  have "0 \<in> set (map (\<lambda>mp. ti_id (the (tm_id mp))) (ci_currentAssignment (fst shared_assigned)))" unfolding shared_facts(9) by simp
  then obtain mp0 where mp0: "mp0 \<in> ?as" "ti_id (the (tm_id mp0)) = 0" unfolding as [symmetric] by auto
  have tp: "demo_tp ''a'' 0 \<in> set (tm_TPs mp0)" using shared_facts(8) mp0(1) unfolding as [symmetric] list_all_iff by (rule bspec)
  have c: "demo_tp ''a'' 0 \<in> set [demo_tp ''a'' 0]" by simp
  from consume_starts_first [where ord = "\<lambda>_ x. x" and ordg = "\<lambda>x. x", OF gen c shared_facts(5,6)]
  obtain mp t where r: "mp \<in> ?as" "mg_Task (the (tm_id mp)) (snd shared_assigned) = Ok t"
    "ci_Consume demo_env (demo_tp ''a'' 0) (fst shared_assigned) (snd shared_assigned) = on_task (me_Start demo_env (demo_tp ''a'' 0)) t (snd shared_assigned)"
    "\<forall>mp'\<in>?as. demo_tp ''a'' 0 \<in> set (tm_TPs mp') \<longrightarrow> ti_id (the (tm_id mp)) \<le> ti_id (the (tm_id mp'))"
    by (elim exE conjE)
  have "ti_id (the (tm_id mp)) \<le> 0" using bspec [OF r(4) mp0(1)] tp mp0(2) by simp
  then have z: "ti_id (the (tm_id mp)) = 0" using ids [OF r(1)] by auto
  show ?thesis by (rule exI [of _ mp], rule exI [of _ t]) (rule conjI [OF z conjI [OF r(2,3)]])
qed

theorem transactional_ids_witness:
  "distinct (map (\<lambda>mp. txID ''app'' (the (tm_id mp))) (tg_mappings demo_generation))"
  by (rule transactional_ids [where ord = "\<lambda>_ x. x" and ordg = "\<lambda>x. x", OF demo_facts(1,2) reorders_id(1) reorders_id(1) demo_generation])

end
