(* ===== verification/Spec2Isabelle.thy ===== *)
theory Spec2Isabelle
  imports Errors Encoding Task Stream_Facts Task_Assignment Task_Lifecycle Registry Consumer_Instance
begin

text \<open>
  A verification library for kstream, a stream processing library on top of Kafka written in Go.
\<close>

end
